(* ===== verification/Prelude.thy ===== *)
theory Prelude
  imports Main "HOL-Library.Word"
begin

text \<open>
  Shared vocabulary of the development: the machine types of the Go and Rust sources, the
  big-endian byte codes both sides of the FFI use, Go's integer remainder, the bounded-log
  interface that every circular buffer of the engine implements, and the generic list lemmas
  the component theories share.
\<close>

section \<open>Machine types\<close>

type_synonym byte = "8 word"
type_synonym u16 = "16 word"
type_synonym u32 = "32 word"
type_synonym u64 = "64 word"
type_synonym i64 = "64 word"

text \<open>Facts about fixed-size arrays and byte counts, used by every codec proof.\<close>

named_theorems wf_simps
named_theorems codec_simps

section \<open>Go arithmetic\<close>

text \<open>Go's \<open>%\<close> truncates towards zero: the result has the sign of the dividend.\<close>

definition go_rem :: "int \<Rightarrow> int \<Rightarrow> int" where
  "go_rem a b = sgn a * (\<bar>a\<bar> mod \<bar>b\<bar>)"

lemma go_rem_nonneg [simp]: "0 \<le> a \<Longrightarrow> 0 < b \<Longrightarrow> go_rem a b = a mod b"
  by (cases "a = 0") (simp_all add: go_rem_def)

text \<open>Go's integer division truncates too.\<close>

definition go_quot :: "int \<Rightarrow> int \<Rightarrow> int" where
  "go_quot a b = sgn a * sgn b * (\<bar>a\<bar> div \<bar>b\<bar>)"

lemma go_quot_nonneg [simp]: "0 \<le> a \<Longrightarrow> 0 < b \<Longrightarrow> go_quot a b = a div b"
  by (cases "a = 0") (simp_all add: go_quot_def)

section \<open>Big-endian byte strings\<close>

text \<open>\<open>be_bytes n v\<close> is the \<open>n\<close>-byte big-endian code of \<open>v\<close> (higher bits are dropped,
  as a Go conversion \<open>byte(v >> k)\<close> drops them); \<open>be_val\<close> reads a byte string back.\<close>

fun be_bytes :: "nat \<Rightarrow> nat \<Rightarrow> byte list" where
  "be_bytes 0 v = []"
| "be_bytes (Suc n) v = of_nat (v div 256 ^ n) # be_bytes n v"

fun be_val :: "byte list \<Rightarrow> nat" where
  "be_val [] = 0"
| "be_val (b # bs) = unat b * 256 ^ length bs + be_val bs"

lemma length_be_bytes [simp]: "length (be_bytes n v) = n"
  by (induction n) auto

lemma nth_be_bytes: "i < n \<Longrightarrow> be_bytes n v ! i = of_nat (v div 256 ^ (n - 1 - i))"
proof (induction n arbitrary: i)
  case 0
  then show ?case by simp
next
  case (Suc n)
  then show ?case by (cases i) auto
qed

lemma unat_byte_less: "unat (b :: byte) < 256"
  by (rule less_le_trans [OF unsigned_less]) simp

lemma be_val_less: "be_val bs < 256 ^ length bs"
proof (induction bs)
  case Nil
  then show ?case by simp
next
  case (Cons b bs)
  have "unat b * 256 ^ length bs + be_val bs < (unat b + 1) * 256 ^ length bs"
    using Cons.IH by simp
  also have "\<dots> \<le> 256 * 256 ^ length bs"
    using unat_byte_less [of b] by (intro mult_right_mono) auto
  finally show ?case by simp
qed

lemma unat_of_nat_byte: "unat (of_nat n :: byte) = n mod 256"
  by (simp add: unat_of_nat)

lemma be_val_be_bytes: "be_val (be_bytes n v) = v mod 256 ^ n"
proof (induction n)
  case 0
  then show ?case by simp
next
  case (Suc n)
  have "v mod (256 ^ n * 256) = 256 ^ n * (v div 256 ^ n mod 256) + v mod 256 ^ n"
    by (rule mod_mult2_eq)
  with Suc show ?case
    by (simp add: unat_of_nat_byte mult.commute)
qed

lemma be_val_append: "be_val (xs @ ys) = be_val xs * 256 ^ length ys + be_val ys"
  by (induction xs) (auto simp: algebra_simps power_add)

lemma be_bytes_add_mult: "be_bytes n (a * 256 ^ n + v) = be_bytes n v"
proof (induction n arbitrary: a)
  case 0
  then show ?case by simp
next
  case (Suc n)
  have eq: "a * 256 ^ Suc n + v = (a * 256) * 256 ^ n + v" by simp
  have "(a * 256 * 256 ^ n + v) div 256 ^ n = a * 256 + v div 256 ^ n"
    by simp
  then have "(of_nat ((a * 256 ^ Suc n + v) div 256 ^ n) :: byte) = of_nat (v div 256 ^ n)"
    unfolding eq by (metis mod_mult_self3 unat_of_nat_byte word_unat_eq_iff)
  moreover have "be_bytes n (a * 256 ^ Suc n + v) = be_bytes n v"
    unfolding eq by (rule Suc.IH)
  ultimately show ?case by simp
qed

lemma be_bytes_be_val: "be_bytes (length bs) (be_val bs) = bs"
proof (induction bs)
  case Nil
  then show ?case by simp
next
  case (Cons b bs)
  have "(unat b * 256 ^ length bs + be_val bs) div 256 ^ length bs = unat b"
    using be_val_less [of bs] by simp
  then show ?case using Cons by (simp add: be_bytes_add_mult)
qed

lemma be_val_inj: "length xs = length ys \<Longrightarrow> be_val xs = be_val ys \<Longrightarrow> xs = ys"
  by (metis be_bytes_be_val)

lemma be_val_replicate_0 [simp]: "be_val (replicate n 0) = 0"
  by (induction n) auto

text \<open>The 64- and 32-bit codes are exact.\<close>

lemma of_nat_mod_word: "n mod 2 ^ LENGTH('a) = m \<Longrightarrow> (of_nat m :: 'a::len word) = of_nat n"
  by (auto simp: word_of_nat_eq_iff take_bit_eq_mod)

lemma be_val_be_bytes_u64 [codec_simps]: "of_nat (be_val (be_bytes 8 n)) = (of_nat n :: u64)"
  by (rule of_nat_mod_word) (simp add: be_val_be_bytes)

lemma be_val_be_bytes_u32 [codec_simps]: "of_nat (be_val (be_bytes 4 n)) = (of_nat n :: u32)"
  by (rule of_nat_mod_word) (simp add: be_val_be_bytes)

text \<open>A loop that stores one array element per iteration, from offset \<open>length xs\<close> on.\<close>

lemma fold_list_update:
  "n \<le> length ys \<Longrightarrow>
     fold (\<lambda>i bs. bs[length xs + i := f i]) [0..<n] (xs @ ys) = xs @ map f [0..<n] @ drop n ys"
proof (induction n)
  case 0
  then show ?case by simp
next
  case (Suc n)
  then obtain y where "drop n ys = y # drop (Suc n) ys"
    by (metis Cons_nth_drop_Suc Suc_le_lessD)
  with Suc show ?case by (simp add: list_update_append)
qed

section \<open>The last elements of a list\<close>

definition last_n :: "nat \<Rightarrow> 'a list \<Rightarrow> 'a list" where
  "last_n n xs = drop (length xs - n) xs"

lemma length_last_n [simp]: "length (last_n n xs) = min n (length xs)"
  by (simp add: last_n_def)

lemma last_n_short: "length xs \<le> n \<Longrightarrow> last_n n xs = xs"
  by (simp add: last_n_def)

lemma last_n_last_n_append: "last_n n (last_n n xs @ ys) = last_n n (xs @ ys)"
proof (cases "length xs \<le> n")
  case True
  then show ?thesis by (simp add: last_n_short)
next
  case False
  then show ?thesis by (simp add: last_n_def) (simp add: add.commute)
qed

lemma last_n_snoc_nonempty: "0 < n \<Longrightarrow> last_n n (xs @ [x]) \<noteq> [] \<and> last (last_n n (xs @ [x])) = x"
  by (auto simp: last_n_def)

lemma last_n_Nil [simp]: "last_n n [] = []"
  by (simp add: last_n_def)

lemma last_n_nonempty: "0 < n \<Longrightarrow> xs \<noteq> [] \<Longrightarrow> last_n n xs \<noteq> [] \<and> last (last_n n xs) = last xs"
  using last_n_snoc_nonempty [of n "butlast xs" "last xs"] by simp

lemma last_n_snoc_mem: "0 < n \<Longrightarrow> x \<in> set (last_n n (xs @ [x]))"
  using last_n_snoc_nonempty [of n xs x] last_in_set [of "last_n n (xs @ [x])"] by simp

text \<open>
  The contract of a bounded log: putting an element appends it and forgets the oldest one once
  the capacity is reached. The reorg engine's ring buffer and both latency trackers provide it.
\<close>

locale bounded_log =
  fixes put :: "'a \<Rightarrow> 's \<Rightarrow> 's"
    and contents :: "'s \<Rightarrow> 'a list"
    and capacity :: nat
    and inv :: "'s \<Rightarrow> bool"
  assumes inv_put: "inv s \<Longrightarrow> inv (put x s)"
    and contents_put: "inv s \<Longrightarrow> contents (put x s) = last_n capacity (contents s @ [x])"
    and contents_bound: "inv s \<Longrightarrow> length (contents s) \<le> capacity"
begin

lemma inv_puts: "inv s \<Longrightarrow> inv (fold put xs s)"
  by (induction xs arbitrary: s) (auto intro: inv_put)

lemma contents_puts: "inv s \<Longrightarrow> contents (fold put xs s) = last_n capacity (contents s @ xs)"
proof (induction xs arbitrary: s)
  case Nil
  then show ?case by (simp add: last_n_short contents_bound)
next
  case (Cons x xs)
  then show ?case
    by (simp add: inv_put contents_put last_n_last_n_append)
qed

lemma contents_puts_empty:
  "inv s \<Longrightarrow> contents s = [] \<Longrightarrow> contents (fold put xs s) = last_n capacity xs"
  by (simp add: contents_puts)

end

section \<open>Runs of step relations\<close>

text \<open>
  The contract of a labelled run: the empty run, extension by one step at the end, and nothing else.
  The runs of the pool, the streamer, the flow, the workers' calls, the listeners and the process provide it.
\<close>

locale labelled_runs =
  fixes step :: "'s \<Rightarrow> 'e \<Rightarrow> 's \<Rightarrow> bool"
    and run :: "'s \<Rightarrow> 'e list \<Rightarrow> 's \<Rightarrow> bool"
  assumes runs_empty: "run s [] s"
    and runs_extend: "run s es t \<Longrightarrow> step t e u \<Longrightarrow> run s (es @ [e]) u"
    and runs_least: "\<And>P. run s es t \<Longrightarrow> P [] s \<Longrightarrow>
      (\<And>ds u e v. run s ds u \<Longrightarrow> P ds u \<Longrightarrow> step u e v \<Longrightarrow> P (ds @ [e]) v) \<Longrightarrow> P es t"
begin

lemma runs_append:
  assumes "run t ds u" and "run s es t"
  shows "run s (es @ ds) u"
  using assms(1)
proof (rule runs_least)
  show "run s (es @ []) t" using assms(2) by simp
  fix ds u e v assume "run s (es @ ds) u" "step u e v"
  from runs_extend [OF this] show "run s (es @ ds @ [e]) v" by simp
qed

lemma runs_single: "step s e t \<Longrightarrow> run s [e] t"
  using runs_extend [OF runs_empty] by simp

lemma runs_cons: "step s e t \<Longrightarrow> run t es u \<Longrightarrow> run s (e # es) u"
  using runs_append [OF _ runs_single] by simp

lemma runs_keep:
  assumes "run s es t" and "I s" and "\<And>u e v. I u \<Longrightarrow> step u e v \<Longrightarrow> I v"
  shows "I t"
  using assms(1) by (rule runs_least) (use assms(2,3) in blast)+

end

end
