(* ===== verification/Rate_Limiter.thy ===== *)
theory Rate_Limiter
  imports Prelude
begin

text \<open>
  The per-tool rate limiter (\<^verbatim>\<open>internal/mcp/rate_limiter.go\<close>): a fixed-window counter for each tool
  name. Clock readings are arguments, in nanoseconds: \<open>t1\<close> is the reading taken when a counter is
  created, \<open>t2\<close> the one taken under the counter's own mutex. That mutex makes the calls on one
  counter a sequence with nondecreasing readings, which is how the theorems order them.
\<close>

record counter =
  count :: int
  windowStart :: int

record rate_limiter =
  rl_limit :: int
  rl_window :: int
  rl_counters :: "string \<Rightarrow> counter option"

definition NewRateLimiter :: "int \<Rightarrow> int \<Rightarrow> rate_limiter" where
  "NewRateLimiter l w = \<lparr>rl_limit = l, rl_window = w, rl_counters = (\<lambda>t. None)\<rparr>"

text \<open>The part of \<open>Allow\<close> under the counter's mutex.\<close>

definition allow_counter :: "int \<Rightarrow> int \<Rightarrow> int \<Rightarrow> counter \<Rightarrow> counter \<times> bool" where
  "allow_counter limit window now c =
     (let c1 = (if now - windowStart c \<ge> window then \<lparr>count = 0, windowStart = now\<rparr> else c)
      in if count c1 \<ge> limit then (c1, False)
         else (c1\<lparr>count := count c1 + 1\<rparr>, True))"

definition Allow :: "int \<Rightarrow> int \<Rightarrow> string \<Rightarrow> rate_limiter \<Rightarrow> rate_limiter \<times> bool" where
  "Allow t1 t2 tool rl =
     (let c = (case rl_counters rl tool of Some c \<Rightarrow> c | None \<Rightarrow> \<lparr>count = 0, windowStart = t1\<rparr>)
      in (case allow_counter (rl_limit rl) (rl_window rl) t2 c of
            (c', ok) \<Rightarrow> (rl\<lparr>rl_counters := (rl_counters rl)(tool \<mapsto> c')\<rparr>, ok)))"

definition rl_Reset :: "rate_limiter \<Rightarrow> rate_limiter" where
  "rl_Reset rl = rl\<lparr>rl_counters := (\<lambda>t. None)\<rparr>"

section \<open>Runs\<close>

record call =
  call_t1 :: int
  call_t2 :: int
  call_tool :: string

text \<open>A run returns the state and the answers in order.\<close>

fun allow_run :: "call list \<Rightarrow> rate_limiter \<Rightarrow> rate_limiter \<times> bool list" where
  "allow_run [] rl = (rl, [])"
| "allow_run (c # cs) rl =
     (case Allow (call_t1 c) (call_t2 c) (call_tool c) rl of
        (rl1, ok) \<Rightarrow> (case allow_run cs rl1 of (rl2, oks) \<Rightarrow> (rl2, ok # oks)))"

fun counter_run :: "int \<Rightarrow> int \<Rightarrow> int list \<Rightarrow> counter \<Rightarrow> bool list" where
  "counter_run limit window [] c = []"
| "counter_run limit window (t # ts) c =
     (case allow_counter limit window t c of (c1, ok) \<Rightarrow> ok # counter_run limit window ts c1)"

text \<open>The calls of one tool with their answers.\<close>

definition answers :: "string \<Rightarrow> call list \<Rightarrow> rate_limiter \<Rightarrow> (int \<times> bool) list" where
  "answers tool cs rl =
     map (\<lambda>(c, ok). (call_t2 c, ok)) (filter (\<lambda>(c, ok). call_tool c = tool) (zip cs (snd (allow_run cs rl))))"

lemma length_counter_run [simp]: "length (counter_run l w ts c) = length ts"
  by (induction ts arbitrary: c) (simp_all split: prod.split)

definition tool_counter :: "string \<Rightarrow> call list \<Rightarrow> rate_limiter \<Rightarrow> counter" where
  "tool_counter tool cs rl =
     (case rl_counters rl tool of Some c \<Rightarrow> c
      | None \<Rightarrow> \<lparr>count = 0, windowStart =
          (case filter (\<lambda>c. call_tool c = tool) cs of [] \<Rightarrow> 0 | c # _ \<Rightarrow> call_t1 c)\<rparr>)"

text \<open>Tools do not influence each other: each sees its own counter.\<close>

lemma answers_counter_run:
  "answers tool cs rl =
     (let ts = map call_t2 (filter (\<lambda>c. call_tool c = tool) cs)
      in zip ts (counter_run (rl_limit rl) (rl_window rl) ts (tool_counter tool cs rl)))"
proof (induction cs arbitrary: rl)
  case Nil
  then show ?case by (simp add: answers_def)
next
  case (Cons c cs)
  obtain rl1 ok where a: "Allow (call_t1 c) (call_t2 c) (call_tool c) rl = (rl1, ok)" by fastforce
  have par: "rl_limit rl1 = rl_limit rl" "rl_window rl1 = rl_window rl"
    using a by (auto simp: Allow_def Let_def split: prod.splits)
  have step: "answers tool (c # cs) rl =
      (if call_tool c = tool then (call_t2 c, ok) # answers tool cs rl1 else answers tool cs rl1)"
    using a by (simp add: answers_def split: prod.split)
  show ?case
  proof (cases "call_tool c = tool")
    case True
    then have "allow_counter (rl_limit rl) (rl_window rl) (call_t2 c) (tool_counter tool (c # cs) rl) =
        (tool_counter tool cs rl1, ok)"
      using a by (auto simp: Allow_def tool_counter_def Let_def split: prod.splits option.splits)
    with step True Cons.IH [of rl1] par show ?thesis by (simp add: Let_def)
  next
    case False
    then have "tool_counter tool (c # cs) rl = tool_counter tool cs rl1"
      using a by (auto simp: Allow_def tool_counter_def Let_def split: prod.splits option.split)
    with step False Cons.IH [of rl1] par show ?thesis by simp
  qed
qed

section \<open>Counting\<close>

definition granted :: "(int \<times> bool) list \<Rightarrow> int \<Rightarrow> int \<Rightarrow> int" where
  "granted as a b = int (length (filter (\<lambda>(t, ok). ok \<and> a \<le> t \<and> t < b) as))"

lemma granted_Cons: "granted ((t, ok) # as) a b = (if ok \<and> a \<le> t \<and> t < b then 1 else 0) + granted as a b"
  by (simp add: granted_def)

lemma granted_late: "(\<forall>t\<in>fst ` set as. b \<le> t) \<Longrightarrow> granted as a b = 0"
  by (force simp: granted_def filter_empty_conv)

lemma zip_fst: "length xs = length ys \<Longrightarrow> fst ` set (zip xs ys) = set xs"
  by (metis map_fst_zip list.set_map)

text \<open>In an interval not longer than the window, a counter whose window started inside grants at
  most what is left of it; one whose window started earlier grants at most one more window.\<close>

lemma granted_bound:
  assumes "0 \<le> limit" and "b \<le> a + window"
  shows "sorted (map fst as) \<Longrightarrow> as = zip ts (counter_run limit window ts c) \<Longrightarrow>
    0 \<le> count c \<Longrightarrow> count c \<le> limit \<Longrightarrow>
    (if a \<le> windowStart c then granted as a b \<le> limit - count c
     else if list_all (\<lambda>t. a \<le> t) ts then granted as a b \<le> 2 * limit - count c
     else granted as a b \<le> 2 * limit)"
proof (induction ts arbitrary: as c)
  case Nil
  then show ?case using assms by (simp add: granted_def)
next
  case (Cons t ts)
  obtain c1 ok where ac: "allow_counter limit window t c = (c1, ok)" by fastforce
  let ?as = "zip ts (counter_run limit window ts c1)"
  have as: "as = (t, ok) # ?as" using Cons.prems(2) ac by simp
  have ge: "\<forall>u\<in>set ts. t \<le> u" using Cons.prems(1) as by (simp add: zip_fst)
  have srt: "sorted (map fst ?as)" using Cons.prems(1) as by simp
  have c1: "0 \<le> count c1" "count c1 \<le> limit"
    using ac Cons.prems(3,4) assms(1) by (auto simp: allow_counter_def Let_def split: if_splits)
  note IH = Cons.IH [OF srt refl c1]
  have late: "granted ?as a b = 0" if "b \<le> t"
    using that ge by (intro granted_late) (simp add: zip_fst order_trans)
  show ?case
    using IH late ac assms Cons.prems(3,4) ge
    by (auto simp: as granted_Cons allow_counter_def Let_def list_all_iff split: if_splits)
qed

lemma rl_New_simps [simp]:
  "rl_limit (NewRateLimiter l w) = l" "rl_window (NewRateLimiter l w) = w"
  "rl_counters (NewRateLimiter l w) t = None"
  by (simp_all add: NewRateLimiter_def)

text \<open>C29: the rate limit. Take any calls on a new limiter, for any tools, with the readings of each
  tool's calls in order. In every interval not longer than the window at most twice the limit of
  the calls for one tool are allowed, whatever happens on the other tools. Twice the limit rather
  than the limit is the price of fixed windows: a burst may end one window and start the next.\<close>

theorem rate_limit_bound:
  assumes "0 \<le> limit" and "sorted (map call_t2 (filter (\<lambda>c. call_tool c = tool) cs))"
    and "b \<le> a + window"
  shows "granted (answers tool cs (NewRateLimiter limit window)) a b \<le> 2 * limit"
proof -
  let ?rl = "NewRateLimiter limit window"
  let ?ts = "map call_t2 (filter (\<lambda>c. call_tool c = tool) cs)"
  let ?c = "tool_counter tool cs ?rl"
  have a: "answers tool cs ?rl = zip ?ts (counter_run limit window ?ts ?c)"
    using answers_counter_run [of tool cs ?rl] by (simp add: Let_def)
  have c: "count ?c = 0" by (simp add: tool_counter_def)
  from granted_bound [OF assms(1,3), of "answers tool cs ?rl" ?ts ?c] a c assms(1,2)
  show ?thesis by (auto split: if_splits)
qed

text \<open>The bursts the bound allows do occur: nineteen calls within two seconds.\<close>

definition burst :: "call list" where
  "burst = \<lparr>call_t1 = 0, call_t2 = 0, call_tool = ''t''\<rparr> #
     replicate 9 \<lparr>call_t1 = 0, call_t2 = 59, call_tool = ''t''\<rparr> @
     replicate 10 \<lparr>call_t1 = 0, call_t2 = 60, call_tool = ''t''\<rparr>"

theorem rate_limit_bound_witness:
  "granted (answers ''t'' burst (NewRateLimiter 10 60)) 59 119 \<le> 20 \<and>
   granted (answers ''t'' burst (NewRateLimiter 10 60)) 59 119 = 19"
proof
  show "granted (answers ''t'' burst (NewRateLimiter 10 60)) 59 119 \<le> 20"
    using rate_limit_bound [of 10 "''t''" burst 119 59 60] by (simp add: burst_def sorted_append)
  show "granted (answers ''t'' burst (NewRateLimiter 10 60)) 59 119 = 19"
    by (simp add: answers_counter_run Let_def burst_def tool_counter_def granted_def
        allow_counter_def eval_nat_numeral)
qed

lemma counter_run_window:
  "0 \<le> count c \<Longrightarrow> count c \<le> limit \<Longrightarrow> \<forall>t\<in>set ts. t - windowStart c < window \<Longrightarrow>
     counter_run limit window ts c =
       replicate (min (length ts) (nat (limit - count c))) True @
       replicate (length ts - nat (limit - count c)) False"
proof (induction ts arbitrary: c)
  case Nil
  then show ?case by simp
next
  case (Cons t ts)
  show ?case
  proof (cases "count c < limit")
    case True
    then have n: "nat (limit - count c) = Suc (nat (limit - (count c + 1)))" by simp
    show ?thesis
      using Cons.IH [of "c\<lparr>count := count c + 1\<rparr>"] Cons.prems True
      by (simp add: allow_counter_def n)
  next
    case False
    with Cons.prems have "count c = limit" by simp
    with Cons.IH [of c] Cons.prems show ?thesis by (simp add: allow_counter_def)
  qed
qed

lemma counters_run: "rl_counters (fst (allow_run cs rl)) t \<noteq> None \<longleftrightarrow>
    rl_counters rl t \<noteq> None \<or> t \<in> call_tool ` set cs"
proof (induction cs arbitrary: rl)
  case (Cons c cs)
  obtain rl1 ok where a: "Allow (call_t1 c) (call_t2 c) (call_tool c) rl = (rl1, ok)" by fastforce
  have "rl_counters rl1 t \<noteq> None \<longleftrightarrow> rl_counters rl t \<noteq> None \<or> t = call_tool c"
    using a by (auto simp: Allow_def Let_def split: prod.splits)
  with Cons.IH [of rl1] a show ?case by (auto split: prod.split)
qed simp

text \<open>One window, exactly. On a new limiter, as long as the calls for a tool stay within one
  window of its first call, the first \<open>limit\<close> of them are allowed and all later ones refused; and
  the limiter ends up holding a counter for every name it was ever asked about, known or not,
  because counters are never dropped.\<close>

theorem first_window_exact:
  assumes "0 \<le> limit" and "filter (\<lambda>c. call_tool c = tool) cs = c0 # rest"
    and "\<forall>c\<in>set (c0 # rest). call_t2 c - call_t1 c0 < window"
  shows "map snd (answers tool cs (NewRateLimiter limit window)) =
      replicate (min (length (c0 # rest)) (nat limit)) True @
      replicate (length (c0 # rest) - nat limit) False \<and>
    (rl_counters (fst (allow_run cs (NewRateLimiter limit window))) name \<noteq> None \<longleftrightarrow>
       name \<in> call_tool ` set cs)"
proof -
  let ?rl = "NewRateLimiter limit window"
  let ?c = "\<lparr>count = 0, windowStart = call_t1 c0\<rparr>"
  let ?ts = "map call_t2 (c0 # rest)"
  have "tool_counter tool cs ?rl = ?c" using assms(2) by (simp add: tool_counter_def)
  then have "answers tool cs ?rl = zip ?ts (counter_run limit window ?ts ?c)"
    using answers_counter_run [of tool cs ?rl] assms(2) by (simp only: Let_def rl_New_simps)
  then have "map snd (answers tool cs ?rl) = counter_run limit window ?ts ?c"
    by (simp del: counter_run.simps)
  also have "\<dots> = replicate (min (length ?ts) (nat (limit - count ?c))) True @
      replicate (length ?ts - nat (limit - count ?c)) False"
    by (rule counter_run_window) (use assms(1,3) in auto)
  finally show ?thesis by (simp only: counters_run rl_New_simps counter.select_convs diff_zero
      length_map simp_thms)
qed

theorem first_window_exact_witness:
  "map snd (answers ''a'' [\<lparr>call_t1 = 0, call_t2 = 1, call_tool = ''a''\<rparr>,
      \<lparr>call_t1 = 0, call_t2 = 2, call_tool = ''zz''\<rparr>, \<lparr>call_t1 = 0, call_t2 = 3, call_tool = ''a''\<rparr>]
      (NewRateLimiter 1 60)) = [True, False]"
  using first_window_exact [of 1 "''a''" "[\<lparr>call_t1 = 0, call_t2 = 1, call_tool = ''a''\<rparr>,
      \<lparr>call_t1 = 0, call_t2 = 2, call_tool = ''zz''\<rparr>, \<lparr>call_t1 = 0, call_t2 = 3, call_tool = ''a''\<rparr>]"
      "\<lparr>call_t1 = 0, call_t2 = 1, call_tool = ''a''\<rparr>" "[\<lparr>call_t1 = 0, call_t2 = 3, call_tool = ''a''\<rparr>]" 60]
  by simp

end
