(* ===== verification/Go_Strings.thy ===== *)
theory Go_Strings
  imports Prelude
begin

text \<open>
  Go strings: byte strings, here lists of 8-bit characters, with the parts of the standard library
  the sources use on them. A \<open>for _, r := range s\<close> loop decodes UTF-8; an invalid byte yields the
  replacement rune U+FFFD and is consumed alone.
\<close>

abbreviation (input) code :: "char \<Rightarrow> nat" where
  "code c \<equiv> of_char c"

lemma code_less: "(of_char c :: nat) < 256"
  using nat_of_char_less_256 [of c] by simp

definition RuneError :: nat where
  "RuneError = 0xFFFD"

text \<open>Range of the second byte of a sequence and its length, by the first byte.\<close>

definition rune_info :: "nat \<Rightarrow> (nat \<times> nat \<times> nat) option" where
  "rune_info p0 =
     (if 0xC2 \<le> p0 \<and> p0 \<le> 0xDF then Some (2, 0x80, 0xBF)
      else if p0 = 0xE0 then Some (3, 0xA0, 0xBF)
      else if p0 = 0xED then Some (3, 0x80, 0x9F)
      else if 0xE1 \<le> p0 \<and> p0 \<le> 0xEF then Some (3, 0x80, 0xBF)
      else if p0 = 0xF0 then Some (4, 0x90, 0xBF)
      else if 0xF1 \<le> p0 \<and> p0 \<le> 0xF3 then Some (4, 0x80, 0xBF)
      else if p0 = 0xF4 then Some (4, 0x80, 0x8F)
      else None)"

definition cont :: "nat \<Rightarrow> bool" where
  "cont b \<longleftrightarrow> 0x80 \<le> b \<and> b \<le> 0xBF"

text \<open>\<open>utf8.DecodeRuneInString\<close>: the rune and the number of bytes it takes.\<close>

fun decode_bytes :: "nat list \<Rightarrow> nat \<times> nat" where
  "decode_bytes [] = (RuneError, 0)"
| "decode_bytes (p0 # bs) =
     (if p0 < 0x80 then (p0, 1)
      else (case rune_info p0 of
          None \<Rightarrow> (RuneError, 1)
        | Some (sz, lo, hi) \<Rightarrow>
            (case bs of
               [] \<Rightarrow> (RuneError, 1)
             | b1 # bs1 \<Rightarrow>
                 if b1 < lo \<or> hi < b1 then (RuneError, 1)
                 else if sz = 2 then ((p0 mod 0x20) * 0x40 + b1 mod 0x40, 2)
                 else (case bs1 of
                     [] \<Rightarrow> (RuneError, 1)
                   | b2 # bs2 \<Rightarrow>
                       if \<not> cont b2 then (RuneError, 1)
                       else if sz = 3
                         then ((p0 mod 0x10) * 0x1000 + (b1 mod 0x40) * 0x40 + b2 mod 0x40, 3)
                       else (case bs2 of
                           [] \<Rightarrow> (RuneError, 1)
                         | b3 # bs3 \<Rightarrow>
                             if \<not> cont b3 then (RuneError, 1)
                             else ((p0 mod 0x08) * 0x40000 + (b1 mod 0x40) * 0x1000 +
                                   (b2 mod 0x40) * 0x40 + b3 mod 0x40, 4))))))"

definition decode_rune :: "string \<Rightarrow> nat \<times> nat" where
  "decode_rune s = decode_bytes (map of_char s)"

text \<open>\<open>string(r)\<close>\<close>

definition encode_rune :: "nat \<Rightarrow> string" where
  "encode_rune r =
     (let q = (if r > 0x10FFFF \<or> (0xD800 \<le> r \<and> r \<le> 0xDFFF) then RuneError else r)
      in map char_of
        (if q < 0x80 then [q]
         else if q < 0x800 then [0xC0 + q div 0x40, 0x80 + q mod 0x40]
         else if q < 0x10000 then [0xE0 + q div 0x1000, 0x80 + q div 0x40 mod 0x40, 0x80 + q mod 0x40]
         else [0xF0 + q div 0x40000, 0x80 + q div 0x1000 mod 0x40, 0x80 + q div 0x40 mod 0x40,
               0x80 + q mod 0x40]))"

lemma rune_info_range:
  "rune_info p = Some (sz, lo, hi) \<Longrightarrow> 0x80 \<le> lo \<and>
     (sz = 2 \<longrightarrow> 0xC2 \<le> p \<and> p \<le> 0xDF) \<and>
     (sz \<noteq> 2 \<longrightarrow> sz = 3 \<longrightarrow> (p = 0xE0 \<and> lo = 0xA0 \<and> hi = 0xBF) \<or> (0xE1 \<le> p \<and> p \<le> 0xEF)) \<and>
     (sz \<noteq> 2 \<longrightarrow> sz \<noteq> 3 \<longrightarrow> (p = 0xF0 \<and> lo = 0x90 \<and> hi = 0xBF) \<or> (0xF1 \<le> p \<and> p \<le> 0xF4))"
  by (auto simp: rune_info_def split: if_splits)

lemma lead_mod: "k * m \<le> p \<Longrightarrow> p < k * m + m \<Longrightarrow> p mod m = p - k * (m :: nat)"
  by (metis add_diff_inverse_nat less_diff_conv2 linorder_not_le add.commute mod_less mod_mult_self1)

lemma lead_bits:
  "0xC2 \<le> p \<Longrightarrow> p \<le> 0xDF \<Longrightarrow> 2 \<le> p mod (0x20 :: nat)"
  "0xE1 \<le> p \<Longrightarrow> p \<le> 0xEF \<Longrightarrow> 1 \<le> p mod (0x10 :: nat)"
  "0xF1 \<le> p \<Longrightarrow> p \<le> 0xF4 \<Longrightarrow> 1 \<le> p mod (0x08 :: nat)"
  "0xA0 \<le> p \<Longrightarrow> p \<le> 0xBF \<Longrightarrow> 0x20 \<le> p mod (0x40 :: nat)"
  "0x90 \<le> p \<Longrightarrow> p \<le> 0xBF \<Longrightarrow> 0x10 \<le> p mod (0x40 :: nat)"
  using lead_mod [of 6 "0x20" p] lead_mod [of 14 "0x10" p] lead_mod [of 30 "0x08" p]
    lead_mod [of 2 "0x40" p]
  by simp_all

text \<open>A byte above 127 starts a block of such bytes that yields one rune above 127.\<close>

lemma decode_bytes_high:
  assumes "0x80 \<le> p0"
  shows "0x80 \<le> fst (decode_bytes (p0 # bs)) \<and> 1 \<le> snd (decode_bytes (p0 # bs)) \<and>
    snd (decode_bytes (p0 # bs)) \<le> length (p0 # bs) \<and>
    (\<forall>d\<in>set (take (snd (decode_bytes (p0 # bs))) (p0 # bs)). 0x80 \<le> d)"
proof -
  have err: "decode_bytes (p0 # bs) = (RuneError, 1) \<Longrightarrow> ?thesis"
    using assms by (simp add: RuneError_def)
  show ?thesis
  proof (cases "rune_info p0")
    case None
    with assms have "decode_bytes (p0 # bs) = (RuneError, 1)" by simp
    then show ?thesis by (rule err)
  next
    case (Some t)
    obtain sz lo hi where t: "t = (sz, lo, hi)" by (cases t) auto
    note r = rune_info_range [OF Some [unfolded t]]
    show ?thesis
    proof (cases bs)
      case Nil
      with Some t assms show ?thesis by (intro err) simp
    next
      case (Cons b1 bs1)
      note c1 = Cons
      show ?thesis
      proof (cases "b1 < lo \<or> hi < b1")
        case True
        with Some t assms c1 show ?thesis by (intro err) simp
      next
        case False
        note b1 = False
        show ?thesis
        proof (cases "sz = 2")
          case True
          with Some t assms c1 b1 r lead_bits(1) [of p0] show ?thesis by simp
        next
          case False
          note s2 = False
          show ?thesis
          proof (cases "bs1 = [] \<or> \<not> cont (hd bs1)")
            case True
            with Some t assms c1 b1 s2 show ?thesis by (intro err) (auto split: list.split)
          next
            case False
            then obtain b2 bs2 where c2: "bs1 = b2 # bs2" "cont b2" by (cases bs1) auto
            show ?thesis
            proof (cases "sz = 3")
              case True
              then have "0x80 \<le> (p0 mod 0x10) * 0x1000 + (b1 mod 0x40) * 0x40 + b2 mod 0x40"
                using r s2 b1 lead_bits(2) [of p0] lead_bits(4) [of b1] by auto
              with True Some t assms c1 c2 b1 s2 r show ?thesis by (auto simp: cont_def)
            next
              case False
              note s3 = False
              show ?thesis
              proof (cases "bs2 = [] \<or> \<not> cont (hd bs2)")
                case True
                with Some t assms c1 c2 b1 s2 s3 show ?thesis by (intro err) (auto split: list.split)
              next
                case False
                then obtain b3 bs3 where c3: "bs2 = b3 # bs3" "cont b3" by (cases bs2) auto
                have "0x80 \<le> (p0 mod 0x08) * 0x40000 + (b1 mod 0x40) * 0x1000 + (b2 mod 0x40) * 0x40 + b3 mod 0x40"
                  using r s2 s3 b1 lead_bits(3) [of p0] lead_bits(5) [of b1] by auto
                with Some t assms c1 c2 c3 b1 s2 s3 r show ?thesis by (auto simp: cont_def)
              qed
            qed
          qed
        qed
      qed
    qed
  qed
qed

lemma decode_rune_high:
  assumes "0x80 \<le> (of_char c :: nat)"
  shows "0x80 \<le> fst (decode_rune (c # s)) \<and> 1 \<le> snd (decode_rune (c # s)) \<and>
    snd (decode_rune (c # s)) \<le> length (c # s) \<and>
    (\<forall>d\<in>set (take (snd (decode_rune (c # s))) (c # s)). 0x80 \<le> (of_char d :: nat))"
  using decode_bytes_high [OF assms, of "map of_char s"]
  by (simp add: decode_rune_def del: decode_bytes.simps) (simp add: take_map flip: list.map(2))

lemma decode_rune_ascii: "of_char c < (0x80 :: nat) \<Longrightarrow> decode_rune (c # s) = (of_char c, 1)"
  by (simp add: decode_rune_def)

lemma decode_rune_size:
  assumes "s \<noteq> []"
  shows "1 \<le> snd (decode_rune s) \<and> snd (decode_rune s) \<le> length s"
proof (cases s)
  case (Cons c cs)
  then show ?thesis using decode_rune_high [of c cs] decode_rune_ascii [of c cs]
    by (cases "of_char c < (0x80 :: nat)") auto
qed (use assms in simp)

function runes :: "string \<Rightarrow> nat list" where
  "runes s = (if s = [] then [] else fst (decode_rune s) # runes (drop (snd (decode_rune s)) s))"
  by pat_completeness auto
termination
proof (relation "measure length")
  fix s :: string
  assume "s \<noteq> []"
  with decode_rune_size [OF this] show "(drop (snd (decode_rune s)) s, s) \<in> measure length" by simp
qed simp

declare runes.simps [simp del]

lemma runes_Nil [simp]: "runes [] = []"
  by (simp add: runes.simps)

lemma runes_ascii: "of_char c < (0x80 :: nat) \<Longrightarrow> runes (c # s) = of_char c # runes s"
  by (subst runes.simps) (simp add: decode_rune_ascii)

text \<open>Induction over the runes of a string: end, an ASCII byte, a block of high bytes.\<close>

lemma rune_induct [case_names Nil ascii high]:
  assumes "P []"
    and "\<And>c s. of_char c < (0x80 :: nat) \<Longrightarrow> P s \<Longrightarrow> P (c # s)"
    and "\<And>blk s r. blk \<noteq> [] \<Longrightarrow> \<forall>d\<in>set blk. 0x80 \<le> (of_char d :: nat) \<Longrightarrow> 0x80 \<le> r \<Longrightarrow>
      runes (blk @ s) = r # runes s \<Longrightarrow> P s \<Longrightarrow> P (blk @ s)"
  shows "P s"
proof (induction s rule: length_induct)
  case (1 s)
  show ?case
  proof (cases s)
    case Nil
    with assms(1) show ?thesis by simp
  next
    case (Cons c cs)
    show ?thesis
    proof (cases "of_char c < (0x80 :: nat)")
      case True
      with 1 Cons assms(2) show ?thesis by simp
    next
      case False
      let ?n = "snd (decode_rune s)"
      note h = decode_rune_high [of c cs, folded Cons]
      have "runes (take ?n s @ drop ?n s) = fst (decode_rune s) # runes (drop ?n s)"
        using Cons by (subst append_take_drop_id, subst runes.simps) simp
      moreover have "P (drop ?n s)" using 1 h False Cons by (auto simp: Suc_le_eq)
      ultimately have "P (take ?n s @ drop ?n s)"
        using h False Cons by (intro assms(3) [of _ "fst (decode_rune s)"]) auto
      then show ?thesis by simp
    qed
  qed
qed

lemma encode_rune_high:
  "0x80 \<le> r \<Longrightarrow> encode_rune r \<noteq> [] \<and> (0x80 :: nat) \<le> of_char (hd (encode_rune r))"
  by (auto simp: encode_rune_def Let_def RuneError_def unat_of_nat)

lemma encode_rune_ascii: "of_char c < (0x80 :: nat) \<Longrightarrow> encode_rune (of_char c) = [c]"
  by (simp add: encode_rune_def Let_def)

end
