(* ===== verification/Json.thy ===== *)
theory Json
  imports Complex_Main Go_Strings
begin

text \<open>
  JSON values as \<open>encoding/json\<close> decodes them into \<open>interface{}\<close>: numbers are float64 values, which
  are finite here and therefore rationals, and objects are maps, given by their entries.
\<close>

datatype json =
    JNull
  | JBool bool
  | JNum rat
  | JStr string
  | JArr "json list"
  | JObj "(string \<times> json) list"

text \<open>A map lookup \<open>v, ok := m[k]\<close>.\<close>

definition member :: "(string \<times> json) list \<Rightarrow> string \<Rightarrow> json option" where
  "member m k = map_of m k"

fun as_string :: "json option \<Rightarrow> string option" where
  "as_string (Some (JStr s)) = Some s"
| "as_string _ = None"

fun as_number :: "json option \<Rightarrow> rat option" where
  "as_number (Some (JNum n)) = Some n"
| "as_number _ = None"

fun as_object :: "json \<Rightarrow> (string \<times> json) list option" where
  "as_object (JObj m) = Some m"
| "as_object _ = None"

end
