(* ===== verification/Input_Validator.thy ===== *)
theory Input_Validator
  imports Json
begin

text \<open>
  The input validator of the MCP server (\<^verbatim>\<open>internal/mcp/input_validator.go\<close>). The shell patterns are
  regular expressions of two shapes, a case-insensitive word between ASCII word boundaries and a
  set of single characters; both are matched against the runes of the string. Case folding is
  Unicode folding, in which the letters s and k have a third variant each.
\<close>

section \<open>Patterns\<close>

definition word_rune :: "nat \<Rightarrow> bool" where
  "word_rune r \<longleftrightarrow> (48 \<le> r \<and> r \<le> 57) \<or> (65 \<le> r \<and> r \<le> 90) \<or> (97 \<le> r \<and> r \<le> 122) \<or> r = 95"

text \<open>\<open>\b\<close> before position \<open>i\<close>.\<close>

definition word_boundary :: "nat list \<Rightarrow> nat \<Rightarrow> bool" where
  "word_boundary rs i \<longleftrightarrow>
     (0 < i \<and> word_rune (rs ! (i - 1))) \<noteq> (i < length rs \<and> word_rune (rs ! i))"

definition fold_eq :: "nat \<Rightarrow> nat \<Rightarrow> bool" where
  "fold_eq p r \<longleftrightarrow> r = p \<or> (97 \<le> p \<and> p \<le> 122 \<and> r = p - 32) \<or> (p = 115 \<and> r = 0x17F) \<or>
     (p = 107 \<and> r = 0x212A)"

definition lit_at :: "nat list \<Rightarrow> nat list \<Rightarrow> nat \<Rightarrow> bool" where
  "lit_at p rs i \<longleftrightarrow> i + length p \<le> length rs \<and> list_all2 fold_eq p (take (length p) (drop i rs))"

datatype pattern =
    Word string
  | StartsWord string
  | AnyOf string

fun matches :: "pattern \<Rightarrow> nat list \<Rightarrow> bool" where
  "matches (Word w) rs \<longleftrightarrow> list_ex (\<lambda>i. word_boundary rs i \<and> lit_at (map of_char w) rs i \<and>
      word_boundary rs (i + length w)) [0..<Suc (length rs)]"
| "matches (StartsWord w) rs \<longleftrightarrow>
     list_ex (\<lambda>i. word_boundary rs i \<and> lit_at (map of_char w) rs i) [0..<Suc (length rs)]"
| "matches (AnyOf cs) rs \<longleftrightarrow> list_ex (\<lambda>r. r \<in> set (map of_char cs)) rs"

definition shellPatterns :: "pattern list" where
  "shellPatterns = [Word ''sh'', Word ''bash'', Word ''cmd'', Word ''exec'', Word ''system'',
     Word ''powershell'', StartsWord ''/bin/'', Word ''eval'', AnyOf '';&|'', AnyOf [CHR 0x60]]"

definition containsShellPattern :: "string \<Rightarrow> bool" where
  "containsShellPattern s \<longleftrightarrow> list_ex (\<lambda>p. matches p (runes s)) shellPatterns"

section \<open>Values\<close>

datatype validation_failure =
    ShellNotAllowed
  | MissingParameter string
  | NotANumber string
  | OutOfRange string

text \<open>Keys are not looked at, only values. All errors of this walk are equal, so the order in which Go
  visits a map does not matter.\<close>

fun validateValue :: "json \<Rightarrow> bool" where
  "validateValue (JStr s) = (\<not> containsShellPattern s)"
| "validateValue (JObj m) = list_all (\<lambda>kv. validateValue (snd kv)) m"
| "validateValue (JArr vs) = list_all validateValue vs"
| "validateValue _ = True"

type_synonym params = "(string \<times> json) list"

definition num_range :: "string \<Rightarrow> json \<Rightarrow> rat \<Rightarrow> rat \<Rightarrow> validation_failure option" where
  "num_range name v lo hi =
     (case as_number (Some v) of
        None \<Rightarrow> Some (NotANumber name)
      | Some x \<Rightarrow> if x < lo \<or> hi < x then Some (OutOfRange name) else None)"

definition validateLoadTest :: "params \<Rightarrow> validation_failure option" where
  "validateLoadTest ps =
     (case member ps ''tps'' of
        None \<Rightarrow> Some (MissingParameter ''tps'')
      | Some tps \<Rightarrow>
          (case num_range ''tps'' tps 1 10000 of
             Some e \<Rightarrow> Some e
           | None \<Rightarrow>
               (case (case member ps ''duration'' of Some v \<Rightarrow> Some v | None \<Rightarrow> member ps ''duration_seconds'') of
                  None \<Rightarrow> Some (MissingParameter ''duration'')
                | Some d \<Rightarrow> num_range ''duration'' d 1 300)))"

definition validateReorgHistory :: "params \<Rightarrow> validation_failure option" where
  "validateReorgHistory ps =
     (case member ps ''limit'' of None \<Rightarrow> None | Some v \<Rightarrow> num_range ''limit'' v 1 1000)"

definition validateApplyBlockLatency :: "params \<Rightarrow> validation_failure option" where
  "validateApplyBlockLatency ps =
     (case member ps ''limit'' of None \<Rightarrow> None | Some v \<Rightarrow> num_range ''limit'' v 1 10000)"

definition validateDeterminism :: "params \<Rightarrow> validation_failure option" where
  "validateDeterminism ps =
     (case member ps ''block_count'' of None \<Rightarrow> None | Some v \<Rightarrow> num_range ''block_count'' v 1 100)"

definition Validate :: "string \<Rightarrow> params \<Rightarrow> validation_failure option" where
  "Validate tool ps =
     (if \<not> list_all (\<lambda>kv. validateValue (snd kv)) ps then Some ShellNotAllowed
      else if tool = ''run_load_test'' then validateLoadTest ps
      else if tool = ''get_reorg_history'' then validateReorgHistory ps
      else if tool = ''get_apply_block_latency'' then validateApplyBlockLatency ps
      else if tool = ''validate_determinism'' then validateDeterminism ps
      else None)"

definition float_trunc :: "rat \<Rightarrow> int" where
  "float_trunc q = (if q < 0 then \<lceil>q\<rceil> else \<lfloor>q\<rfloor>)"

text \<open>\<open>ValidateType\<close>; a float64 outside the range of int does not survive the conversion to int and
  back, whatever value the conversion gives.\<close>

definition ValidateType :: "json \<Rightarrow> string \<Rightarrow> bool" where
  "ValidateType v t =
     (if t = ''string'' then (case v of JStr _ \<Rightarrow> True | _ \<Rightarrow> False)
      else if t = ''number'' then (case v of JNum _ \<Rightarrow> True | _ \<Rightarrow> False)
      else if t = ''integer'' then (case v of
          JNum q \<Rightarrow> q = of_int (float_trunc q) \<and> - (2 ^ 63) \<le> q \<and> q < 2 ^ 63 | _ \<Rightarrow> False)
      else if t = ''boolean'' then (case v of JBool _ \<Rightarrow> True | _ \<Rightarrow> False)
      else if t = ''object'' then (case v of JObj _ \<Rightarrow> True | _ \<Rightarrow> False)
      else if t = ''array'' then (case v of JArr _ \<Rightarrow> True | _ \<Rightarrow> False)
      else False)"

definition ValidateRange :: "json \<Rightarrow> rat \<Rightarrow> rat \<Rightarrow> bool" where
  "ValidateRange v lo hi = (case v of JNum f \<Rightarrow> \<not> (f < lo \<or> hi < f) | _ \<Rightarrow> False)"

text \<open>\<open>SanitizeString\<close>: drop zero bytes, then keep the runes from 32 on, newlines and tabs.\<close>

definition SanitizeString :: "string \<Rightarrow> string" where
  "SanitizeString s =
     concat (map encode_rune (filter (\<lambda>r. 32 \<le> r \<or> r = 10 \<or> r = 9)
       (runes (filter (\<lambda>c. c \<noteq> CHR 0x00) s))))"

section \<open>What the validator lets through\<close>

text \<open>All strings in a value, at any depth.\<close>

fun strings_of :: "json \<Rightarrow> string list" where
  "strings_of (JStr s) = [s]"
| "strings_of (JObj m) = concat (map (\<lambda>kv. strings_of (snd kv)) m)"
| "strings_of (JArr vs) = concat (map strings_of vs)"
| "strings_of _ = []"

lemma validateValue_strings: "validateValue v \<longleftrightarrow> list_all (\<lambda>s. \<not> containsShellPattern s) (strings_of v)"
proof (induction v rule: validateValue.induct)
  case (2 m)
  then show ?case by (induction m) (auto simp: list_all_iff)
next
  case (3 vs)
  then show ?case by (induction vs) (auto simp: list_all_iff)
qed simp_all

definition number_in :: "params \<Rightarrow> string \<Rightarrow> rat \<Rightarrow> rat \<Rightarrow> bool" where
  "number_in ps k lo hi \<longleftrightarrow> (\<exists>x. member ps k = Some (JNum x) \<and> lo \<le> x \<and> x \<le> hi)"

definition unset_or_in :: "params \<Rightarrow> string \<Rightarrow> rat \<Rightarrow> rat \<Rightarrow> bool" where
  "unset_or_in ps k lo hi \<longleftrightarrow> member ps k = None \<or> number_in ps k lo hi"

lemma num_range_None: "num_range name v lo hi = None \<longleftrightarrow> (\<exists>x. v = JNum x \<and> lo \<le> x \<and> x \<le> hi)"
  by (cases v) (auto simp: num_range_def)

lemma optional_None:
  "(case member ps k of None \<Rightarrow> None | Some v \<Rightarrow> num_range name v lo hi) = None \<longleftrightarrow> unset_or_in ps k lo hi"
  by (auto simp: unset_or_in_def number_in_def num_range_None split: option.split)

lemma num_range_JNum: "num_range name (JNum x) lo hi = (if lo \<le> x \<and> x \<le> hi then None else Some (OutOfRange name))"
  by (auto simp: num_range_def)

lemma load_test_None:
  "validateLoadTest ps = None \<longleftrightarrow> number_in ps ''tps'' 1 10000 \<and>
     (number_in ps ''duration'' 1 300 \<or>
      (member ps ''duration'' = None \<and> number_in ps ''duration_seconds'' 1 300))"
proof -
  have "validateLoadTest ps = None \<longleftrightarrow> number_in ps ''tps'' 1 10000 \<and>
      (case (case member ps ''duration'' of Some v \<Rightarrow> Some v | None \<Rightarrow> member ps ''duration_seconds'') of
         None \<Rightarrow> False | Some d \<Rightarrow> num_range ''duration'' d 1 300 = None)"
    by (cases "member ps ''tps''"; cases "the (member ps ''tps'')")
      (auto simp: validateLoadTest_def number_in_def num_range_JNum num_range_def split: option.split)
  then show ?thesis
    by (cases "member ps ''duration''"; cases "member ps ''duration_seconds''")
      (simp_all add: number_in_def num_range_None)
qed

lemmas tool_checks_None = load_test_None validateReorgHistory_def validateApplyBlockLatency_def
  validateDeterminism_def optional_None

text \<open>C34: what the validator accepts. A request passes exactly when no string in its parameters, at
  any depth of objects and arrays, matches a shell pattern, and the parameters of the four tools
  with checks are numbers in their ranges: tps and one of the two durations are required for a
  load test, where \<open>duration\<close> wins over \<open>duration_seconds\<close>; the other parameters are optional.\<close>

theorem Validate_spec:
  "Validate tool ps = None \<longleftrightarrow>
     list_all (\<lambda>s. \<not> containsShellPattern s) (concat (map (\<lambda>kv. strings_of (snd kv)) ps)) \<and>
     (tool = ''run_load_test'' \<longrightarrow> number_in ps ''tps'' 1 10000 \<and>
        (number_in ps ''duration'' 1 300 \<or>
         (member ps ''duration'' = None \<and> number_in ps ''duration_seconds'' 1 300))) \<and>
     (tool = ''get_reorg_history'' \<longrightarrow> unset_or_in ps ''limit'' 1 1000) \<and>
     (tool = ''get_apply_block_latency'' \<longrightarrow> unset_or_in ps ''limit'' 1 10000) \<and>
     (tool = ''validate_determinism'' \<longrightarrow> unset_or_in ps ''block_count'' 1 100)"
proof -
  have "list_all (\<lambda>kv. validateValue (snd kv)) ps \<longleftrightarrow>
      list_all (\<lambda>s. \<not> containsShellPattern s) (concat (map (\<lambda>kv. strings_of (snd kv)) ps))"
    by (induction ps) (simp_all add: validateValue_strings)
  then have "Validate tool ps = None \<longleftrightarrow>
      list_all (\<lambda>s. \<not> containsShellPattern s) (concat (map (\<lambda>kv. strings_of (snd kv)) ps)) \<and>
      (if tool = ''run_load_test'' then validateLoadTest ps
       else if tool = ''get_reorg_history'' then validateReorgHistory ps
       else if tool = ''get_apply_block_latency'' then validateApplyBlockLatency ps
       else if tool = ''validate_determinism'' then validateDeterminism ps else None) = None"
    by (simp add: Validate_def)
  then show ?thesis
    by (simp add: tool_checks_None)
qed

lemma runes_ascii_list: "list_all (\<lambda>c. of_char c < (0x80 :: nat)) s \<Longrightarrow> runes s = map of_char s"
  by (induction s) (simp_all add: runes_ascii)

lemma shell_examples:
  "\<not> containsShellPattern ''/bin/ls''" "containsShellPattern ''x/bin/ls''"
  "containsShellPattern ''run BASH now''" "\<not> containsShellPattern ''wash''"
  by (simp_all add: containsShellPattern_def shellPatterns_def runes_ascii_list lit_at_def
      word_boundary_def fold_eq_def word_rune_def upt_rec)

theorem Validate_spec_witness:
  "Validate ''run_load_test'' [(''tps'', JNum 100), (''duration'', JNum 5), (''note'', JStr ''/bin/ls'')] = None"
  using Validate_spec [of "''run_load_test''" "[(''tps'', JNum 100), (''duration'', JNum 5), (''note'', JStr ''/bin/ls'')]"]
  by (simp add: number_in_def unset_or_in_def member_def shell_examples)

end
