(* ===== verification/Mcp_Server.thy ===== *)
theory Mcp_Server
  imports Rate_Limiter Input_Validator
begin

text \<open>
  The MCP server (\<^verbatim>\<open>internal/mcp/server.go\<close>): registration of tools and the handling of one JSON-RPC
  request. A request is given by its HTTP method and the decoded body (\<open>None\<close> when decoding failed or
  the body exceeds the limit); handlers act on the program state \<open>'s\<close> and return a result \<open>'r\<close> or
  an error. Whether the JSON content type reaches the client is part of the response: a header
  set after \<open>WriteHeader\<close> is not sent.
\<close>

record rpc_request =
  rq_jsonrpc :: string
  rq_method :: string
  rq_params :: params
  rq_id :: json

record http_request =
  http_post :: bool
  http_body :: "rpc_request option"

datatype 'e rpc_message =
    MethodMustBePost
  | ParseErrorText
  | InvalidVersion
  | RateLimitExceeded
  | ValidationText validation_failure
  | MethodNotFoundText string
  | HandlerText 'e

record ('e, 'r) rpc_response =
  rs_status :: int
  rs_content_type :: bool
  rs_res :: "'r option"
  rs_err :: "(int \<times> 'e rpc_message) option"
  rs_rid :: json

definition ParseError :: int where "ParseError = -32700"
definition InvalidRequest :: int where "InvalidRequest = -32600"
definition MethodNotFound :: int where "MethodNotFound = -32601"
definition InvalidParams :: int where "InvalidParams = -32602"
definition InternalError :: int where "InternalError = -32603"

type_synonym ('s, 'e, 'r) tool_handler = "params \<Rightarrow> 's \<Rightarrow> 's \<times> ('e + 'r)"

record ('s, 'e, 'r) mcp_server =
  handlers :: "string \<Rightarrow> ('s, 'e, 'r) tool_handler option"
  rateLimiter :: rate_limiter

definition minute :: int where
  "minute = 60000000000"

definition NewServer :: "('s, 'e, 'r) mcp_server" where
  "NewServer = \<lparr>handlers = (\<lambda>m. None), rateLimiter = NewRateLimiter 10 minute\<rparr>"

definition RegisterTool :: "string \<Rightarrow> ('s, 'e, 'r) tool_handler \<Rightarrow> ('s, 'e, 'r) mcp_server \<Rightarrow> ('s, 'e, 'r) mcp_server" where
  "RegisterTool name h srv = srv\<lparr>handlers := (handlers srv)(name \<mapsto> h)\<rparr>"

definition writeSuccess :: "json \<Rightarrow> 'r \<Rightarrow> ('e, 'r) rpc_response" where
  "writeSuccess rid res = \<lparr>rs_status = 200, rs_content_type = True, rs_res = Some res,
     rs_err = None, rs_rid = rid\<rparr>"

definition writeError :: "json \<Rightarrow> int \<Rightarrow> 'e rpc_message \<Rightarrow> ('e, 'r) rpc_response" where
  "writeError rid c msg = \<lparr>rs_status = 200, rs_content_type = True, rs_res = None,
     rs_err = Some (c, msg), rs_rid = rid\<rparr>"

text \<open>The two error replies that \<open>handleRequest\<close> writes itself: the status first, then the header.\<close>

definition write_status_error :: "int \<Rightarrow> json \<Rightarrow> int \<Rightarrow> 'e rpc_message \<Rightarrow> ('e, 'r) rpc_response" where
  "write_status_error st rid c msg = \<lparr>rs_status = st, rs_content_type = False, rs_res = None,
     rs_err = Some (c, msg), rs_rid = rid\<rparr>"

definition handleRequest ::
  "int \<Rightarrow> int \<Rightarrow> http_request \<Rightarrow> ('s, 'e, 'r) mcp_server \<Rightarrow> 's \<Rightarrow>
   ('s, 'e, 'r) mcp_server \<times> 's \<times> ('e, 'r) rpc_response" where
  "handleRequest t1 t2 r srv s =
     (if \<not> http_post r then (srv, s, writeError JNull InvalidRequest MethodMustBePost)
      else (case http_body r of
          None \<Rightarrow> (srv, s, writeError JNull ParseError ParseErrorText)
        | Some req \<Rightarrow>
            if rq_jsonrpc req \<noteq> ''2.0'' then (srv, s, writeError (rq_id req) InvalidRequest InvalidVersion)
            else (case Allow t1 t2 (rq_method req) (rateLimiter srv) of
              (rl, allowed) \<Rightarrow>
                (let srv1 = srv\<lparr>rateLimiter := rl\<rparr>
                 in if \<not> allowed
                    then (srv1, s, write_status_error 429 (rq_id req) (-32000) RateLimitExceeded)
                    else (case Validate (rq_method req) (rq_params req) of
                        Some e \<Rightarrow> (srv1, s, write_status_error 400 (rq_id req) InvalidParams (ValidationText e))
                      | None \<Rightarrow>
                          (case handlers srv1 (rq_method req) of
                             None \<Rightarrow> (srv1, s, writeError (rq_id req) MethodNotFound
                                                 (MethodNotFoundText (rq_method req)))
                           | Some h \<Rightarrow>
                               (case h (rq_params req) s of
                                  (s', Inl e) \<Rightarrow> (srv1, s', writeError (rq_id req) InternalError (HandlerText e))
                                | (s', Inr res) \<Rightarrow> (srv1, s', writeSuccess (rq_id req) res))))))))"

section \<open>Guarantees\<close>

text \<open>A well-formed call: POSTed, decoded, of version 2.0. Only such a request is put to the limiter.\<close>

definition rpc_call :: "http_request \<Rightarrow> rpc_request \<Rightarrow> bool" where
  "rpc_call r req \<longleftrightarrow> http_post r \<and> http_body r = Some req \<and> rq_jsonrpc req = ''2.0''"

definition allowed :: "int \<Rightarrow> int \<Rightarrow> ('s, 'e, 'r) mcp_server \<Rightarrow> rpc_request \<Rightarrow> bool" where
  "allowed t1 t2 srv req \<longleftrightarrow> snd (Allow t1 t2 (rq_method req) (rateLimiter srv))"

text \<open>A request gets as far as its handler.\<close>

definition reaches_handler ::
  "int \<Rightarrow> int \<Rightarrow> http_request \<Rightarrow> ('s, 'e, 'r) mcp_server \<Rightarrow> rpc_request \<Rightarrow> ('s, 'e, 'r) tool_handler \<Rightarrow> bool" where
  "reaches_handler t1 t2 r srv req h \<longleftrightarrow> rpc_call r req \<and> allowed t1 t2 srv req \<and>
     Validate (rq_method req) (rq_params req) = None \<and> handlers srv (rq_method req) = Some h"

text \<open>The limiter has counted the request exactly when it was a call.\<close>

definition counted :: "int \<Rightarrow> int \<Rightarrow> http_request \<Rightarrow> rate_limiter \<Rightarrow> rate_limiter" where
  "counted t1 t2 r rl = (if \<exists>req. rpc_call r req then fst (Allow t1 t2 (rq_method (the (http_body r))) rl) else rl)"

lemma call_limited:
  assumes "rpc_call r req" and "\<not> allowed t1 t2 srv req"
  shows "handleRequest t1 t2 r srv s = (srv\<lparr>rateLimiter := counted t1 t2 r (rateLimiter srv)\<rparr>, s,
    write_status_error 429 (rq_id req) (-32000) RateLimitExceeded)"
  using assms by (auto simp: handleRequest_def rpc_call_def allowed_def counted_def Let_def split: prod.split)

lemma call_invalid:
  assumes "rpc_call r req" and "allowed t1 t2 srv req" and "Validate (rq_method req) (rq_params req) = Some e"
  shows "handleRequest t1 t2 r srv s = (srv\<lparr>rateLimiter := counted t1 t2 r (rateLimiter srv)\<rparr>, s,
    write_status_error 400 (rq_id req) InvalidParams (ValidationText e))"
  using assms by (auto simp: handleRequest_def rpc_call_def allowed_def counted_def Let_def split: prod.split)

lemma call_unknown:
  assumes "rpc_call r req" and "allowed t1 t2 srv req" and "Validate (rq_method req) (rq_params req) = None"
    and "handlers srv (rq_method req) = None"
  shows "handleRequest t1 t2 r srv s = (srv\<lparr>rateLimiter := counted t1 t2 r (rateLimiter srv)\<rparr>, s,
    writeError (rq_id req) MethodNotFound (MethodNotFoundText (rq_method req)))"
  using assms by (auto simp: handleRequest_def rpc_call_def allowed_def counted_def Let_def split: prod.split)

lemma call_handled:
  assumes "reaches_handler t1 t2 r srv req h"
  shows "handleRequest t1 t2 r srv s = (srv\<lparr>rateLimiter := counted t1 t2 r (rateLimiter srv)\<rparr>, fst (h (rq_params req) s),
    case snd (h (rq_params req) s) of Inl e \<Rightarrow> writeError (rq_id req) InternalError (HandlerText e)
      | Inr x \<Rightarrow> writeSuccess (rq_id req) x)"
  using assms
  by (auto simp: handleRequest_def reaches_handler_def rpc_call_def allowed_def counted_def Let_def split: prod.split sum.split)

lemma no_call:
  assumes "\<nexists>req. rpc_call r req"
  shows "handleRequest t1 t2 r srv s = (srv\<lparr>rateLimiter := counted t1 t2 r (rateLimiter srv)\<rparr>, s,
    if \<not> http_post r then writeError JNull InvalidRequest MethodMustBePost
    else (case http_body r of None \<Rightarrow> writeError JNull ParseError ParseErrorText
          | Some req \<Rightarrow> writeError (rq_id req) InvalidRequest InvalidVersion))"
  using assms by (auto simp: handleRequest_def rpc_call_def counted_def split: option.split)

lemmas reply_defs = writeError_def writeSuccess_def write_status_error_def ParseError_def InvalidRequest_def
  MethodNotFound_def InvalidParams_def InternalError_def

text \<open>C21: the gate in front of the tools. A handler runs, and the program state can change, only for a call
  (POSTed, decoded, of version 2.0) that the rate limiter allows, whose parameters pass the validator
  and whose method is registered; the reply then has status 200 and carries the handler's result, or
  its error text with code -32603. Every other request leaves the program state alone and gets the
  error reply of the first check it fails: each of the six kinds is sent exactly for its reason, status
  429 exactly when the limiter refused the call, 400 exactly when it was allowed and the validator
  refused it, and 200 otherwise. The limiter counts every call, refused or not, and no other request;
  nothing else of the server changes. The reply has the id of the request, as far as it was decoded,
  and the JSON content type is lost exactly on the replies that do not have status 200.\<close>

theorem handleRequest_gate:
  "case handleRequest t1 t2 r srv s of (srv', s', resp) \<Rightarrow>
     (if \<exists>req h. reaches_handler t1 t2 r srv req h
      then \<exists>req h. reaches_handler t1 t2 r srv req h \<and> s' = fst (h (rq_params req) s) \<and> rs_status resp = 200 \<and>
             (case snd (h (rq_params req) s) of
                Inr res \<Rightarrow> rs_res resp = Some res \<and> rs_err resp = None
              | Inl e \<Rightarrow> rs_res resp = None \<and> rs_err resp = Some (InternalError, HandlerText e))
      else s' = s \<and> rs_res resp = None \<and>
        (rs_err resp = Some (InvalidRequest, MethodMustBePost) \<longleftrightarrow> \<not> http_post r) \<and>
        (rs_err resp = Some (ParseError, ParseErrorText) \<longleftrightarrow> http_post r \<and> http_body r = None) \<and>
        (rs_err resp = Some (InvalidRequest, InvalidVersion) \<longleftrightarrow>
           (\<exists>req. http_post r \<and> http_body r = Some req \<and> rq_jsonrpc req \<noteq> ''2.0'')) \<and>
        (rs_err resp = Some (-32000, RateLimitExceeded) \<longleftrightarrow> (\<exists>req. rpc_call r req \<and> \<not> allowed t1 t2 srv req)) \<and>
        (\<forall>e. rs_err resp = Some (InvalidParams, ValidationText e) \<longleftrightarrow>
           (\<exists>req. rpc_call r req \<and> allowed t1 t2 srv req \<and> Validate (rq_method req) (rq_params req) = Some e)) \<and>
        (\<forall>m. rs_err resp = Some (MethodNotFound, MethodNotFoundText m) \<longleftrightarrow>
           (\<exists>req. rpc_call r req \<and> allowed t1 t2 srv req \<and> Validate (rq_method req) (rq_params req) = None \<and>
              rq_method req = m)) \<and>
        rs_status resp = (if \<exists>req. rpc_call r req \<and> \<not> allowed t1 t2 srv req then 429
          else if \<exists>req. rpc_call r req \<and> Validate (rq_method req) (rq_params req) \<noteq> None then 400 else 200)) \<and>
     srv' = srv\<lparr>rateLimiter := counted t1 t2 r (rateLimiter srv)\<rparr> \<and>
     rs_rid resp = (if http_post r \<and> http_body r \<noteq> None then rq_id (the (http_body r)) else JNull) \<and>
     (rs_content_type resp \<longleftrightarrow> rs_status resp = 200)"
proof (cases "\<exists>req h. reaches_handler t1 t2 r srv req h")
  case True
  then obtain req h where rh: "reaches_handler t1 t2 r srv req h" by blast
  then have "http_post r" "http_body r = Some req" by (simp_all add: reaches_handler_def rpc_call_def)
  with True rh call_handled [OF rh, of s] show ?thesis
    by (cases "snd (h (rq_params req) s)") (auto simp: reply_defs intro!: exI [of _ req] exI [of _ h])
next
  case False
  show ?thesis
  proof (cases "\<exists>req. rpc_call r req")
    case None: False
    with False no_call [OF None, of t1 t2 srv s] show ?thesis
      by (cases "http_body r") (auto simp: reply_defs rpc_call_def)
  next
    case True
    then obtain req where req: "rpc_call r req" by blast
    then have b: "http_post r" "http_body r = Some req" "rq_jsonrpc req = ''2.0''" by (simp_all add: rpc_call_def)
    have only: "rpc_call r q \<longleftrightarrow> q = req" for q using b by (auto simp: rpc_call_def)
    show ?thesis
    proof (cases "allowed t1 t2 srv req")
      case no: False
      with False b only call_limited [OF req no, of s] show ?thesis by (simp add: reply_defs)
    next
      case yes: True
      show ?thesis
      proof (cases "Validate (rq_method req) (rq_params req)")
        case (Some e)
        with False b only yes call_invalid [OF req yes Some, of s] show ?thesis by (auto simp: reply_defs)
      next
        case None
        with False req yes have h: "handlers srv (rq_method req) = None" by (auto simp: reaches_handler_def)
        from None False b only yes call_unknown [OF req yes None h, of s] show ?thesis by (auto simp: reply_defs)
      qed
    qed
  qed
qed

end
