(* ===== verification/Trackers.thy ===== *)
theory Trackers
  imports Complex_Main Prelude "HOL-Library.Multiset"
begin

text \<open>
  The latency trackers of \<^verbatim>\<open>internal/mcp/tools.go\<close>: circular buffers of float64 values, which are
  rationals here. Floating-point arithmetic rounds: every operation is the exact one followed by
  the rounding function \<open>rnd\<close>, an argument of the definitions. Both trackers are bounded logs.
\<close>

record tracker =
  latencies :: "rat list"
  index :: int
  size :: int
  capacity :: int

definition NewLatencyTracker :: "int \<Rightarrow> tracker" where
  "NewLatencyTracker c = \<lparr>latencies = replicate (nat c) 0, index = 0, size = 0, capacity = c\<rparr>"

definition LatencyTracker_Record :: "rat \<Rightarrow> tracker \<Rightarrow> tracker" where
  "LatencyTracker_Record x lt =
     lt\<lparr>latencies := (latencies lt)[nat (index lt) := x],
        index := go_rem (index lt + 1) (capacity lt),
        size := (if size lt < capacity lt then size lt + 1 else size lt)\<rparr>"

text \<open>\<open>int(f)\<close>; the result for a float outside the range of int is the one of amd64.\<close>

definition float_to_int :: "rat \<Rightarrow> int" where
  "float_to_int q =
     (let t = (if q < 0 then \<lceil>q\<rceil> else \<lfloor>q\<rfloor>)
      in if - (2 ^ 63) \<le> t \<and> t < 2 ^ 63 then t else - (2 ^ 63))"

record distribution =
  p50_ms :: rat
  p95_ms :: rat
  p99_ms :: rat
  max_ms :: rat

definition percentile_index :: "(rat \<Rightarrow> rat) \<Rightarrow> int \<Rightarrow> rat \<Rightarrow> int" where
  "percentile_index rnd n q = float_to_int (rnd (rnd (of_int n) * rnd q))"

text \<open>An index out of range panics: \<open>None\<close>.\<close>

definition at_index :: "'a list \<Rightarrow> int \<Rightarrow> 'a option" where
  "at_index xs i = (if 0 \<le> i \<and> i < int (length xs) then Some (xs ! nat i) else None)"

definition GetDistribution :: "(rat \<Rightarrow> rat) \<Rightarrow> tracker \<Rightarrow> distribution option" where
  "GetDistribution rnd lt =
     (if size lt = 0 then Some \<lparr>p50_ms = 0, p95_ms = 0, p99_ms = 0, max_ms = 0\<rparr>
      else (let sorted = sort (map (\<lambda>i. latencies lt ! i) [0..<nat (size lt)])
            in (case (at_index sorted (percentile_index rnd (size lt) (50 / 100)),
                      at_index sorted (percentile_index rnd (size lt) (95 / 100)),
                      at_index sorted (percentile_index rnd (size lt) (99 / 100)),
                      at_index sorted (size lt - 1)) of
                  (Some a, Some b, Some c, Some m) \<Rightarrow>
                    Some \<lparr>p50_ms = a, p95_ms = b, p99_ms = c, max_ms = m\<rparr>
                | _ \<Rightarrow> None)))"

definition NewApplyBlockLatencyTracker :: "int \<Rightarrow> tracker" where
  "NewApplyBlockLatencyTracker c = \<lparr>latencies = replicate (nat c) 0, index = 0, size = 0, capacity = c\<rparr>"

definition ApplyBlockLatency_Record :: "rat \<Rightarrow> tracker \<Rightarrow> tracker" where
  "ApplyBlockLatency_Record x lt =
     lt\<lparr>latencies := (latencies lt)[nat (index lt) := x],
        index := go_rem (index lt + 1) (capacity lt),
        size := (if size lt < capacity lt then size lt + 1 else size lt)\<rparr>"

definition effective_count :: "int \<Rightarrow> tracker \<Rightarrow> int" where
  "effective_count limit lt = (if limit > 0 \<and> limit < size lt then limit else size lt)"

text \<open>The \<open>i\<close>-th most recent value.\<close>

definition recent :: "tracker \<Rightarrow> nat \<Rightarrow> rat" where
  "recent lt i =
     (let idx = go_rem (index lt - 1 - int i + capacity lt) (capacity lt);
          idx' = (if idx < 0 then idx + capacity lt else idx)
      in latencies lt ! nat idx')"

definition GetLatencies :: "int \<Rightarrow> tracker \<Rightarrow> rat list" where
  "GetLatencies limit lt =
     (if size lt = 0 then [] else map (recent lt) [0..<nat (effective_count limit lt)])"

text \<open>\<open>fsqrt\<close> is \<open>math.Sqrt\<close>, which rounds the exact root.\<close>

definition GetStatistics :: "(rat \<Rightarrow> rat) \<Rightarrow> (rat \<Rightarrow> rat) \<Rightarrow> int \<Rightarrow> tracker \<Rightarrow> rat \<times> rat" where
  "GetStatistics rnd fsqrt limit lt =
     (if size lt = 0 then (0, 0)
      else (let n = effective_count limit lt;
                sum = foldl (\<lambda>s i. rnd (s + recent lt i)) 0 [0..<nat n];
                mean = rnd (sum / rnd (of_int n));
                vsum = foldl (\<lambda>s i. let d = rnd (recent lt i - mean) in rnd (s + rnd (d * d))) 0 [0..<nat n];
                variance = rnd (vsum / rnd (of_int n))
            in (mean, fsqrt variance)))"

section \<open>The trackers as bounded logs\<close>

definition tr_inv :: "nat \<Rightarrow> tracker \<Rightarrow> bool" where
  "tr_inv c lt \<longleftrightarrow> 0 < c \<and> capacity lt = int c \<and> length (latencies lt) = c \<and>
     (\<exists>i n. index lt = int i \<and> size lt = int n \<and> i < c \<and> n \<le> c \<and> (n < c \<longrightarrow> i = n))"

text \<open>Oldest to newest: the prefix while it fills, afterwards the array rotated to the index.\<close>

definition tr_list :: "tracker \<Rightarrow> rat list" where
  "tr_list lt = (if size lt < capacity lt then take (nat (size lt)) (latencies lt)
                 else rotate (nat (index lt)) (latencies lt))"

lemma rotate_step:
  assumes "i < length xs"
  shows "rotate (Suc i mod length xs) (xs[i := x]) = tl (rotate i xs) @ [x]"
proof -
  have ne: "xs \<noteq> []" using assms by auto
  have "rotate (Suc i mod length xs) (xs[i := x]) = rotate1 (rotate i (xs[i := x]))"
    by (metis length_list_update rotate_Suc rotate_conv_mod)
  moreover have "rotate i (xs[i := x]) = (rotate i xs)[0 := x]"
  proof (rule nth_equalityI)
    fix j assume "j < length (rotate i (xs[i := x]))"
    then have j: "j < length xs" by simp
    have "(i + j) mod length xs = i \<longleftrightarrow> j = 0"
      using assms j by (cases "i + j < length xs") (auto simp: mod_if)
    with j assms show "rotate i (xs[i := x]) ! j = (rotate i xs)[0 := x] ! j"
      by (auto simp: nth_rotate nth_list_update)
  qed simp
  moreover have "rotate i xs \<noteq> []" using ne by simp
  then obtain y ys where "rotate i xs = y # ys" by (cases "rotate i xs") auto
  ultimately show ?thesis by simp
qed

lemma tr_step:
  fixes x :: rat
  assumes "tr_inv c lt"
  defines "lt' \<equiv> lt\<lparr>latencies := (latencies lt)[nat (index lt) := x], index := go_rem (index lt + 1) (capacity lt),
     size := (if size lt < capacity lt then size lt + 1 else size lt)\<rparr>"
  shows "tr_inv c lt'" and "tr_list lt' = last_n c (tr_list lt @ [x])"
proof -
  from assms(1) obtain i n where i: "index lt = int i" "size lt = int n" "i < c" "n \<le> c" "n < c \<longrightarrow> i = n"
    "0 < c" "capacity lt = int c" "length (latencies lt) = c" by (auto simp: tr_inv_def)
  have m: "go_rem (int i + 1) (int c) = int (Suc i mod c)"
    using i(6) by (simp add: zmod_int add.commute)
  show "tr_inv c lt'"
    unfolding tr_inv_def lt'_def
    using i by (auto simp: m intro!: exI [of _ "Suc i mod c"] exI [of _ "if n < c then Suc n else n"])
  show "tr_list lt' = last_n c (tr_list lt @ [x])"
  proof (cases "n < c")
    case True
    then have eq: "i = n" using i(5) by simp
    have "tr_list lt' = take (Suc n) ((latencies lt)[n := x])"
    proof (cases "Suc n < c")
      case True
      then show ?thesis using i eq m by (simp add: tr_list_def lt'_def nat_add_distrib)
    next
      case False
      with \<open>n < c\<close> have "c = Suc n" by simp
      then show ?thesis using i eq m by (simp add: tr_list_def lt'_def)
    qed
    also have "\<dots> = tr_list lt @ [x]"
      using True i eq by (simp add: tr_list_def take_Suc_conv_app_nth)
    finally show ?thesis using True i by (simp add: last_n_short tr_list_def)
  next
    case False
    then have n: "n = c" using i(4) by simp
    have "tr_list lt' = rotate (Suc i mod c) ((latencies lt)[i := x])"
      using i n m by (simp add: tr_list_def lt'_def)
    also have "\<dots> = tl (rotate i (latencies lt)) @ [x]" using rotate_step [of i "latencies lt" x] i by simp
    also have "\<dots> = last_n c (tr_list lt @ [x])"
      using i n by (cases "rotate i (latencies lt)")
        (auto simp: tr_list_def last_n_def dest: arg_cong [of _ _ length])
    finally show ?thesis .
  qed
qed

lemma tr_list_length: "tr_inv c lt \<Longrightarrow> length (tr_list lt) = nat (size lt) \<and> nat (size lt) \<le> c"
  by (auto simp: tr_inv_def tr_list_def)

lemma tr_inv_new: "0 < c \<Longrightarrow> tr_inv c (NewLatencyTracker (int c)) \<and> tr_list (NewLatencyTracker (int c)) = []"
  by (auto simp: tr_inv_def tr_list_def NewLatencyTracker_def)

lemma NewApplyBlock_eq: "NewApplyBlockLatencyTracker = NewLatencyTracker"
  by (simp add: fun_eq_iff NewApplyBlockLatencyTracker_def NewLatencyTracker_def)

interpretation latency: bounded_log LatencyTracker_Record tr_list c "tr_inv c" for c
  using tr_step [of c] by unfold_locales (auto simp: LatencyTracker_Record_def tr_list_length)

interpretation apply_latency: bounded_log ApplyBlockLatency_Record tr_list c "tr_inv c" for c
  using tr_step [of c] by unfold_locales (auto simp: ApplyBlockLatency_Record_def tr_list_length)

section \<open>Reading them\<close>

lemma recent_tr_list:
  assumes "tr_inv c lt" and "i < nat (size lt)"
  shows "recent lt i = tr_list lt ! (nat (size lt) - 1 - i)"
proof -
  from assms(1) obtain k n where k: "index lt = int k" "size lt = int n" "k < c" "n \<le> c" "n < c \<longrightarrow> k = n"
    "0 < c" "capacity lt = int c" "length (latencies lt) = c" by (auto simp: tr_inv_def)
  have i: "i < n" using assms(2) k by simp
  have e: "int k - 1 - int i + int c = int (k + (c - 1 - i))" using i k by simp
  have "go_rem (index lt - 1 - int i + capacity lt) (capacity lt) = int ((k + (c - 1 - i)) mod c)"
    unfolding k e using k(6) by (simp add: zmod_int)
  then have r: "recent lt i = latencies lt ! ((k + (c - 1 - i)) mod c)"
    by (simp add: recent_def Let_def)
  show ?thesis
  proof (cases "n < c")
    case True
    then have "(k + (c - 1 - i)) mod c = (c + (n - 1 - i)) mod c" using k(5) i by (simp add: algebra_simps)
    also have "\<dots> = n - 1 - i"
    proof -
      have "n - 1 - i < c" using True i by simp
      then show ?thesis by (simp only: mod_add_self1 mod_less)
    qed
    finally show ?thesis using r k True i by (simp add: tr_list_def)
  next
    case False
    then show ?thesis using r k i by (simp add: tr_list_def nth_rotate)
  qed
qed

lemma GetLatencies_tr_list:
  assumes "tr_inv c lt"
  shows "GetLatencies limit lt = take (nat (effective_count limit lt)) (rev (tr_list lt))"
proof (rule nth_equalityI)
  have len: "length (tr_list lt) = nat (size lt)" using tr_list_length [OF assms] by simp
  have ec: "nat (effective_count limit lt) \<le> nat (size lt)"
    by (intro nat_mono) (simp add: effective_count_def)
  then show "length (GetLatencies limit lt) = length (take (nat (effective_count limit lt)) (rev (tr_list lt)))"
    using len by (simp add: GetLatencies_def)
  fix i assume "i < length (GetLatencies limit lt)"
  then have i: "i < nat (effective_count limit lt)" "size lt \<noteq> 0"
    by (auto simp: GetLatencies_def split: if_splits)
  then show "GetLatencies limit lt ! i = take (nat (effective_count limit lt)) (rev (tr_list lt)) ! i"
    using recent_tr_list [OF assms, of i] ec len by (simp add: GetLatencies_def rev_nth)
qed

text \<open>The apply-latency log. After any values were recorded in a tracker of positive capacity,
  \<open>GetLatencies(limit)\<close> returns the most recent values first: as many as the limit asks for, or for
  a limit that is not positive all that are kept, which are the last \<open>capacity\<close> values.\<close>

theorem GetLatencies_recent:
  assumes "0 < c"
  shows "GetLatencies limit (fold ApplyBlockLatency_Record xs (NewApplyBlockLatencyTracker (int c))) =
    take (if limit > 0 then nat limit else c) (rev (last_n c xs))"
proof -
  let ?lt = "fold ApplyBlockLatency_Record xs (NewApplyBlockLatencyTracker (int c))"
  have new: "tr_inv c (NewApplyBlockLatencyTracker (int c))" "tr_list (NewApplyBlockLatencyTracker (int c)) = []"
    using tr_inv_new [OF assms] by (simp_all add: NewApplyBlock_eq)
  have inv: "tr_inv c ?lt" by (rule apply_latency.inv_puts [OF new(1)])
  have l: "tr_list ?lt = last_n c xs" by (rule apply_latency.contents_puts_empty [OF new])
  have "nat (size ?lt) = length (last_n c xs)" using tr_list_length [OF inv] l by simp
  then have "nat (effective_count limit ?lt) = (if limit > 0 then min (nat limit) (min c (length xs)) else min c (length xs))"
    by (auto simp: effective_count_def min_def)
  then show ?thesis
    unfolding GetLatencies_tr_list [OF inv] l by (auto simp: min_def)
qed

theorem GetLatencies_recent_witness:
  "GetLatencies 2 (fold ApplyBlockLatency_Record [5, 6, 7, 8] (NewApplyBlockLatencyTracker 3)) = [8, 7]"
  using GetLatencies_recent [of 3 2 "[5, 6, 7, 8]"] by (simp add: last_n_def eval_nat_numeral)

section \<open>Percentiles under rounding\<close>

text \<open>What is used of IEEE 754 double rounding: it is monotone, exact on integers up to \<open>2 ^ 53\<close>, and
  has a relative error of at most \<open>2 ^ -53\<close> in the normal range.\<close>

definition ieee :: "(rat \<Rightarrow> rat) \<Rightarrow> bool" where
  "ieee rnd \<longleftrightarrow> mono rnd \<and> (\<forall>z. \<bar>z\<bar> \<le> 2 ^ 53 \<longrightarrow> rnd (of_int z) = of_int z) \<and>
     (\<forall>x. 1 / 2 ^ 1000 \<le> \<bar>x\<bar> \<longrightarrow> \<bar>x\<bar> \<le> 2 ^ 1000 \<longrightarrow> \<bar>rnd x - x\<bar> \<le> \<bar>x\<bar> / 2 ^ 53)"

lemma ieee_id: "ieee (\<lambda>x. x)"
  by (simp add: ieee_def mono_def)

lemma ieee_pos:
  assumes "ieee rnd" and "1 / 4 \<le> x" and "x \<le> 2 ^ 60"
  shows "x * (1 - 1 / 2 ^ 53) \<le> rnd x \<and> rnd x \<le> x * (1 + 1 / 2 ^ 53)"
proof -
  have "1 / 2 ^ 1000 \<le> (1 / 4 :: rat)" by (simp add: divide_simps)
  also have "1 / 4 \<le> \<bar>x\<bar>" using assms(2) by simp
  finally have lo: "1 / 2 ^ 1000 \<le> \<bar>x\<bar>" .
  have "(2 :: rat) ^ 60 \<le> 2 ^ 1000" by (rule power_increasing) simp_all
  then have hi: "\<bar>x\<bar> \<le> 2 ^ 1000" using assms(2,3) by linarith
  have "\<bar>rnd x - x\<bar> \<le> \<bar>x\<bar> / 2 ^ 53" using assms(1) lo hi unfolding ieee_def by blast
  then have "\<bar>rnd x - x\<bar> \<le> x / 2 ^ 53" using assms(2) by simp
  then show ?thesis unfolding abs_le_iff by (simp add: algebra_simps)
qed

lemma percentile_index_bounds:
  assumes "ieee rnd" and "1 \<le> n" and "n \<le> 2 ^ 53" and "1 / 2 \<le> q" and "q \<le> 99 / 100"
  shows "percentile_index rnd n q = \<lfloor>rnd (of_int n * rnd q)\<rfloor> \<and>
    0 \<le> percentile_index rnd n q \<and> percentile_index rnd n q < n"
proof -
  have rq: "q * (1 - 1 / 2 ^ 53) \<le> rnd q" "rnd q \<le> q * (1 + 1 / 2 ^ 53)"
    using ieee_pos [OF assms(1), of q] assms(4,5) by simp_all
  have rq2: "1 / 4 \<le> rnd q" "rnd q \<le> 99 / 100 * (1 + 1 / 2 ^ 53)" using rq assms(4,5) by simp_all
  have rn: "rnd (of_int n) = of_int n" using assms(1-3) by (simp add: ieee_def)
  let ?n = "of_int n :: rat"
  let ?y = "?n * rnd q"
  have n1: "1 \<le> ?n" "?n \<le> 2 ^ 53" using assms(2,3) by (simp_all flip: of_int_le_iff)
  have y1: "1 / 4 \<le> ?y" using mult_mono [of 1 ?n "1 / 4" "rnd q"] n1 rq2(1) by simp
  have y2: "?y \<le> ?n * (99 / 100 * (1 + 1 / 2 ^ 53))" using rq2(2) n1 by (intro mult_left_mono) simp_all
  have "rnd q \<le> 2" using rq2(2) by simp
  then have "?y \<le> 2 ^ 53 * 2" using n1 rq2(1) by (intro mult_mono) simp_all
  then have y3: "?y \<le> 2 ^ 60" by simp
  from ieee_pos [OF assms(1) y1 y3] have ry: "0 \<le> rnd ?y" "rnd ?y \<le> ?y * (1 + 1 / 2 ^ 53)"
    using y1 by (auto intro: order_trans [rotated])
  note ry(2)
  also have "?y * (1 + 1 / 2 ^ 53) \<le> ?n * (99 / 100 * (1 + 1 / 2 ^ 53)) * (1 + 1 / 2 ^ 53)"
    by (rule mult_right_mono [OF y2]) simp
  also have "\<dots> < ?n" using n1 by simp
  finally have "rnd ?y < ?n" .
  then have "\<lfloor>rnd ?y\<rfloor> < n" by (simp add: floor_less_iff)
  moreover have "0 \<le> \<lfloor>rnd ?y\<rfloor>" using ry(1) by simp
  ultimately show ?thesis
    using ry(1) \<open>rnd ?y < ?n\<close> n1(2) by (simp add: percentile_index_def rn float_to_int_def Let_def)
qed

lemma percentile_index_mono:
  assumes "ieee rnd" and "1 \<le> n" and "n \<le> 2 ^ 53" and "1 / 2 \<le> q" and "q \<le> r" and "r \<le> 99 / 100"
  shows "percentile_index rnd n q \<le> percentile_index rnd n r"
proof -
  have m: "mono rnd" using assms(1) by (simp add: ieee_def)
  have "of_int n * rnd q \<le> of_int n * rnd r"
    using monoD [OF m assms(5)] assms(2) by (intro mult_left_mono) simp_all
  then have "\<lfloor>rnd (of_int n * rnd q)\<rfloor> \<le> \<lfloor>rnd (of_int n * rnd r)\<rfloor>" by (intro floor_mono monoD [OF m])
  then show ?thesis
    using percentile_index_bounds [OF assms(1-3), of q] percentile_index_bounds [OF assms(1-3), of r] assms(4-6)
    by simp
qed

lemma mset_rotate_list: "mset (rotate n xs) = mset xs"
proof -
  have "mset (rotate n xs) = mset (take (n mod length xs) xs @ drop (n mod length xs) xs)"
    by (simp only: rotate_drop_take mset_append union_commute)
  then show ?thesis by (simp only: append_take_drop_id)
qed

lemma mset_prefix: "tr_inv c lt \<Longrightarrow> mset (map (\<lambda>i. latencies lt ! i) [0..<nat (size lt)]) = mset (tr_list lt)"
proof -
  assume inv: "tr_inv c lt"
  then have "nat (size lt) \<le> length (latencies lt)" by (auto simp: tr_inv_def)
  then have "map (\<lambda>i. latencies lt ! i) [0..<nat (size lt)] = take (nat (size lt)) (latencies lt)"
    by (intro nth_equalityI) simp_all
  then show ?thesis using inv by (auto simp: tr_list_def tr_inv_def mset_rotate_list)
qed

text \<open>C35: latency percentiles. For any values recorded in a tracker of a capacity up to \<open>2 ^ 53\<close>, with
  any rounding that behaves like IEEE 754 doubles, the computed indices are never out of range; the
  percentiles are ordered, each of them is one of the last \<open>capacity\<close> values, and \<open>max_ms\<close> is their
  maximum.\<close>

theorem latency_percentiles:
  assumes "ieee rnd" and "0 < c" and "int c \<le> 2 ^ 53" and "xs \<noteq> []"
  shows "\<exists>d. GetDistribution rnd (fold LatencyTracker_Record xs (NewLatencyTracker (int c))) = Some d \<and>
    p50_ms d \<le> p95_ms d \<and> p95_ms d \<le> p99_ms d \<and> p99_ms d \<le> max_ms d \<and>
    {p50_ms d, p95_ms d, p99_ms d} \<subseteq> set (last_n c xs) \<and> max_ms d = Max (set (last_n c xs))"
proof -
  let ?lt = "fold LatencyTracker_Record xs (NewLatencyTracker (int c))"
  have new: "tr_inv c (NewLatencyTracker (int c))" "tr_list (NewLatencyTracker (int c)) = []"
    using tr_inv_new [OF assms(2)] by simp_all
  have inv: "tr_inv c ?lt" by (rule latency.inv_puts [OF new(1)])
  have l: "tr_list ?lt = last_n c xs" by (rule latency.contents_puts_empty [OF new])
  let ?n = "size ?lt"
  let ?s = "sort (map (\<lambda>i. latencies ?lt ! i) [0..<nat ?n])"
  have ms: "mset ?s = mset (last_n c xs)" using mset_prefix [OF inv] l by simp
  then have set: "set ?s = set (last_n c xs)" by (metis set_mset_mset)
  have ne: "last_n c xs \<noteq> []" using last_n_nonempty [OF assms(2,4)] by simp
  have len: "int (length ?s) = ?n" "1 \<le> ?n" "?n \<le> 2 ^ 53"
  proof -
    obtain n where n: "?n = int n" "length (latencies ?lt) = c" "n \<le> c" using inv by (auto simp: tr_inv_def)
    then have "n = length (last_n c xs)" using tr_list_length [OF inv] l by simp
    then have "1 \<le> n" using ne by (cases "last_n c xs") simp_all
    then show "int (length ?s) = ?n" "1 \<le> ?n" "?n \<le> 2 ^ 53" using n assms(3) by simp_all
  qed
  let ?p = "\<lambda>q. percentile_index rnd ?n q"
  have b: "0 \<le> ?p (50/100) \<and> ?p (50/100) \<le> ?p (95/100) \<and> ?p (95/100) \<le> ?p (99/100) \<and> ?p (99/100) < ?n"
  proof (intro conjI)
    note bnd = percentile_index_bounds [OF assms(1) len(2,3)]
    note mon = percentile_index_mono [OF assms(1) len(2,3)]
    have q: "(1/2 :: rat) \<le> 50/100" "(50/100 :: rat) \<le> 95/100" "(1/2 :: rat) \<le> 95/100"
      "(95/100 :: rat) \<le> 99/100" "(50/100 :: rat) \<le> 99/100" "(99/100 :: rat) \<le> 99/100" "(1/2 :: rat) \<le> 99/100"
      by simp_all
    show "0 \<le> ?p (50/100)" using bnd [OF q(1,5)] by blast
    show "?p (50/100) \<le> ?p (95/100)" by (rule mon [OF q(1,2,4)])
    show "?p (95/100) \<le> ?p (99/100)" by (rule mon [OF q(3,4,6)])
    show "?p (99/100) < ?n" using bnd [OF q(7,6)] by blast
  qed
  let ?d = "\<lparr>p50_ms = ?s ! nat (?p (50/100)), p95_ms = ?s ! nat (?p (95/100)),
    p99_ms = ?s ! nat (?p (99/100)), max_ms = ?s ! nat (?n - 1)\<rparr>"
  have "GetDistribution rnd ?lt = Some ?d"
    using b len by (simp add: GetDistribution_def Let_def at_index_def)
  moreover have "?s ! nat i \<le> ?s ! nat j" if "0 \<le> i" "i \<le> j" "j < ?n" for i j
    using that len by (intro sorted_nth_mono) auto
  moreover have "?s ! nat i \<in> set (last_n c xs)" if "0 \<le> i" "i < ?n" for i
    using that len set by (metis nat_less_iff nth_mem nat_int)
  moreover have "?s ! nat (?n - 1) = Max (set (last_n c xs))"
  proof (rule Max_eqI [symmetric])
    show "?s ! nat (?n - 1) \<in> set (last_n c xs)" using \<open>\<And>i. 0 \<le> i \<Longrightarrow> i < ?n \<Longrightarrow> ?s ! nat i \<in> set (last_n c xs)\<close> len(2) by simp
    fix y assume "y \<in> set (last_n c xs)"
    then obtain i where "i < length ?s" "?s ! i = y" using set by (metis in_set_conv_nth)
    moreover have "i \<le> nat (?n - 1)" "nat (?n - 1) < length ?s" using calculation len by linarith+
    ultimately show "y \<le> ?s ! nat (?n - 1)" using sorted_nth_mono [OF sorted_sort] by metis
  qed simp
  ultimately show ?thesis using b by (intro exI [of _ ?d]) simp
qed

theorem latency_percentiles_witness:
  "\<exists>d. GetDistribution (\<lambda>x. x) (fold LatencyTracker_Record [5, 1, 2, 9] (NewLatencyTracker 3)) = Some d \<and>
     max_ms d = 9"
  using latency_percentiles [OF ieee_id, of 3 "[5, 1, 2, 9]"] by (auto simp: last_n_def)

end
