(* ===== verification/Ring_Buffer.thy ===== *)
theory Ring_Buffer
  imports Prelude
begin

text \<open>
  The ring buffer of \<^verbatim>\<open>internal/reorg/engine.go\<close>: a fixed array of ten block pointers (nil is
  \<open>None\<close>), the slot written next and the number of blocks held. Its abstract value is the list of
  pointers from the oldest to the newest. \<open>Add\<close> is a bounded log; \<open>Truncate\<close> is a prefix only
  while the array has not wrapped around, which the last section makes precise.
\<close>

definition MaxReorgDepth :: int where
  "MaxReorgDepth = 10"

record 'p ring_buffer =
  rb_blocks :: "'p option list"
  rb_index :: int
  rb_size :: int

definition NewRingBuffer :: "'p ring_buffer" where
  "NewRingBuffer = \<lparr>rb_blocks = replicate (nat MaxReorgDepth) None, rb_index = 0, rb_size = 0\<rparr>"

definition Add :: "'p option \<Rightarrow> 'p ring_buffer \<Rightarrow> 'p ring_buffer" where
  "Add blk rb =
     rb\<lparr>rb_blocks := (rb_blocks rb)[nat (rb_index rb) := blk],
        rb_index := go_rem (rb_index rb + 1) MaxReorgDepth,
        rb_size := (if rb_size rb < MaxReorgDepth then rb_size rb + 1 else rb_size rb)\<rparr>"

definition Get :: "int \<Rightarrow> 'p ring_buffer \<Rightarrow> 'p option" where
  "Get idx rb =
     (if idx < 0 \<or> idx \<ge> rb_size rb then None
      else let actualIdx = go_rem (rb_index rb - rb_size rb + idx + MaxReorgDepth) MaxReorgDepth
           in rb_blocks rb ! nat actualIdx)"

definition Latest :: "'p ring_buffer \<Rightarrow> 'p option" where
  "Latest rb = (if rb_size rb = 0 then None else Get (rb_size rb - 1) rb)"

definition Size :: "'p ring_buffer \<Rightarrow> int" where
  "Size rb = rb_size rb"

definition Truncate :: "int \<Rightarrow> 'p ring_buffer \<Rightarrow> 'p ring_buffer" where
  "Truncate keepSize rb =
     (let k1 = (if keepSize < 0 then 0 else keepSize);
          k2 = (if k1 > rb_size rb then rb_size rb else k1)
      in rb\<lparr>rb_size := k2, rb_index := go_rem k2 MaxReorgDepth\<rparr>)"

section \<open>The buffer as a list\<close>

definition rb_inv :: "'p ring_buffer \<Rightarrow> bool" where
  "rb_inv rb \<longleftrightarrow> length (rb_blocks rb) = 10 \<and> 0 \<le> rb_size rb \<and> rb_size rb \<le> 10 \<and>
     0 \<le> rb_index rb \<and> rb_index rb < 10 \<and> (rb_size rb < 10 \<longrightarrow> rb_index rb = rb_size rb)"

definition rb_list :: "'p ring_buffer \<Rightarrow> 'p option list" where
  "rb_list rb = map (\<lambda>i. Get (int i) rb) [0..<nat (rb_size rb)]"

lemma rb_inv_New [simp]: "rb_inv NewRingBuffer"
  by (simp add: rb_inv_def NewRingBuffer_def MaxReorgDepth_def)

lemma rb_list_New [simp]: "rb_list NewRingBuffer = []"
  by (simp add: rb_list_def NewRingBuffer_def)

lemma length_rb_list [simp]: "length (rb_list rb) = nat (rb_size rb)"
  by (simp add: rb_list_def)

lemma length_size: "rb_inv rb \<Longrightarrow> rb_size rb = int (length (rb_list rb))"
  by (simp add: rb_inv_def)

lemma Get_slot:
  assumes "rb_inv rb" and "0 \<le> i" and "i < rb_size rb"
  shows "Get i rb = rb_blocks rb ! nat ((rb_index rb - rb_size rb + i) mod 10)"
proof -
  have "(rb_index rb - rb_size rb + i + 10) mod 10 = (rb_index rb - rb_size rb + i) mod 10"
    by simp
  then show ?thesis
    using assms by (simp add: Get_def Let_def MaxReorgDepth_def rb_inv_def)
qed

lemma rb_inv_Add: "rb_inv rb \<Longrightarrow> rb_inv (Add b rb)"
  by (auto simp: rb_inv_def Add_def MaxReorgDepth_def)

lemma rb_inv_Truncate: "rb_inv rb \<Longrightarrow> rb_inv (Truncate k rb)"
  by (auto simp: rb_inv_def Truncate_def MaxReorgDepth_def Let_def)

lemma ring_arith1: "((s::int) mod 10 - s + i) mod 10 = i mod 10"
proof -
  have "s mod 10 - s + i = i + 10 * (- (s div 10))" using mult_div_mod_eq [of 10 s] by linarith
  then show ?thesis by (simp only: mod_mult_self2)
qed

lemma ring_arith2: "((a + 1) mod 10 - 10 + i) mod 10 = (a + 1 + i) mod (10::int)"
proof -
  have "((a + 1) mod 10 + (i - 10)) mod 10 = (a + 1 + (i - 10)) mod 10" by (rule mod_add_left_eq)
  also have "a + 1 + (i - 10) = (a + 1 + i) + 10 * (-1)" by simp
  also have "\<dots> mod 10 = (a + 1 + i) mod 10" by (rule mod_mult_self2)
  finally show ?thesis by (simp add: algebra_simps)
qed

lemma ring_arith3: "0 \<le> a \<Longrightarrow> a < 10 \<Longrightarrow> (a + 1 + 9) mod 10 = (a::int)"
  by simp

lemma ring_arith4:
  "0 \<le> i \<Longrightarrow> i < 9 \<Longrightarrow> (a + 1 + i) mod 10 \<noteq> (a::int)"
proof
  assume i: "0 \<le> i" "i < 9" and "(a + 1 + i) mod 10 = a"
  then have "1 + i = 10 * ((a + 1 + i) div 10)" using mult_div_mod_eq [of 10 "a + 1 + i"] by linarith
  then have "(1 + i) mod 10 = 0" by simp
  moreover have "(1 + i) mod 10 = 1 + i" using i by simp
  ultimately show False using i by simp
qed

lemma ring_arith5: "(a - 10 + (i + 1)) mod 10 = (a + 1 + i) mod (10::int)"
proof -
  have "a - 10 + (i + 1) = (a + 1 + i) + 10 * (-1)" by simp
  then show ?thesis by (simp only: mod_mult_self2)
qed

lemma Get_Add_growing:
  assumes "rb_inv rb" and "rb_size rb < 10" and "0 \<le> i" and "i \<le> rb_size rb"
  shows "Get i (Add b rb) = (if i = rb_size rb then b else Get i rb)"
proof -
  have idx: "rb_index rb = rb_size rb" using assms(1,2) by (simp add: rb_inv_def)
  have m: "((rb_size rb + 1) mod 10 - (rb_size rb + 1) + i) mod 10 = i"
    using assms ring_arith1 [of "rb_size rb + 1" i] by (simp add: rb_inv_def)
  have "Get i (Add b rb) = rb_blocks (Add b rb) ! nat i"
    using Get_slot [OF rb_inv_Add [OF assms(1)], of i b] assms idx m
    by (simp add: Add_def MaxReorgDepth_def rb_inv_def)
  also have "\<dots> = (if i = rb_size rb then b else Get i rb)"
    using Get_slot [OF assms(1,3)] assms idx
    by (auto simp: Add_def rb_inv_def nth_list_update)
  finally show ?thesis .
qed

lemma Get_Add_full:
  assumes "rb_inv rb" and "rb_size rb = 10" and "0 \<le> i" and "i < 10"
  shows "Get i (Add b rb) = (if i = 9 then b else Get (i + 1) rb)"
proof -
  have rng: "0 \<le> rb_index rb" "rb_index rb < 10" "length (rb_blocks rb) = 10"
    using assms(1) by (simp_all add: rb_inv_def)
  have len: "rb_size (Add b rb) = 10" "rb_index (Add b rb) = (rb_index rb + 1) mod 10"
    "rb_blocks (Add b rb) = (rb_blocks rb)[nat (rb_index rb) := b]"
    using assms(2) rng by (simp_all add: Add_def MaxReorgDepth_def)
  have g: "Get i (Add b rb) =
      (rb_blocks rb)[nat (rb_index rb) := b] ! nat ((rb_index rb + 1 + i) mod 10)"
    using Get_slot [OF rb_inv_Add [OF assms(1)], of i b] assms(3,4)
    by (simp only: len ring_arith2)
  show ?thesis
  proof (cases "i = 9")
    case True
    with g rng show ?thesis by (simp only: ring_arith3 [OF rng(1,2)]) simp
  next
    case False
    with assms(3,4) have "(rb_index rb + 1 + i) mod 10 \<noteq> rb_index rb"
      by (intro ring_arith4) simp_all
    moreover have "0 \<le> (rb_index rb + 1 + i) mod 10" by simp
    ultimately have "nat (rb_index rb) \<noteq> nat ((rb_index rb + 1 + i) mod 10)"
      using rng(1) by (simp only: eq_nat_nat_iff)
    with g have "Get i (Add b rb) = rb_blocks rb ! nat ((rb_index rb + 1 + i) mod 10)"
      by (simp only: nth_list_update_neq [of "nat (rb_index rb)"] not_False_eq_True)
    also have "\<dots> = Get (i + 1) rb"
      using Get_slot [OF assms(1), of "i + 1"] assms False by (simp only: ring_arith5)
    finally show ?thesis using False by simp
  qed
qed

lemma rb_list_Add:
  assumes "rb_inv rb"
  shows "rb_list (Add b rb) = last_n 10 (rb_list rb @ [b])"
proof (cases "rb_size rb < 10")
  case True
  have s: "rb_size (Add b rb) = rb_size rb + 1" using True by (simp add: Add_def MaxReorgDepth_def)
  have nn: "0 \<le> rb_size rb" using assms by (simp add: rb_inv_def)
  have "rb_list (Add b rb) = rb_list rb @ [b]"
  proof (rule nth_equalityI)
    fix i assume "i < length (rb_list (Add b rb))"
    then have "int i \<le> rb_size rb" using s nn by simp
    then show "rb_list (Add b rb) ! i = (rb_list rb @ [b]) ! i"
      using Get_Add_growing [OF assms True, of "int i" b] s nn
      by (auto simp: rb_list_def nth_append simp del: upt_Suc)
  qed (use s nn in simp)
  then show ?thesis using True nn by (simp add: last_n_short)
next
  case False
  then have full: "rb_size rb = 10" using assms by (simp add: rb_inv_def)
  then have s: "rb_size (Add b rb) = 10" by (simp add: Add_def MaxReorgDepth_def)
  have "last_n 10 (rb_list rb @ [b]) = tl (rb_list rb) @ [b]"
    using full by (cases "rb_list rb") (auto simp: last_n_def dest: arg_cong [of _ _ length])
  moreover have "rb_list (Add b rb) = tl (rb_list rb) @ [b]"
  proof (rule nth_equalityI)
    fix i assume "i < length (rb_list (Add b rb))"
    then have i: "i < 10" using s by simp
    then show "rb_list (Add b rb) ! i = (tl (rb_list rb) @ [b]) ! i"
      using Get_Add_full [OF assms full, of "int i" b] s full
      by (auto simp: rb_list_def nth_append nth_tl add.commute simp del: upt_Suc)
  qed (use s full in simp)
  ultimately show ?thesis by simp
qed

interpretation ring: bounded_log Add rb_list 10 rb_inv
  by unfold_locales (simp_all add: rb_inv_Add rb_list_Add, auto simp: rb_inv_def)

lemma Get_rb_list: "0 \<le> i \<Longrightarrow> i < rb_size rb \<Longrightarrow> Get i rb = rb_list rb ! nat i"
  by (simp add: rb_list_def)

lemma Latest_rb_list:
  "rb_inv rb \<Longrightarrow> Latest rb = (if rb_list rb = [] then None else last (rb_list rb))"
  by (auto simp: Latest_def rb_inv_def Get_rb_list last_conv_nth nat_diff_distrib
      simp flip: length_0_conv)

text \<open>The ring buffer holds the last ten blocks. After adding any sequence of blocks to a new
  buffer, its contents from oldest to newest are the last ten of them, \<open>Latest\<close> is the newest,
  \<open>Size\<close> the number held, and \<open>Get\<close> counts from the oldest and returns nil out of range.\<close>

theorem ring_buffer_contents:
  "let rb = fold Add xs NewRingBuffer in
     rb_list rb = last_n 10 xs \<and> Latest rb = (if xs = [] then None else last xs) \<and>
     Size rb = int (min 10 (length xs)) \<and>
     Get i rb = (if 0 \<le> i \<and> i < Size rb then last_n 10 xs ! nat i else None)"
proof -
  let ?rb = "fold Add xs NewRingBuffer"
  have inv: "rb_inv ?rb" by (rule ring.inv_puts) simp
  have l: "rb_list ?rb = last_n 10 xs" by (simp add: ring.contents_puts_empty)
  have s: "Size ?rb = int (min 10 (length xs))"
    using length_size [OF inv] l by (simp add: Size_def)
  have "Latest ?rb = (if xs = [] then None else last xs)"
    using Latest_rb_list [OF inv] l last_n_nonempty [of 10 xs] by (cases "xs = []") simp_all
  moreover have "Get i ?rb = (if 0 \<le> i \<and> i < Size ?rb then last_n 10 xs ! nat i else None)"
    using Get_rb_list [of i ?rb] l by (auto simp: Size_def Get_def)
  ultimately show ?thesis using l s by (simp add: Let_def)
qed

section \<open>Truncation\<close>

lemma rb_list_Truncate:
  assumes "rb_inv rb"
  shows "rb_list (Truncate k rb) = take (nat (min k (rb_size rb))) (rb_blocks rb)"
proof (rule nth_equalityI)
  have s: "rb_size (Truncate k rb) = (if k < 0 then 0 else min k (rb_size rb))"
    using assms by (simp add: Truncate_def Let_def rb_inv_def)
  show "length (rb_list (Truncate k rb)) = length (take (nat (min k (rb_size rb))) (rb_blocks rb))"
    using assms s by (auto simp: rb_inv_def min_def)
  fix i assume i: "i < length (rb_list (Truncate k rb))"
  let ?s = "rb_size (Truncate k rb)"
  have "(?s mod 10 - ?s + int i) mod 10 = int i mod 10" by (rule ring_arith1)
  moreover have "rb_index (Truncate k rb) = ?s mod 10" "rb_blocks (Truncate k rb) = rb_blocks rb"
    using assms by (auto simp: Truncate_def Let_def MaxReorgDepth_def rb_inv_def)
  moreover from i have "int i < ?s" by simp
  moreover from this have "int i < 10" using rb_inv_Truncate [OF assms, of k] by (simp add: rb_inv_def)
  ultimately show "rb_list (Truncate k rb) ! i = take (nat (min k (rb_size rb))) (rb_blocks rb) ! i"
    using i s Get_slot [OF rb_inv_Truncate [OF assms, of k], of "int i"]
    by (auto simp: rb_list_def split: if_splits)
qed

lemma rb_index_adds: "rb_index (fold Add xs NewRingBuffer) = int (length xs) mod 10"
proof (induction xs rule: rev_induct)
  case Nil
  then show ?case by (simp add: NewRingBuffer_def)
next
  case (snoc x xs)
  then show ?case by (simp add: Add_def MaxReorgDepth_def mod_simps add.commute)
qed

text \<open>A full buffer lists every slot once.\<close>

lemma rb_list_full_set:
  assumes "rb_inv rb" and "rb_size rb = 10"
  shows "set (rb_list rb) = set (rb_blocks rb)"
proof -
  have len: "length (rb_blocks rb) = 10" using assms(1) by (simp add: rb_inv_def)
  have slot: "Get i rb = rb_blocks rb ! nat ((rb_index rb - 10 + i) mod 10)" if "0 \<le> i" "i < 10" for i
    using Get_slot [OF assms(1) that(1)] that(2) assms(2) by simp
  have "x \<in> set (rb_list rb)" if "x \<in> set (rb_blocks rb)" for x
  proof -
    from that len obtain j where j: "j < 10" "x = rb_blocks rb ! j" by (auto simp: in_set_conv_nth)
    let ?i = "(int j - rb_index rb) mod 10"
    have "(rb_index rb - 10 + ?i) mod 10 = (rb_index rb - 10 + (int j - rb_index rb)) mod 10"
      by (rule mod_add_right_eq)
    also have "rb_index rb - 10 + (int j - rb_index rb) = int j + 10 * (-1)" by simp
    also have "\<dots> mod 10 = int j mod 10" by (rule mod_mult_self2)
    also have "\<dots> = int j" using j(1) by simp
    finally have "Get ?i rb = x" using slot [of ?i] j by simp
    moreover have "nat ?i < 10" by (simp add: nat_less_iff)
    ultimately show ?thesis using Get_rb_list [of ?i rb] assms(2)
      by (metis length_rb_list nat_numeral nth_mem pos_mod_bound pos_mod_sign zero_less_numeral)
  qed
  moreover have "x \<in> set (rb_blocks rb)" if "x \<in> set (rb_list rb)" for x
  proof -
    from that obtain i where "i < 10" "x = Get (int i) rb" using assms(2) by (auto simp: rb_list_def)
    then have "x = rb_blocks rb ! nat ((rb_index rb - 10 + int i) mod 10)" using slot by simp
    moreover have "nat ((rb_index rb - 10 + int i) mod 10) < 10" by (simp add: nat_less_iff)
    ultimately show ?thesis using len by (metis nth_mem)
  qed
  ultimately show ?thesis by blast
qed

text \<open>While nothing was overwritten, slots are in order and truncation keeps a prefix.\<close>

lemma rb_list_aligned:
  assumes "rb_inv rb" and "rb_index rb = rb_size rb mod 10"
  shows "rb_list rb = take (nat (rb_size rb)) (rb_blocks rb)"
proof (rule nth_equalityI)
  fix i assume "i < length (rb_list rb)"
  then have i: "int i < rb_size rb" by simp
  then have "int i < 10" using assms(1) by (simp add: rb_inv_def)
  then have "(rb_index rb - rb_size rb + int i) mod 10 = int i"
    unfolding assms(2) by (simp only: ring_arith1) simp
  with i have "Get (int i) rb = rb_blocks rb ! i" using Get_slot [OF assms(1), of "int i"] by simp
  moreover from i have "i < nat (rb_size rb)" by simp
  ultimately show "rb_list rb ! i = take (nat (rb_size rb)) (rb_blocks rb) ! i"
    by (simp add: rb_list_def)
qed (use assms(1) in \<open>auto simp: rb_inv_def min_def\<close>)

lemma Truncate_aligned:
  assumes "rb_inv rb" and "rb_index rb = rb_size rb mod 10"
  shows "rb_list (Truncate k rb) = take (nat k) (rb_list rb) \<and>
         rb_index (Truncate k rb) = rb_size (Truncate k rb) mod 10"
  using assms rb_list_aligned [OF assms] rb_list_Truncate [OF assms(1), of k]
  by (auto simp: Truncate_def Let_def MaxReorgDepth_def rb_inv_def min_def nat_le_iff)

lemma Add_aligned:
  assumes "rb_inv rb" and "rb_index rb = rb_size rb mod 10" and "rb_size rb < 10"
  shows "rb_index (Add b rb) = rb_size (Add b rb) mod 10"
  using assms by (simp add: Add_def MaxReorgDepth_def rb_inv_def)

text \<open>Truncation is right only before the buffer wraps. If at most ten blocks were added,
  \<open>Truncate(k)\<close> keeps exactly the first \<open>k\<close> of them. If \<open>n\<close> blocks were added and \<open>n\<close> is above 10,
  truncating to ten or more blocks should change nothing, but it makes the buffer report the
  block that is \<open>n mod 10\<close> places older than the newest as the latest one.\<close>

theorem Truncate_after_adds:
  "(length xs \<le> 10 \<longrightarrow> rb_list (Truncate k (fold Add xs NewRingBuffer)) = take (nat k) xs) \<and>
   (length xs \<ge> 10 \<longrightarrow> k \<ge> 10 \<longrightarrow>
      Latest (Truncate k (fold Add xs NewRingBuffer)) = xs ! (length xs - 1 - length xs mod 10))"
proof (intro conjI impI)
  let ?rb = "fold Add xs NewRingBuffer"
  have inv: "rb_inv ?rb" by (rule ring.inv_puts) simp
  have l: "rb_list ?rb = last_n 10 xs" by (simp add: ring.contents_puts_empty)
  have s: "rb_size ?rb = int (min 10 (length xs))"
    using length_size [OF inv] l by simp
  {
    assume le: "length xs \<le> 10"
    then have "rb_index ?rb = rb_size ?rb mod 10" using rb_index_adds [of xs] s by simp
    from Truncate_aligned [OF inv this] show "rb_list (Truncate k ?rb) = take (nat k) xs"
      using l le by (simp add: last_n_short)
  }
  assume n: "length xs \<ge> 10" and k: "k \<ge> 10"
  let ?r = "length xs mod 10"
  have r: "?r < 10" "rb_index ?rb = int ?r" by (simp_all add: rb_index_adds zmod_int)
  have tr: "rb_list (Truncate k ?rb) = rb_blocks ?rb"
    using rb_list_Truncate [OF inv, of k] n k s inv by (simp add: rb_inv_def)
  have "rb_blocks ?rb \<noteq> []" "length (rb_blocks ?rb) = 10" using inv by (auto simp: rb_inv_def)
  then have "Latest (Truncate k ?rb) = rb_blocks ?rb ! 9"
    using Latest_rb_list [OF rb_inv_Truncate [OF inv, of k]] tr by (simp add: last_conv_nth)
  also have "(rb_index ?rb - rb_size ?rb + int (9 - ?r)) mod 10 = 9"
    using r n s by simp
  then have "rb_blocks ?rb ! 9 = Get (int (9 - ?r)) ?rb"
    using Get_slot [OF inv, of "int (9 - ?r)"] n s by simp
  also have "\<dots> = last_n 10 xs ! (9 - ?r)"
    using Get_rb_list [of "int (9 - ?r)" ?rb] n s unfolding l nat_int by (simp del: of_nat_diff)
  also have "\<dots> = xs ! (length xs - 1 - ?r)"
    using n r by (simp add: last_n_def)
  finally show "Latest (Truncate k ?rb) = xs ! (length xs - 1 - ?r)" .
qed

theorem Truncate_after_adds_witness:
  "Latest (fold Add (map Some [1..<14]) NewRingBuffer) = Some (13::nat) \<and>
   Latest (Truncate 12 (fold Add (map Some [1..<14]) NewRingBuffer)) = Some (10::nat) \<and>
   rb_list (Truncate 2 (fold Add (map Some [1..<5]) NewRingBuffer)) = [Some (1::nat), Some 2]"
proof -
  have "Latest (Truncate 12 (fold Add (map Some [1..<14]) NewRingBuffer)) = Some (10::nat)"
    using Truncate_after_adds [of "map Some [1..<14]" 12] by simp
  moreover have "rb_list (Truncate 2 (fold Add (map Some [1..<5]) NewRingBuffer)) = [Some (1::nat), Some 2]"
    using Truncate_after_adds [of "map Some [1..<5]" 2] by (simp add: upt_rec take_Cons')
  moreover have "Latest (fold Add (map Some [1..<14]) NewRingBuffer) = Some (13::nat)"
    by (simp add: upt_rec Latest_def Get_def Add_def NewRingBuffer_def MaxReorgDepth_def numeral_eq_Suc)
  ultimately show ?thesis by simp
qed

end
