(* ===== verification/Ffi_Types.thy ===== *)
theory Ffi_Types
  imports Prelude
begin

text \<open>
  The data of \<^verbatim>\<open>internal/ffi/types.go\<close>: addresses, hashes, 256-bit values, transactions and
  blocks, with the conversions between the 256-bit representation and Go's integers, and the
  block hash. Go's fixed-size arrays are byte lists; \<open>wf_block\<close> and its parts say that they
  have the size the Go type fixes, so every Go value satisfies them.
\<close>

type_synonym address = "byte list"
type_synonym hash = "byte list"

datatype u256 = U256 (u256_bytes: "byte list")

record transaction =
  From :: address
  To :: address
  Value :: u256
  Data :: "byte list"

record block =
  Number :: u64
  ParentHash :: hash
  Timestamp :: u64
  Transactions :: "transaction list"

definition wf_u256 :: "u256 \<Rightarrow> bool" where
  "wf_u256 u \<longleftrightarrow> length (u256_bytes u) = 32"

definition wf_transaction :: "transaction \<Rightarrow> bool" where
  "wf_transaction tx \<longleftrightarrow> length (From tx) = 20 \<and> length (To tx) = 20 \<and> wf_u256 (Value tx)"

definition wf_block :: "block \<Rightarrow> bool" where
  "wf_block b \<longleftrightarrow> length (ParentHash b) = 32 \<and> list_all wf_transaction (Transactions b)"

section \<open>256-bit values\<close>

text \<open>The loop of \<open>NewU256FromUint64\<close> stores byte \<open>i\<close> of the value at \<open>bytes[24+i]\<close>.\<close>

definition NewU256FromUint64 :: "u64 \<Rightarrow> u256" where
  "NewU256FromUint64 v =
     U256 (fold (\<lambda>i bs. bs[24 + i := (ucast (drop_bit (56 - i * 8) v) :: byte)]) [0..<8]
             (replicate 32 0))"

text \<open>\<open>big.Int.Bytes\<close>: the absolute value, big-endian, without leading zero bytes.\<close>

fun nat_bytes :: "nat \<Rightarrow> byte list" where
  "nat_bytes n = (if n = 0 then [] else nat_bytes (n div 256) @ [of_nat n])"

declare nat_bytes.simps [simp del]

definition NewU256FromBigInt :: "int \<Rightarrow> u256" where
  "NewU256FromBigInt value =
     (let bytes = nat_bytes (nat \<bar>value\<bar>)
      in if length bytes \<le> 32 then U256 (replicate (32 - length bytes) 0 @ bytes)
         else U256 (replicate 32 0))"

definition Bytes :: "u256 \<Rightarrow> byte list" where
  "Bytes u = u256_bytes u"

definition BigInt :: "u256 \<Rightarrow> int" where
  "BigInt u = int (be_val (u256_bytes u))"

lemma be_val_nat_bytes: "be_val (nat_bytes n) = n"
proof (induction n rule: nat_bytes.induct)
  case (1 n)
  show ?case
  proof (cases "n = 0")
    case True
    then show ?thesis by (subst nat_bytes.simps) simp
  next
    case False
    with 1 have "be_val (nat_bytes (n div 256)) = n div 256" by simp
    with False show ?thesis
      by (subst nat_bytes.simps) (simp add: be_val_append unat_of_nat_byte)
  qed
qed

lemma length_nat_bytes_le: "n < 256 ^ k \<Longrightarrow> length (nat_bytes n) \<le> k"
proof (induction n arbitrary: k rule: nat_bytes.induct)
  case (1 n)
  show ?case
  proof (cases "n = 0")
    case True
    then show ?thesis by (subst nat_bytes.simps) simp
  next
    case False
    with "1.prems" obtain j where k: "k = Suc j" by (cases k) auto
    with "1.prems" have "n div 256 < 256 ^ j" by (simp add: div_less_iff_less_mult mult.commute)
    with False 1 have "length (nat_bytes (n div 256)) \<le> j" by blast
    with False k show ?thesis by (subst nat_bytes.simps) simp
  qed
qed

lemma length_nat_bytes_iff: "length (nat_bytes n) \<le> k \<longleftrightarrow> n < 256 ^ k"
proof
  assume "length (nat_bytes n) \<le> k"
  then have "(256 :: nat) ^ length (nat_bytes n) \<le> 256 ^ k" by (intro power_increasing) auto
  moreover have "n < 256 ^ length (nat_bytes n)"
    using be_val_less [of "nat_bytes n"] by (simp only: be_val_nat_bytes)
  ultimately show "n < 256 ^ k" by (rule less_le_trans [rotated])
qed (rule length_nat_bytes_le)

lemma wf_NewU256FromBigInt [wf_simps]: "wf_u256 (NewU256FromBigInt z)"
  by (simp add: NewU256FromBigInt_def Let_def wf_u256_def)

lemma u64_byte:
  assumes "i < 8"
  shows "(ucast (drop_bit (56 - i * 8) v) :: byte) = of_nat (unat (v :: u64) div 256 ^ (7 - i))"
proof -
  have e: "56 - i * 8 = 8 * (7 - i)" using assms by simp
  have p: "(256 :: nat) ^ (7 - i) = 2 ^ (8 * (7 - i))" by (simp add: power_mult)
  have "unat (ucast (drop_bit (56 - i * 8) v) :: byte) = unat (drop_bit (56 - i * 8) v) mod 256"
    by (simp add: unsigned_ucast_eq unsigned_take_bit_eq take_bit_eq_mod)
  also have "unat (drop_bit (56 - i * 8) v) = unat v div 2 ^ (8 * (7 - i))"
    by (simp add: e unat_drop_bit_eq drop_bit_nat_def)
  finally show ?thesis
    by (simp add: word_unat_eq_iff unat_of_nat_byte p)
qed

lemma NewU256FromUint64_bytes:
  "u256_bytes (NewU256FromUint64 v) = replicate 24 0 @ be_bytes 8 (unat v)"
proof -
  let ?f = "\<lambda>i. (ucast (drop_bit (56 - i * 8) v) :: byte)"
  have "u256_bytes (NewU256FromUint64 v) =
      fold (\<lambda>i bs. bs[length (replicate 24 (0::byte)) + i := ?f i]) [0..<8]
        (replicate 24 0 @ replicate 8 0)"
    by (simp add: NewU256FromUint64_def flip: replicate_add)
  also have "\<dots> = replicate 24 0 @ map ?f [0..<8]"
    by (subst fold_list_update) simp_all
  also have "map ?f [0..<8] = be_bytes 8 (unat v)"
    by (rule nth_equalityI) (simp_all add: u64_byte nth_be_bytes)
  finally show ?thesis .
qed

lemma wf_NewU256FromUint64 [wf_simps]: "wf_u256 (NewU256FromUint64 v)"
  by (simp add: wf_u256_def NewU256FromUint64_bytes)

lemma BigInt_of_int: "BigInt (NewU256FromBigInt z) = (if \<bar>z\<bar> < 2 ^ 256 then \<bar>z\<bar> else 0)"
proof -
  have "length (nat_bytes (nat \<bar>z\<bar>)) \<le> 32 \<longleftrightarrow> nat \<bar>z\<bar> < 2 ^ 256"
    by (simp add: length_nat_bytes_iff)
  also have "\<dots> \<longleftrightarrow> \<bar>z\<bar> < 2 ^ 256" by (subst nat_less_iff) simp_all
  finally show ?thesis
    by (simp add: BigInt_def NewU256FromBigInt_def Let_def be_val_append be_val_nat_bytes)
qed

text \<open>Converting an integer to a 256-bit value and back gives its absolute value when that
  fits in 256 bits, and 0 otherwise: an oversized value is silently replaced by zero.\<close>

theorem BigInt_NewU256FromBigInt:
  "BigInt (NewU256FromBigInt z) = (if \<bar>z\<bar> < 2 ^ 256 then \<bar>z\<bar> else 0)"
  by (rule BigInt_of_int)

section \<open>Block hash\<close>

text \<open>
  \<open>Block.Hash\<close> fills a 48-byte buffer with the number, the parent hash and the timestamp and
  hashes it. The hash primitive is an argument: every theorem below holds for whatever function
  computes the digest.
\<close>

definition hash_buf :: "block \<Rightarrow> byte list" where
  "hash_buf b =
     [ucast (drop_bit 56 (Number b)), ucast (drop_bit 48 (Number b)),
      ucast (drop_bit 40 (Number b)), ucast (drop_bit 32 (Number b)),
      ucast (drop_bit 24 (Number b)), ucast (drop_bit 16 (Number b)),
      ucast (drop_bit 8 (Number b)), ucast (Number b)]
     @ ParentHash b @
     [ucast (drop_bit 56 (Timestamp b)), ucast (drop_bit 48 (Timestamp b)),
      ucast (drop_bit 40 (Timestamp b)), ucast (drop_bit 32 (Timestamp b)),
      ucast (drop_bit 24 (Timestamp b)), ucast (drop_bit 16 (Timestamp b)),
      ucast (drop_bit 8 (Timestamp b)), ucast (Timestamp b)]"

definition block_Hash :: "(byte list \<Rightarrow> hash) \<Rightarrow> block \<Rightarrow> hash" where
  "block_Hash sha256 b = sha256 (hash_buf b)"

lemma u64_buf:
  "[ucast (drop_bit 56 v), ucast (drop_bit 48 v), ucast (drop_bit 40 v), ucast (drop_bit 32 v),
    ucast (drop_bit 24 v), ucast (drop_bit 16 v), ucast (drop_bit 8 v), ucast (v :: u64)]
   = be_bytes 8 (unat v)"
proof -
  have "map (\<lambda>i. (ucast (drop_bit (56 - i * 8) v) :: byte)) [0..<8] = be_bytes 8 (unat v)"
    by (rule nth_equalityI) (simp_all add: u64_byte nth_be_bytes)
  then show ?thesis by (simp add: upt_rec)
qed

lemma hash_buf_be:
  "hash_buf b = be_bytes 8 (unat (Number b)) @ ParentHash b @ be_bytes 8 (unat (Timestamp b))"
  by (simp only: hash_buf_def u64_buf)

lemma length_hash_buf: "wf_block b \<Longrightarrow> length (hash_buf b) = 48"
  by (simp add: hash_buf_be wf_block_def)

lemma be_bytes_u64_inj [simp]: "be_bytes 8 (unat v) = be_bytes 8 (unat w) \<longleftrightarrow> v = (w :: u64)"
proof
  assume "be_bytes 8 (unat v) = be_bytes 8 (unat w)"
  then have "(of_nat (be_val (be_bytes 8 (unat v))) :: u64) = of_nat (be_val (be_bytes 8 (unat w)))"
    by simp
  then show "v = w" by (simp add: be_val_be_bytes_u64)
qed simp

lemma hash_buf_inj:
  "wf_block b \<Longrightarrow> wf_block c \<Longrightarrow> hash_buf b = hash_buf c \<longleftrightarrow>
     Number b = Number c \<and> ParentHash b = ParentHash c \<and> Timestamp b = Timestamp c"
  by (simp add: hash_buf_be wf_block_def)

text \<open>The block hash identifies the block header and nothing else. Two blocks have the same
  hash input exactly when number, parent hash and timestamp agree; the transactions do not enter,
  so two blocks that differ only in their transactions always have the same hash.\<close>

theorem block_Hash_header:
  assumes "wf_block b" and "wf_block c"
  shows "(hash_buf b = hash_buf c \<longleftrightarrow>
            Number b = Number c \<and> ParentHash b = ParentHash c \<and> Timestamp b = Timestamp c)
       \<and> block_Hash sha256 (b\<lparr>Transactions := txs\<rparr>) = block_Hash sha256 b"
  using assms by (simp add: hash_buf_inj block_Hash_def hash_buf_be)

theorem block_Hash_header_witness:
  "let b = \<lparr>Number = 7, ParentHash = replicate 32 0, Timestamp = 9, Transactions = []\<rparr>;
       tx = \<lparr>From = replicate 20 1, To = replicate 20 2, Value = NewU256FromUint64 5, Data = [3]\<rparr>
   in block_Hash rev (b\<lparr>Transactions := [tx]\<rparr>) = block_Hash rev b"
  using block_Hash_header [where b = "\<lparr>Number = 7, ParentHash = replicate 32 0, Timestamp = 9, Transactions = []\<rparr>"
      and c = "\<lparr>Number = 7, ParentHash = replicate 32 0, Timestamp = 9, Transactions = []\<rparr>"]
  by (simp add: wf_block_def Let_def)

end
