(* ===== verification/Serialization.thy ===== *)
theory Serialization
  imports Ffi_Types
begin

text \<open>
  The binary wire format of \<^verbatim>\<open>internal/ffi/serialization.go\<close>. Writing to a
  \<^verbatim>\<open>bytes.Buffer\<close> appends and cannot fail, so the writers pass the buffer along; a
  \<^verbatim>\<open>bytes.Reader\<close> is the list of bytes not read yet. \<open>Reader.Read\<close> fills as much of the
  target as the reader still holds and reports an error only when nothing is left;
  \<open>binary.Read\<close> insists on all bytes. Both are kept apart, since the decoder mixes them.
\<close>

definition SerializationVersion :: byte where
  "SerializationVersion = 1"

definition MaxBlockSize :: nat where
  "MaxBlockSize = 10 * 1024 * 1024"

datatype io_error = EOF | UnexpectedEOF

datatype tx_error =
    ReadFrom io_error
  | ReadTo io_error
  | ReadValue io_error
  | ReadDataLength io_error
  | ReadData io_error

datatype ser_error =
    BlockTooLarge nat
  | DataTooShort nat
  | ReadVersion io_error
  | UnsupportedVersion byte
  | ReadNumber io_error
  | ReadParentHash io_error
  | ReadTimestamp io_error
  | ReadTxCount io_error
  | TxFailed nat tx_error

section \<open>Writing\<close>

definition write_u32 :: "byte list \<Rightarrow> u32 \<Rightarrow> byte list" where
  "write_u32 buf v = buf @ be_bytes 4 (unat v)"

definition write_u64 :: "byte list \<Rightarrow> u64 \<Rightarrow> byte list" where
  "write_u64 buf v = buf @ be_bytes 8 (unat v)"

definition serializeTransaction :: "byte list \<Rightarrow> transaction \<Rightarrow> byte list" where
  "serializeTransaction buf0 tx =
     (let buf1 = buf0 @ From tx;
          buf2 = buf1 @ To tx;
          buf3 = buf2 @ Bytes (Value tx);
          buf4 = write_u32 buf3 (of_nat (length (Data tx)))
      in if length (Data tx) > 0 then buf4 @ Data tx else buf4)"

definition SerializeBlock :: "block \<Rightarrow> ser_error + byte list" where
  "SerializeBlock blk =
     (let buf1 = [SerializationVersion];
          buf2 = write_u64 buf1 (Number blk);
          buf3 = buf2 @ ParentHash blk;
          buf4 = write_u64 buf3 (Timestamp blk);
          buf5 = write_u32 buf4 (of_nat (length (Transactions blk)));
          data = foldl serializeTransaction buf5 (Transactions blk)
      in if length data > MaxBlockSize then Inl (BlockTooLarge (length data)) else Inr data)"

section \<open>Reading\<close>

text \<open>\<open>Reader.Read\<close> into a zeroed array of \<open>n\<close> bytes: the array afterwards and what is left.\<close>

definition reader_read :: "nat \<Rightarrow> byte list \<Rightarrow> io_error + (byte list \<times> byte list)" where
  "reader_read n r =
     (if r = [] then Inl EOF else Inr (take n r @ replicate (n - length r) 0, drop n r))"

text \<open>\<open>io.ReadFull\<close>, which \<open>binary.Read\<close> uses.\<close>

definition read_full :: "nat \<Rightarrow> byte list \<Rightarrow> io_error + (byte list \<times> byte list)" where
  "read_full n r =
     (if n \<le> length r then Inr (take n r, drop n r)
      else if r = [] then Inl EOF else Inl UnexpectedEOF)"

definition read_u32 :: "byte list \<Rightarrow> io_error + (u32 \<times> byte list)" where
  "read_u32 r = (case read_full 4 r of Inl e \<Rightarrow> Inl e | Inr (bs, r') \<Rightarrow> Inr (of_nat (be_val bs), r'))"

definition read_u64 :: "byte list \<Rightarrow> io_error + (u64 \<times> byte list)" where
  "read_u64 r = (case read_full 8 r of Inl e \<Rightarrow> Inl e | Inr (bs, r') \<Rightarrow> Inr (of_nat (be_val bs), r'))"

definition read_byte :: "byte list \<Rightarrow> io_error + (byte \<times> byte list)" where
  "read_byte r = (case r of [] \<Rightarrow> Inl EOF | b # r' \<Rightarrow> Inr (b, r'))"

definition deserializeTransaction :: "byte list \<Rightarrow> tx_error + (transaction \<times> byte list)" where
  "deserializeTransaction r0 =
     (case reader_read 20 r0 of Inl e \<Rightarrow> Inl (ReadFrom e) | Inr (from, r1) \<Rightarrow>
     (case reader_read 20 r1 of Inl e \<Rightarrow> Inl (ReadTo e) | Inr (to, r2) \<Rightarrow>
     (case reader_read 32 r2 of Inl e \<Rightarrow> Inl (ReadValue e) | Inr (valueBytes, r3) \<Rightarrow>
     (case read_u32 r3 of Inl e \<Rightarrow> Inl (ReadDataLength e) | Inr (dataLen, r4) \<Rightarrow>
       if dataLen > 0 then
         (case reader_read (unat dataLen) r4 of Inl e \<Rightarrow> Inl (ReadData e) | Inr (data, r5) \<Rightarrow>
            Inr (\<lparr>From = from, To = to, Value = U256 valueBytes, Data = data\<rparr>, r5))
       else Inr (\<lparr>From = from, To = to, Value = U256 valueBytes, Data = []\<rparr>, r4)))))"

text \<open>The loop over \<open>i < txCount\<close>; \<open>n\<close> transactions are still to be read.\<close>

fun deserialize_txs :: "nat \<Rightarrow> nat \<Rightarrow> byte list \<Rightarrow> ser_error + (transaction list \<times> byte list)" where
  "deserialize_txs i 0 r = Inr ([], r)"
| "deserialize_txs i (Suc n) r =
     (case deserializeTransaction r of Inl e \<Rightarrow> Inl (TxFailed i e) | Inr (tx, r') \<Rightarrow>
     (case deserialize_txs (Suc i) n r' of Inl e \<Rightarrow> Inl e | Inr (txs, r'') \<Rightarrow> Inr (tx # txs, r'')))"

definition DeserializeBlock :: "byte list \<Rightarrow> ser_error + block" where
  "DeserializeBlock data =
     (if length data < 53 then Inl (DataTooShort (length data)) else
     (case read_byte data of Inl e \<Rightarrow> Inl (ReadVersion e) | Inr (version, r1) \<Rightarrow>
      if version \<noteq> SerializationVersion then Inl (UnsupportedVersion version) else
     (case read_u64 r1 of Inl e \<Rightarrow> Inl (ReadNumber e) | Inr (blockNumber, r2) \<Rightarrow>
     (case reader_read 32 r2 of Inl e \<Rightarrow> Inl (ReadParentHash e) | Inr (parentHash, r3) \<Rightarrow>
     (case read_u64 r3 of Inl e \<Rightarrow> Inl (ReadTimestamp e) | Inr (timestamp, r4) \<Rightarrow>
     (case read_u32 r4 of Inl e \<Rightarrow> Inl (ReadTxCount e) | Inr (txCount, r5) \<Rightarrow>
     (case deserialize_txs 0 (unat txCount) r5 of Inl e \<Rightarrow> Inl e | Inr (txs, _) \<Rightarrow>
        Inr \<lparr>Number = blockNumber, ParentHash = parentHash, Timestamp = timestamp,
             Transactions = txs\<rparr>)))))))"

section \<open>The stream codec interface\<close>

text \<open>
  A stream codec decodes a prefix of the input back to the element whose code it is and returns
  the rest; a counted loop over the decoder then reads back a concatenation of codes. Both the Go
  and the Rust transaction decoders provide this interface, with a loop of their own.
\<close>

locale stream_codec =
  fixes enc :: "'a \<Rightarrow> byte list"
    and dec :: "byte list \<Rightarrow> 'e + ('a \<times> byte list)"
    and ok :: "'a \<Rightarrow> bool"
    and dec_many :: "nat \<Rightarrow> nat \<Rightarrow> byte list \<Rightarrow> 'f + ('a list \<times> byte list)"
  assumes dec_enc: "ok x \<Longrightarrow> dec (enc x @ rest) = Inr (x, rest)"
    and dec_many_0: "dec_many i 0 r = Inr ([], r)"
    and dec_many_Suc: "dec r = Inr (x, r') \<Longrightarrow> dec_many i (Suc n) r =
      (case dec_many (Suc i) n r' of Inl e \<Rightarrow> Inl e | Inr (xs, r'') \<Rightarrow> Inr (x # xs, r''))"
begin

lemma dec_many_append:
  "list_all ok xs \<Longrightarrow> dec_many (i + length xs) n rest = Inr (ys, r') \<Longrightarrow>
     dec_many i (length xs + n) (concat (map enc xs) @ rest) = Inr (xs @ ys, r')"
proof (induction xs arbitrary: i)
  case Nil
  then show ?case by simp
next
  case (Cons x xs)
  from Cons.prems have "dec_many (Suc i) (length xs + n) (concat (map enc xs) @ rest) = Inr (xs @ ys, r')"
    by (intro Cons.IH) auto
  moreover from Cons.prems have
    "dec (enc x @ concat (map enc xs) @ rest) = Inr (x, concat (map enc xs) @ rest)"
    by (simp add: dec_enc)
  ultimately show ?case
    by (simp add: dec_many_Suc)
qed

lemma dec_many_enc:
  "list_all ok xs \<Longrightarrow> dec_many i (length xs) (concat (map enc xs) @ rest) = Inr (xs, rest)"
  using dec_many_append [of xs i 0 rest "[]" rest] by (simp add: dec_many_0)

end

section \<open>Facts about readers and writers\<close>

definition encode_tx :: "transaction \<Rightarrow> byte list" where
  "encode_tx tx = From tx @ To tx @ u256_bytes (Value tx) @
     be_bytes 4 (unat (of_nat (length (Data tx)) :: u32)) @ Data tx"

definition encodable_tx :: "transaction \<Rightarrow> bool" where
  "encodable_tx tx \<longleftrightarrow> wf_transaction tx \<and> length (Data tx) < 2 ^ 32"

definition encode_header :: "block \<Rightarrow> byte list" where
  "encode_header blk = SerializationVersion # be_bytes 8 (unat (Number blk)) @ ParentHash blk @
     be_bytes 8 (unat (Timestamp blk)) @
     be_bytes 4 (unat (of_nat (length (Transactions blk)) :: u32))"

definition encode_block :: "block \<Rightarrow> byte list" where
  "encode_block blk = encode_header blk @ concat (map encode_tx (Transactions blk))"

lemma serializeTransaction_encode: "serializeTransaction buf tx = buf @ encode_tx tx"
  by (simp add: serializeTransaction_def encode_tx_def write_u32_def Bytes_def Let_def)

lemma foldl_serializeTransaction:
  "foldl serializeTransaction buf txs = buf @ concat (map encode_tx txs)"
  by (induction txs arbitrary: buf) (simp_all add: serializeTransaction_encode)

lemma SerializeBlock_encode:
  "SerializeBlock blk =
     (if length (encode_block blk) > MaxBlockSize then Inl (BlockTooLarge (length (encode_block blk)))
      else Inr (encode_block blk))"
  by (simp add: SerializeBlock_def Let_def foldl_serializeTransaction encode_block_def
      encode_header_def write_u64_def write_u32_def)

lemma read_full_append [codec_simps]:
  "length bs = n \<Longrightarrow> read_full n (bs @ rest) = Inr (bs, rest)"
  by (auto simp: read_full_def)

lemma reader_read_append [codec_simps]:
  "length bs = n \<Longrightarrow> 0 < n \<Longrightarrow> reader_read n (bs @ rest) = Inr (bs, rest)"
  by (auto simp: reader_read_def)

lemma read_u32_append [codec_simps]: "read_u32 (be_bytes 4 n @ rest) = Inr (of_nat n, rest)"
  by (simp only: read_u32_def read_full_append length_be_bytes sum.case prod.case be_val_be_bytes_u32)

lemma read_u64_append [codec_simps]: "read_u64 (be_bytes 8 n @ rest) = Inr (of_nat n, rest)"
  by (simp only: read_u64_def read_full_append length_be_bytes sum.case prod.case be_val_be_bytes_u64)

lemma unat_of_nat_u32: "n < 2 ^ 32 \<Longrightarrow> unat (of_nat n :: u32) = n"
  by (simp add: unat_of_nat take_bit_eq_mod)

lemma of_nat_u32_pos: "n < 2 ^ 32 \<Longrightarrow> (0 < (of_nat n :: u32)) = (0 < n)"
  by (simp add: word_less_nat_alt unat_of_nat_u32)

text \<open>Reading a transaction whose data is cut short: the missing bytes read as zero.\<close>

lemma deserializeTransaction_short:
  assumes "encodable_tx tx" and "d = take k (Data tx)" and "d \<noteq> [] \<or> Data tx = []"
    and "d = Data tx \<or> rest = []"
  shows "deserializeTransaction
           (From tx @ To tx @ u256_bytes (Value tx) @
            be_bytes 4 (unat (of_nat (length (Data tx)) :: u32)) @ d @ rest) =
         Inr (tx\<lparr>Data := d @ replicate (length (Data tx) - length d) 0\<rparr>, rest)"
proof -
  obtain f t v where tx: "tx = \<lparr>From = f, To = t, Value = v, Data = Data tx\<rparr>"
    by (cases tx) auto
  show ?thesis
  proof (cases "Data tx = []")
    case True
    with assms tx show ?thesis
      by (cases tx, cases v)
        (simp add: deserializeTransaction_def codec_simps encodable_tx_def wf_transaction_def
          wf_u256_def)
  next
    case False
    let ?n = "length (Data tx)"
    have "reader_read ?n (d @ rest) = Inr (d @ replicate (?n - length d) 0, rest)"
      using assms False by (auto simp: reader_read_def min_def)
    with assms tx False show ?thesis
      by (cases tx, cases v)
        (simp add: deserializeTransaction_def codec_simps encodable_tx_def wf_transaction_def
          wf_u256_def of_nat_u32_pos unat_of_nat_u32)
  qed
qed

lemma deserializeTransaction_encode:
  "encodable_tx tx \<Longrightarrow> deserializeTransaction (encode_tx tx @ rest) = Inr (tx, rest)"
  using deserializeTransaction_short [of tx "Data tx" "length (Data tx)" rest]
  by (auto simp: encode_tx_def)

interpretation go_tx: stream_codec encode_tx deserializeTransaction encodable_tx deserialize_txs
  by unfold_locales (simp_all add: deserializeTransaction_encode)

section \<open>Round trip and size\<close>

lemma length_encode_tx [wf_simps]: "wf_transaction tx \<Longrightarrow> length (encode_tx tx) = 76 + length (Data tx)"
  by (simp add: encode_tx_def wf_transaction_def wf_u256_def)

lemma length_encode_header [wf_simps]:
  "length (ParentHash blk) = 32 \<Longrightarrow> length (encode_header blk) = 53"
  by (simp add: encode_header_def)

lemma length_concat_encode_tx:
  "list_all wf_transaction txs \<Longrightarrow>
     length (concat (map encode_tx txs)) = sum_list (map (\<lambda>tx. 76 + length (Data tx)) txs)"
  by (induction txs) (simp_all add: wf_simps)

lemma length_encode_block:
  "wf_block blk \<Longrightarrow> length (encode_block blk) =
     53 + sum_list (map (\<lambda>tx. 76 + length (Data tx)) (Transactions blk))"
  by (simp add: encode_block_def wf_block_def wf_simps length_concat_encode_tx)

lemma sum_list_tx_bounds:
  "length txs \<le> sum_list (map (\<lambda>tx. 76 + length (Data tx)) txs)"
  "tx \<in> set txs \<Longrightarrow> length (Data tx) \<le> sum_list (map (\<lambda>tx. 76 + length (Data tx)) txs)"
  by (induction txs) auto

lemma SerializeBlock_sizes:
  assumes "wf_block blk" and "SerializeBlock blk = Inr data"
  shows "data = encode_block blk" and "length data \<le> MaxBlockSize"
    and "length (Transactions blk) < 2 ^ 32" and "list_all encodable_tx (Transactions blk)"
proof -
  from assms(2) show d: "data = encode_block blk" and l: "length data \<le> MaxBlockSize"
    by (simp_all add: SerializeBlock_encode split: if_splits)
  have s: "sum_list (map (\<lambda>tx. 76 + length (Data tx)) (Transactions blk)) \<le> MaxBlockSize"
    using l d length_encode_block [OF assms(1)] by simp
  have m: "MaxBlockSize < 2 ^ 32" by (simp add: MaxBlockSize_def)
  show "length (Transactions blk) < 2 ^ 32"
    using sum_list_tx_bounds(1) [of "Transactions blk"] s m by linarith
  have "length (Data tx) < 2 ^ 32" if "tx \<in> set (Transactions blk)" for tx
    using sum_list_tx_bounds(2) [OF that] s m by linarith
  with assms(1) show "list_all encodable_tx (Transactions blk)"
    by (auto simp: list_all_iff encodable_tx_def wf_block_def)
qed

lemma reader_read_full: "0 < n \<Longrightarrow> n \<le> length r \<Longrightarrow> reader_read n r = Inr (take n r, drop n r)"
  by (auto simp: reader_read_def)

lemma DeserializeBlock_header:
  assumes "length (ParentHash blk) = 32"
  shows "DeserializeBlock (encode_header blk @ r) =
     (case deserialize_txs 0 (unat (of_nat (length (Transactions blk)) :: u32)) r of
        Inl e \<Rightarrow> Inl e | Inr (txs, _) \<Rightarrow> Inr (blk\<lparr>Transactions := txs\<rparr>))"
proof -
  have "length (encode_header blk @ r) \<ge> 53" using assms by (simp add: wf_simps)
  with assms show ?thesis
    by (cases blk) (simp add: DeserializeBlock_def encode_header_def read_byte_def codec_simps
        split: sum.split)
qed

lemma deserialize_serialized:
  assumes "wf_block blk" and "SerializeBlock blk = Inr data"
  shows "DeserializeBlock data = Inr blk"
proof -
  note sz = SerializeBlock_sizes [OF assms]
  have "deserialize_txs 0 (length (Transactions blk)) (concat (map encode_tx (Transactions blk)) @ [])
      = Inr (Transactions blk, [])"
    by (rule go_tx.dec_many_enc) (rule sz(4))
  with sz assms(1) show ?thesis
    by (simp add: encode_block_def DeserializeBlock_header wf_block_def unat_of_nat_u32)
qed

text \<open>C3: decoding what was encoded returns the same block. For every block whose arrays have the
  sizes the Go types fix, if \<open>SerializeBlock\<close> succeeds then \<open>DeserializeBlock\<close> of its output
  succeeds with that block: number, parent hash, timestamp, and all transactions in order with
  their data. The 32-bit length fields never truncate, because of the 10MB limit.\<close>

theorem DeserializeBlock_SerializeBlock:
  assumes "wf_block blk" and "SerializeBlock blk = Inr data"
  shows "DeserializeBlock data = Inr blk"
  using assms by (rule deserialize_serialized)

definition sample_tx :: transaction where
  "sample_tx = \<lparr>From = replicate 20 1, To = replicate 20 2, Value = NewU256FromUint64 5,
     Data = [7, 8, 9]\<rparr>"

definition sample_block :: block where
  "sample_block = \<lparr>Number = 1, ParentHash = replicate 32 4, Timestamp = 1700000001,
     Transactions = [sample_tx]\<rparr>"

lemma wf_sample_tx: "wf_transaction sample_tx"
  by (simp add: sample_tx_def wf_transaction_def wf_simps)

lemma wf_sample_block: "wf_block sample_block"
  by (simp add: sample_block_def wf_block_def wf_sample_tx)

lemma SerializeBlock_sample: "SerializeBlock sample_block = Inr (encode_block sample_block)"
proof -
  have "length (encode_block sample_block) = 132"
    by (simp add: length_encode_block wf_sample_block) (simp add: sample_block_def sample_tx_def)
  then show ?thesis by (simp add: SerializeBlock_encode MaxBlockSize_def)
qed

theorem DeserializeBlock_SerializeBlock_witness:
  "SerializeBlock sample_block = Inr (encode_block sample_block) \<and>
   DeserializeBlock (encode_block sample_block) = Inr sample_block"
  using DeserializeBlock_SerializeBlock [OF wf_sample_block SerializeBlock_sample]
    SerializeBlock_sample by simp

text \<open>\<open>SerializeBlock\<close> succeeds exactly when the encoding fits in 10MB, and the encoding has
  53 header bytes and 76 bytes plus the data for each transaction; otherwise the error names the
  size that was exceeded.\<close>

theorem SerializeBlock_size:
  assumes "wf_block blk"
  shows "SerializeBlock blk =
    (let n = 53 + sum_list (map (\<lambda>tx. 76 + length (Data tx)) (Transactions blk))
     in if n \<le> MaxBlockSize then Inr (encode_block blk) else Inl (BlockTooLarge n))
    \<and> length (encode_block blk) =
        53 + sum_list (map (\<lambda>tx. 76 + length (Data tx)) (Transactions blk))"
  using assms by (simp add: SerializeBlock_encode length_encode_block Let_def)

theorem SerializeBlock_size_witness:
  "SerializeBlock sample_block = Inr (encode_block sample_block) \<and>
   length (encode_block sample_block) = 132"
  using SerializeBlock_size [OF wf_sample_block]
  by (simp add: sample_block_def sample_tx_def MaxBlockSize_def Let_def)

section \<open>What the decoder accepts\<close>

text \<open>The decoder accepts truncated input. If a block's last transaction carries data and the
  encoding is cut inside that data, \<open>DeserializeBlock\<close> reports no error: it returns the block
  with the missing data bytes replaced by zeros, because \<open>Reader.Read\<close> returns a short count
  and the count is ignored.\<close>

theorem DeserializeBlock_truncated:
  assumes "wf_block blk" and "SerializeBlock blk = Inr data"
    and "Transactions blk = txs @ [tx]" and "0 < j" and "j < length (Data tx)"
  shows "DeserializeBlock (take (length data - j) data) =
     Inr (blk\<lparr>Transactions :=
            txs @ [tx\<lparr>Data := take (length (Data tx) - j) (Data tx) @ replicate j 0\<rparr>]\<rparr>)"
proof -
  note sz = SerializeBlock_sizes [OF assms(1,2)]
  let ?k = "length (Data tx) - j"
  let ?d = "take ?k (Data tx)"
  let ?pre = "From tx @ To tx @ u256_bytes (Value tx) @
                be_bytes 4 (unat (of_nat (length (Data tx)) :: u32))"
  have enc: "list_all encodable_tx txs" "encodable_tx tx" using sz(4) assms(3) by auto
  have "encode_tx tx = (?pre @ ?d) @ drop ?k (Data tx)" by (simp add: encode_tx_def)
  then have data: "data = (encode_header blk @ concat (map encode_tx txs) @ ?pre @ ?d) @ drop ?k (Data tx)"
    using sz(1) assms(3) by (simp add: encode_block_def)
  have "length (drop ?k (Data tx)) = j" using assms(5) by simp
  then have cut: "take (length data - j) data =
      encode_header blk @ concat (map encode_tx txs) @ (?pre @ ?d)"
    unfolding data by simp
  have "deserializeTransaction (?pre @ ?d) = Inr (tx\<lparr>Data := ?d @ replicate j 0\<rparr>, [])"
    using deserializeTransaction_short [of tx ?d ?k "[]"] enc(2) assms(4,5) by auto
  then have "deserialize_txs (0 + length txs) 1 (?pre @ ?d) = Inr ([tx\<lparr>Data := ?d @ replicate j 0\<rparr>], [])"
    by simp
  with enc(1) have many: "deserialize_txs 0 (length txs + 1) (concat (map encode_tx txs) @ ?pre @ ?d) =
      Inr (txs @ [tx\<lparr>Data := ?d @ replicate j 0\<rparr>], [])"
    by (rule go_tx.dec_many_append)
  have count: "unat (of_nat (length (Transactions blk)) :: u32) = length txs + 1"
    using unat_of_nat_u32 [OF sz(3)] assms(3) by simp
  have "length (ParentHash blk) = 32" using assms(1) by (simp add: wf_block_def)
  then show ?thesis
    unfolding cut DeserializeBlock_header [OF \<open>length (ParentHash blk) = 32\<close>] count many by simp
qed

theorem DeserializeBlock_truncated_witness:
  "DeserializeBlock (take (length (encode_block sample_block) - 2) (encode_block sample_block)) =
     Inr (sample_block\<lparr>Transactions := [sample_tx\<lparr>Data := [7, 0, 0]\<rparr>]\<rparr>)"
  using DeserializeBlock_truncated
      [OF wf_sample_block SerializeBlock_sample, where txs = "[]" and tx = sample_tx and j = 2]
  by (simp add: sample_block_def sample_tx_def numeral_2_eq_2)

lemma reader_read_wf:
  "reader_read n r = Inr (bs, r') \<Longrightarrow>
     length bs = n \<and> (\<exists>k. bs @ r' = r @ replicate k 0 \<and> (k = 0 \<or> r' = []))"
  by (cases "n \<le> length r")
    (auto simp: reader_read_def split: if_splits intro: exI [of _ 0] exI [of _ "n - length r"])

lemma read_full_wf: "read_full n r = Inr (bs, r') \<Longrightarrow> length bs = n \<and> bs @ r' = r"
  by (auto simp: read_full_def split: if_splits)

lemma be_bytes_of_nat_be_val:
  "length bs = 4 \<Longrightarrow> be_bytes 4 (unat (of_nat (be_val bs) :: u32)) = bs"
  "length bs = 8 \<Longrightarrow> be_bytes 8 (unat (of_nat (be_val bs) :: u64)) = bs"
  using be_val_less [of bs] be_bytes_be_val [of bs]
  by (simp_all add: unat_of_nat take_bit_eq_mod)

lemma read_u32_wf: "read_u32 r = Inr (v, r') \<Longrightarrow> be_bytes 4 (unat v) @ r' = r"
  by (auto simp: read_u32_def be_bytes_of_nat_be_val split: sum.splits dest!: read_full_wf)

lemma read_u64_wf: "read_u64 r = Inr (v, r') \<Longrightarrow> be_bytes 8 (unat v) @ r' = r"
  by (auto simp: read_u64_def be_bytes_of_nat_be_val split: sum.splits dest!: read_full_wf)

text \<open>\<open>padded a r\<close>: the consumed code and rest \<open>a\<close> are the input \<open>r\<close> followed by zeros, and
  zeros were made up only if nothing of the input is left.\<close>

definition padded :: "byte list \<Rightarrow> byte list \<Rightarrow> byte list \<Rightarrow> bool" where
  "padded code r' r \<longleftrightarrow> (\<exists>k. code @ r' = r @ replicate k 0 \<and> (k = 0 \<or> r' = []))"

lemma padded_Nil: "padded [] r r"
  by (simp add: padded_def exI [of _ 0])

lemma padded_trans:
  assumes "padded c1 r1 r" and "padded c2 r2 r1"
  shows "padded (c1 @ c2) r2 r"
proof -
  from assms obtain k1 k2 where
    k1: "c1 @ r1 = r @ replicate k1 0" "k1 = 0 \<or> r1 = []" and
    k2: "c2 @ r2 = r1 @ replicate k2 0" "k2 = 0 \<or> r2 = []"
    unfolding padded_def by blast
  have "(c1 @ c2) @ r2 = r @ replicate (k1 + k2) 0"
    using k1(1) k2(1) by (metis append.assoc replicate_add)
  moreover have "k1 + k2 = 0 \<or> r2 = []" using k1(2) k2 by auto
  ultimately show ?thesis unfolding padded_def by blast
qed

lemma padded_reader_read: "reader_read n r = Inr (bs, r') \<Longrightarrow> padded bs r' r \<and> length bs = n"
  using reader_read_wf unfolding padded_def by blast

lemma padded_exact: "code @ r' = r \<Longrightarrow> padded code r' r"
  by (auto simp: padded_def intro: exI [of _ 0])

lemma deserializeTransaction_padded:
  assumes "deserializeTransaction r = Inr (tx, r')"
  shows "wf_transaction tx \<and> padded (encode_tx tx) r' r"
proof -
  from assms obtain f r1 t r2 v r3 n r4 where
    f: "reader_read 20 r = Inr (f, r1)" and t: "reader_read 20 r1 = Inr (t, r2)" and
    v: "reader_read 32 r2 = Inr (v, r3)" and n: "read_u32 r3 = Inr (n, r4)" and
    d: "tx = \<lparr>From = f, To = t, Value = U256 v, Data = Data tx\<rparr>"
       "0 < n \<and> reader_read (unat n) r4 = Inr (Data tx, r') \<or> \<not> 0 < n \<and> Data tx = [] \<and> r' = r4"
    by (auto simp: deserializeTransaction_def split: sum.splits if_splits)
  have data: "padded (Data tx) r' r4 \<and> length (Data tx) = unat n"
    using d(2) by (auto simp: padded_Nil word_gt_0 dest: padded_reader_read)
  have len: "be_bytes 4 (unat (of_nat (length (Data tx)) :: u32)) = be_bytes 4 (unat n)"
    using data by simp
  have "padded (f @ t @ v @ be_bytes 4 (unat n) @ Data tx) r' r"
    using padded_reader_read [OF f] padded_reader_read [OF t] padded_reader_read [OF v]
      padded_exact [OF read_u32_wf [OF n]] data
    by (blast intro: padded_trans)
  moreover have "wf_transaction tx"
    using padded_reader_read [OF f] padded_reader_read [OF t] padded_reader_read [OF v]
    by (subst d(1)) (simp add: wf_transaction_def wf_u256_def)
  moreover have "encode_tx tx = f @ t @ v @ be_bytes 4 (unat n) @ Data tx"
    unfolding encode_tx_def len by (subst (1 2 3) d(1)) simp
  ultimately show ?thesis by simp
qed

lemma deserialize_txs_padded:
  "deserialize_txs i n r = Inr (txs, r') \<Longrightarrow>
     length txs = n \<and> list_all wf_transaction txs \<and> padded (concat (map encode_tx txs)) r' r"
proof (induction i n r arbitrary: txs r' rule: deserialize_txs.induct)
  case (1 i r)
  then show ?case by (simp add: padded_Nil)
next
  case (2 i n r)
  then obtain tx r1 rest where tx: "deserializeTransaction r = Inr (tx, r1)"
    and rest: "deserialize_txs (Suc i) n r1 = Inr (rest, r')" and txs: "txs = tx # rest"
    by (auto split: sum.splits)
  have "length rest = n \<and> list_all wf_transaction rest \<and> padded (concat (map encode_tx rest)) r' r1"
    using "2.IH" tx rest by blast
  with deserializeTransaction_padded [OF tx] show ?case
    by (auto simp: txs intro: padded_trans)
qed

text \<open>C26: whatever the decoder accepts is a block of the right shape, and its encoding is the input
  up to trailing bytes the decoder never reads, or the input followed by zeros it made up. The
  encoding therefore determines the accepted input up to exactly these two liberties.\<close>

theorem DeserializeBlock_accepts:
  assumes "DeserializeBlock data = Inr blk"
  shows "wf_block blk \<and>
    encode_block blk = take (length (encode_block blk)) data
                         @ replicate (length (encode_block blk) - length data) 0"
proof -
  from assms have len: "53 \<le> length data"
    by (simp add: DeserializeBlock_def split: if_splits)
  from assms obtain r1 n r2 h r3 t r4 c r5 txs r6 where
    v: "data = SerializationVersion # r1" and n: "read_u64 r1 = Inr (n, r2)" and
    h: "reader_read 32 r2 = Inr (h, r3)" and t: "read_u64 r3 = Inr (t, r4)" and
    c: "read_u32 r4 = Inr (c, r5)" and txs: "deserialize_txs 0 (unat c) r5 = Inr (txs, r6)" and
    blk: "blk = \<lparr>Number = n, ParentHash = h, Timestamp = t, Transactions = txs\<rparr>"
    by (auto simp: DeserializeBlock_def read_byte_def split: sum.splits if_splits list.splits)
  note txs' = deserialize_txs_padded [OF txs]
  have "encode_header blk = [SerializationVersion] @ be_bytes 8 (unat n) @ h @
          be_bytes 8 (unat t) @ be_bytes 4 (unat c)"
    using txs' by (simp add: encode_header_def blk)
  moreover have "padded ([SerializationVersion] @ be_bytes 8 (unat n) @ h @
          be_bytes 8 (unat t) @ be_bytes 4 (unat c) @ concat (map encode_tx txs)) r6 data"
    using padded_trans [OF padded_exact [of "[SerializationVersion]" r1 data]
        padded_trans [OF padded_exact [OF read_u64_wf [OF n]]
        padded_trans [OF padded_reader_read [OF h, THEN conjunct1]
        padded_trans [OF padded_exact [OF read_u64_wf [OF t]]
        padded_trans [OF padded_exact [OF read_u32_wf [OF c]] txs' [THEN conjunct2, THEN conjunct2]]]]]] v
    by simp
  ultimately have "padded (encode_block blk) r6 data"
    by (simp add: encode_block_def blk)
  then obtain k where k: "encode_block blk @ r6 = data @ replicate k 0" "k = 0 \<or> r6 = []"
    unfolding padded_def by blast
  have "encode_block blk = take (length (encode_block blk)) (encode_block blk @ r6)" by simp
  also have "\<dots> = take (length (encode_block blk)) data
                  @ take (length (encode_block blk) - length data) (replicate k 0)"
    unfolding k(1) by simp
  also have "take (length (encode_block blk) - length data) (replicate k (0::byte)) =
      replicate (length (encode_block blk) - length data) 0"
    using k arg_cong [OF k(1), of length] by auto
  finally show ?thesis
    using txs' padded_reader_read [OF h] by (simp add: blk wf_block_def)
qed

theorem DeserializeBlock_accepts_witness:
  "wf_block sample_block \<and> encode_block sample_block =
     take (length (encode_block sample_block)) (encode_block sample_block)"
  using DeserializeBlock_accepts
    [OF deserialize_serialized [OF wf_sample_block SerializeBlock_sample]] by simp

end
