(* ===== verification/Validation.thy ===== *)
theory Validation
  imports Serialization
begin

text \<open>
  The input checks of \<^verbatim>\<open>internal/ffi/validation.go\<close>. A Go pointer or slice that may be nil is
  an option; an error return is an element of \<open>validation_error\<close>. The validator's logger only
  writes log lines and is left out.
\<close>

datatype tx_validation_error = TxNil | TxDataTooLarge nat

datatype validation_error =
    BlockNil
  | NonMonotonic u64 u64
  | BadParentHashLength nat
  | TxInvalid nat tx_validation_error
  | DataNil
  | DataEmpty
  | DataTooLarge nat
  | BadVersion byte
  | RollbackTargetAhead u64 u64

definition ValidateTransaction :: "transaction option \<Rightarrow> nat \<Rightarrow> tx_validation_error + unit" where
  "ValidateTransaction tx index =
     (case tx of None \<Rightarrow> Inl TxNil
      | Some t \<Rightarrow> if length (Data t) > 1024 * 1024 then Inl (TxDataTooLarge (length (Data t)))
                  else Inr ())"

text \<open>The range loop of \<open>ValidateBlock\<close>, from index \<open>i\<close> on.\<close>

fun validate_txs :: "nat \<Rightarrow> transaction list \<Rightarrow> validation_error + unit" where
  "validate_txs i [] = Inr ()"
| "validate_txs i (tx # txs) =
     (case ValidateTransaction (Some tx) i of
        Inl e \<Rightarrow> Inl (TxInvalid i e)
      | Inr _ \<Rightarrow> validate_txs (Suc i) txs)"

definition ValidateBlock :: "block option \<Rightarrow> u64 \<Rightarrow> validation_error + unit" where
  "ValidateBlock blk lastBlockNumber =
     (case blk of None \<Rightarrow> Inl BlockNil
      | Some b \<Rightarrow>
          if lastBlockNumber > 0 \<and> Number b \<noteq> lastBlockNumber + 1
          then Inl (NonMonotonic (lastBlockNumber + 1) (Number b))
          else if length (ParentHash b) \<noteq> 32 then Inl (BadParentHashLength (length (ParentHash b)))
          else validate_txs 0 (Transactions b))"

definition ValidateSerializedData :: "byte list option \<Rightarrow> validation_error + unit" where
  "ValidateSerializedData data =
     (case data of None \<Rightarrow> Inl DataNil
      | Some d \<Rightarrow>
          if length d = 0 then Inl DataEmpty
          else if length d > MaxBlockSize then Inl (DataTooLarge (length d))
          else if length d > 0 \<and> d ! 0 \<noteq> SerializationVersion then Inl (BadVersion (d ! 0))
          else Inr ())"

definition ValidateBlockNumber :: "u64 \<Rightarrow> u64 \<Rightarrow> validation_error + unit" where
  "ValidateBlockNumber blockNumber currentBlockNumber =
     (if blockNumber > currentBlockNumber
      then Inl (RollbackTargetAhead blockNumber currentBlockNumber) else Inr ())"

section \<open>What the validator accepts\<close>

definition small_tx :: "transaction \<Rightarrow> bool" where
  "small_tx tx \<longleftrightarrow> length (Data tx) \<le> 1024 * 1024"

lemma validate_txs_ok: "validate_txs i txs = Inr () \<longleftrightarrow> list_all small_tx txs"
  by (induction i txs rule: validate_txs.induct)
    (auto simp: ValidateTransaction_def small_tx_def split: sum.splits)

lemma validate_txs_first_error:
  "validate_txs i (ok @ bad # rest) = Inl (TxInvalid (i + length ok) (TxDataTooLarge (length (Data bad))))"
  if "list_all small_tx ok" and "\<not> small_tx bad"
  using that
  by (induction ok arbitrary: i) (simp_all add: ValidateTransaction_def small_tx_def)

lemma ValidateBlock_ok:
  "ValidateBlock (Some b) lastN = Inr () \<longleftrightarrow>
     (lastN = 0 \<or> Number b = lastN + 1) \<and> length (ParentHash b) = 32 \<and> list_all small_tx (Transactions b)"
  by (auto simp: ValidateBlock_def validate_txs_ok word_gt_0)

text \<open>\<open>ValidateBlock\<close> accepts exactly the non-nil blocks that continue the chain (any number is
  accepted while no block was applied), have a 32-byte parent hash, and carry no transaction with
  more than 1MB of data; and when only a transaction is wrong, the error names the first one.\<close>

theorem ValidateBlock_spec:
  "(ValidateBlock (Some b) lastN = Inr () \<longleftrightarrow>
      (lastN = 0 \<or> Number b = lastN + 1) \<and> length (ParentHash b) = 32 \<and>
      list_all small_tx (Transactions b)) \<and>
   (lastN = 0 \<or> Number b = lastN + 1 \<longrightarrow> length (ParentHash b) = 32 \<longrightarrow>
      Transactions b = ok @ bad # rest \<longrightarrow> list_all small_tx ok \<longrightarrow> \<not> small_tx bad \<longrightarrow>
      ValidateBlock (Some b) lastN =
        Inl (TxInvalid (length ok) (TxDataTooLarge (length (Data bad)))))"
  by (auto simp: ValidateBlock_def validate_txs_ok validate_txs_first_error word_gt_0)

theorem ValidateBlock_spec_witness:
  "ValidateBlock (Some sample_block) 0 = Inr () \<and>
   ValidateBlock (Some (sample_block\<lparr>Transactions :=
       [sample_tx, sample_tx\<lparr>Data := replicate 1048577 0\<rparr>]\<rparr>)) 0 =
     Inl (TxInvalid 1 (TxDataTooLarge 1048577))"
  using ValidateBlock_spec [of sample_block 0 "[]" sample_tx "[]"]
    ValidateBlock_spec [of "sample_block\<lparr>Transactions :=
       [sample_tx, sample_tx\<lparr>Data := replicate 1048577 0\<rparr>]\<rparr>" 0
      "[sample_tx]" "sample_tx\<lparr>Data := replicate 1048577 0\<rparr>" "[]"]
  by (simp add: sample_block_def sample_tx_def small_tx_def)

lemma encode_block_nonempty: "encode_block blk \<noteq> []" "encode_block blk ! 0 = SerializationVersion"
  by (simp_all add: encode_block_def encode_header_def)

text \<open>Whatever \<open>SerializeBlock\<close> returns passes the check of the serialized data.\<close>

lemma SerializeBlock_valid:
  assumes "wf_block blk" and "SerializeBlock blk = Inr data"
  shows "ValidateSerializedData (Some data) = Inr ()"
  using SerializeBlock_sizes(1,2) [OF assms] encode_block_nonempty [of blk]
  by (simp add: ValidateSerializedData_def)

end
