(* ===== verification/U256_Arith.thy ===== *)
theory U256_Arith
  imports Ffi_Types "HOL-Library.List_Lexorder"
begin

text \<open>
  Checked 256-bit addition and subtraction of the Rust core (\<^verbatim>\<open>rust-core/src/types.rs\<close>): the
  byte loops from the least significant byte, and the proof that they compute addition and
  subtraction of the represented numbers, with \<open>None\<close> exactly on overflow and underflow.
\<close>

definition u256_val :: "u256 \<Rightarrow> nat" where
  "u256_val u = be_val (u256_bytes u)"

definition u256_zero :: u256 where
  "u256_zero = U256 (replicate 32 0)"

text \<open>\<open>for i in (0..32).rev()\<close>: \<open>add_loop i\<close> still has the bytes below \<open>i\<close> to add.\<close>

fun add_loop :: "nat \<Rightarrow> byte list \<Rightarrow> byte list \<Rightarrow> byte list \<Rightarrow> u16 \<Rightarrow> byte list \<times> u16" where
  "add_loop 0 a b result carry = (result, carry)"
| "add_loop (Suc i) a b result carry =
     (let sum = (ucast (a ! i) :: u16) + ucast (b ! i) + carry
      in add_loop i a b (result[i := ucast sum]) (drop_bit 8 sum))"

definition checked_add :: "u256 \<Rightarrow> u256 \<Rightarrow> u256 option" where
  "checked_add x y =
     (case add_loop 32 (u256_bytes x) (u256_bytes y) (replicate 32 0) 0 of
        (result, carry) \<Rightarrow> if carry > 0 then None else Some (U256 result))"

text \<open>The \<open>i16\<close> difference lies between -256 and 255 and never overflows.\<close>

fun sub_loop :: "nat \<Rightarrow> byte list \<Rightarrow> byte list \<Rightarrow> byte list \<Rightarrow> int \<Rightarrow> byte list \<times> int" where
  "sub_loop 0 a b result borrow = (result, borrow)"
| "sub_loop (Suc i) a b result borrow =
     (let diff = uint (a ! i) - uint (b ! i) - borrow
      in if diff < 0 then sub_loop i a b (result[i := of_int (diff + 256)]) 1
         else sub_loop i a b (result[i := of_int diff]) 0)"

definition checked_sub :: "u256 \<Rightarrow> u256 \<Rightarrow> u256 option" where
  "checked_sub x y =
     (case sub_loop 32 (u256_bytes x) (u256_bytes y) (replicate 32 0) 0 of
        (result, borrow) \<Rightarrow> if borrow > 0 then None else Some (U256 result))"

section \<open>The loops compute\<close>

lemma be_val_take_Suc:
  "i < length xs \<Longrightarrow> be_val (take (Suc i) xs) = be_val (take i xs) * 256 + unat (xs ! i)"
  by (simp add: take_Suc_conv_app_nth be_val_append)

lemma nth_of_drop_eq: "drop i xs = drop i ys \<Longrightarrow> i < length ys \<Longrightarrow> i < length xs \<Longrightarrow> xs ! i = ys ! i"
  by (metis Cons_nth_drop_Suc list.inject)

lemma drop_Suc_of_drop_eq: "drop i xs = drop i (ys[i := y]) \<Longrightarrow> drop (Suc i) xs = drop (Suc i) ys"
  by (metis drop_Suc drop_tl drop_update_cancel lessI)

lemma byte_sum_u16:
  assumes "unat (c :: u16) \<le> 1"
  shows "unat ((ucast (x :: byte) :: u16) + ucast (y :: byte) + c) = unat x + unat y + unat c"
proof -
  have u: "unat (ucast z :: u16) = unat z" for z :: byte
    by (simp add: unsigned_ucast_eq take_bit_nat_eq_self less_trans [OF unat_byte_less])
  have "unat x + unat y + unat c < 2 ^ 16"
    using unat_byte_less [of x] unat_byte_less [of y] assms by simp
  then show ?thesis by (simp add: unat_word_ariths u)
qed

lemma add_loop_correct:
  assumes "add_loop i a b r c = (r', c')" and "i \<le> n"
    and "length a = n" and "length b = n" and "length r = n" and "unat c \<le> 1"
  shows "length r' = n \<and> unat c' \<le> 1 \<and> drop i r' = drop i r \<and>
     be_val (take i r') + unat c' * 256 ^ i = be_val (take i a) + be_val (take i b) + unat c"
  using assms
proof (induction i arbitrary: r c)
  case 0
  then show ?case by auto
next
  case (Suc i)
  let ?s = "(ucast (a ! i) :: u16) + ucast (b ! i) + c"
  let ?S = "unat (a ! i) + unat (b ! i) + unat c"
  have S: "unat ?s = ?S" using Suc.prems(6) by (rule byte_sum_u16)
  have lt: "?S < 512"
    using unat_byte_less [of "a ! i"] unat_byte_less [of "b ! i"] Suc.prems(6) by simp
  have c1: "unat (drop_bit 8 ?s) = ?S div 256"
    by (simp only: unat_drop_bit_eq S drop_bit_nat_def) simp
  have b1: "unat (ucast ?s :: byte) = ?S mod 256"
    by (simp only: unsigned_ucast_eq S take_bit_eq_mod) simp
  have "add_loop i a b (r[i := ucast ?s]) (drop_bit 8 ?s) = (r', c')"
    using Suc.prems(1) by (simp add: Let_def)
  with Suc.prems c1 lt have IH: "length r' = n" "unat c' \<le> 1" "drop i r' = drop i (r[i := ucast ?s])"
    "be_val (take i r') + unat c' * 256 ^ i = be_val (take i a) + be_val (take i b) + ?S div 256"
    using Suc.IH [of "r[i := ucast ?s]" "drop_bit 8 ?s"] by auto
  have ri: "unat (r' ! i) = ?S mod 256"
    using nth_of_drop_eq [OF IH(3)] IH(1) Suc.prems b1 by simp
  have "be_val (take (Suc i) r') + unat c' * 256 ^ Suc i =
      (be_val (take i r') + unat c' * 256 ^ i) * 256 + ?S mod 256"
    using ri IH(1) Suc.prems(2) by (simp add: be_val_take_Suc)
  also have "\<dots> = (be_val (take i a) + be_val (take i b)) * 256 + ?S"
    unfolding IH(4) by (simp add: add_mult_distrib)
  also have "\<dots> = be_val (take (Suc i) a) + be_val (take (Suc i) b) + unat c"
    using Suc.prems by (simp add: be_val_take_Suc)
  finally show ?case
    using IH drop_Suc_of_drop_eq [OF IH(3)] by simp
qed

lemma uint_byte: "0 \<le> uint (z :: byte) \<and> uint z < 256"
  by (metis uint_nat of_nat_0_le_iff of_nat_less_numeral_iff unat_byte_less)

lemma borrow_range:
  fixes x y w :: int
  assumes "0 \<le> x" and "x < 256" and "0 \<le> y" and "y < 256" and "w = 0 \<or> w = 1"
  shows "0 \<le> x - y - w + 256 * (if x - y - w < 0 then 1 else 0)"
    and "x - y - w + 256 * (if x - y - w < 0 then 1 else 0) < 256"
  using assms by auto

lemma int_unat_of_int: "0 \<le> k \<Longrightarrow> k < 256 \<Longrightarrow> int (unat (of_int k :: byte)) = k"
  by (simp add: unsigned_of_int take_bit_int_eq_self)

lemma sub_loop_correct:
  assumes "sub_loop i a b r w = (r', w')" and "i \<le> n"
    and "length a = n" and "length b = n" and "length r = n" and "w = 0 \<or> w = 1"
  shows "length r' = n \<and> (w' = 0 \<or> w' = 1) \<and> drop i r' = drop i r \<and>
     int (be_val (take i r')) - w' * 256 ^ i =
       int (be_val (take i a)) - int (be_val (take i b)) - w"
  using assms
proof (induction i arbitrary: r w)
  case 0
  then show ?case by auto
next
  case (Suc i)
  let ?d = "uint (a ! i) - uint (b ! i) - w"
  let ?w = "if ?d < 0 then 1 else 0 :: int"
  let ?v = "of_int (?d + 256 * ?w) :: byte"
  have rng: "0 \<le> ?d + 256 * ?w" "?d + 256 * ?w < 256"
    using borrow_range [of "uint (a ! i)" "uint (b ! i)" w] uint_byte Suc.prems(6) by blast+
  have v: "int (unat ?v) = ?d + 256 * ?w"
    by (rule int_unat_of_int [OF rng])
  have "sub_loop i a b (r[i := ?v]) ?w = (r', w')"
    using Suc.prems(1) by (simp add: Let_def split: if_splits)
  with Suc.prems have IH: "length r' = n" "w' = 0 \<or> w' = 1" "drop i r' = drop i (r[i := ?v])"
    "int (be_val (take i r')) - w' * 256 ^ i = int (be_val (take i a)) - int (be_val (take i b)) - ?w"
    using Suc.IH [of "r[i := ?v]" ?w] by auto
  have ri: "int (unat (r' ! i)) = ?d + 256 * ?w"
    using nth_of_drop_eq [OF IH(3)] IH(1) Suc.prems v by simp
  have "int (be_val (take (Suc i) r')) - w' * 256 ^ Suc i =
      (int (be_val (take i r')) - w' * 256 ^ i) * 256 + (?d + 256 * ?w)"
    using ri IH(1) Suc.prems(2) by (simp add: be_val_take_Suc algebra_simps)
  also have "\<dots> = (int (be_val (take i a)) - int (be_val (take i b))) * 256 + ?d"
    unfolding IH(4) by (simp add: algebra_simps)
  also have "\<dots> = int (be_val (take (Suc i) a)) - int (be_val (take (Suc i) b)) - w"
    using Suc.prems by (simp add: be_val_take_Suc algebra_simps)
  finally show ?case
    using IH drop_Suc_of_drop_eq [OF IH(3)] by simp
qed

lemma u256_val_less: "wf_u256 u \<Longrightarrow> u256_val u < 2 ^ 256"
  using be_val_less [of "u256_bytes u"] by (simp add: wf_u256_def u256_val_def)

lemma u256_val_inj: "wf_u256 u \<Longrightarrow> wf_u256 v \<Longrightarrow> u256_val u = u256_val v \<Longrightarrow> u = v"
  by (cases u, cases v) (auto simp: wf_u256_def u256_val_def intro: be_val_inj)

lemma wf_u256_zero [wf_simps]: "wf_u256 u256_zero"
  by (simp add: u256_zero_def wf_u256_def)

lemma u256_val_zero [simp]: "u256_val u256_zero = 0"
  by (simp add: u256_zero_def u256_val_def)

lemma checked_add_cases:
  assumes "wf_u256 x" and "wf_u256 y"
  shows "(\<exists>z. checked_add x y = Some z \<and> wf_u256 z \<and> u256_val z = u256_val x + u256_val y) \<or>
         (checked_add x y = None \<and> 2 ^ 256 \<le> u256_val x + u256_val y)"
proof -
  obtain r c where rc: "add_loop 32 (u256_bytes x) (u256_bytes y) (replicate 32 0) 0 = (r, c)"
    by fastforce
  with assms add_loop_correct [OF rc, of 32] have
    r: "length r = 32" "unat c \<le> 1" "be_val r + unat c * 256 ^ 32 = u256_val x + u256_val y"
    by (auto simp: wf_u256_def u256_val_def)
  show ?thesis
  proof (cases "c = 0")
    case True
    with rc r show ?thesis by (simp add: checked_add_def wf_u256_def u256_val_def)
  next
    case False
    then have "unat c = 1" using r(2) by (simp add: unat_eq_0 le_Suc_eq)
    with rc r(3) False show ?thesis by (simp add: checked_add_def word_gt_0)
  qed
qed

lemma checked_sub_cases:
  assumes "wf_u256 x" and "wf_u256 y"
  shows "(\<exists>z. checked_sub x y = Some z \<and> wf_u256 z \<and> u256_val z = u256_val x - u256_val y \<and>
             u256_val y \<le> u256_val x) \<or>
         (checked_sub x y = None \<and> u256_val x < u256_val y)"
proof -
  obtain r w where rw: "sub_loop 32 (u256_bytes x) (u256_bytes y) (replicate 32 0) 0 = (r, w)"
    by fastforce
  with assms sub_loop_correct [OF rw, of 32] have
    r: "length r = 32" "w = 0 \<or> w = 1"
       "int (be_val r) - w * 256 ^ 32 = int (u256_val x) - int (u256_val y)"
    by (auto simp: wf_u256_def u256_val_def)
  have lt: "int (be_val r) < 256 ^ 32"
    using be_val_less [of r] r(1) by (metis of_nat_less_iff of_nat_numeral of_nat_power)
  from r(2) show ?thesis
  proof
    assume "w = 0"
    with r(3) have "u256_val y \<le> u256_val x" "be_val r = u256_val x - u256_val y" by auto
    with \<open>w = 0\<close> rw r(1) show ?thesis
      by (simp add: checked_sub_def wf_u256_def u256_val_def)
  next
    assume "w = 1"
    with rw r(3) lt show ?thesis by (simp add: checked_sub_def)
  qed
qed

section \<open>Order\<close>

text \<open>Values are ordered as their big-endian bytes are; on 32 bytes this is the order of the numbers.\<close>

instantiation u256 :: linorder
begin

definition less_eq_u256 :: "u256 \<Rightarrow> u256 \<Rightarrow> bool" where
  "x \<le> y \<longleftrightarrow> u256_bytes x \<le> u256_bytes y"

definition less_u256 :: "u256 \<Rightarrow> u256 \<Rightarrow> bool" where
  "x < y \<longleftrightarrow> u256_bytes x < u256_bytes y"

instance
  by standard (auto simp: less_eq_u256_def less_u256_def u256.expand)

end

lemma be_val_less_iff: "length xs = length ys \<Longrightarrow> be_val xs < be_val ys \<longleftrightarrow> xs < ys"
proof (induction xs ys rule: list_induct2)
  case Nil
  then show ?case by simp
next
  case (Cons x xs y ys)
  have step: "be_val (a # as) < be_val (b # bs)" if "a < b" "length as = length bs" for a b :: byte and as bs
  proof -
    have "be_val (a # as) < (unat a + 1) * 256 ^ length as" using be_val_less [of as] by simp
    also have "\<dots> \<le> unat b * 256 ^ length bs"
      using that mult_le_mono1 [of "unat a + 1" "unat b" "256 ^ length bs"] by (simp add: word_less_nat_alt)
    also have "\<dots> \<le> be_val (b # bs)" by simp
    finally show ?thesis .
  qed
  show ?case
  proof (cases x y rule: linorder_cases)
    case less
    with Cons step [of x y xs ys] show ?thesis by simp
  next
    case equal
    with Cons show ?thesis by simp
  next
    case greater
    with Cons step [of y x ys xs] show ?thesis by auto
  qed
qed

lemma u256_less_val: "wf_u256 x \<Longrightarrow> wf_u256 y \<Longrightarrow> x < y \<longleftrightarrow> u256_val x < u256_val y"
  by (simp add: less_u256_def wf_u256_def u256_val_def be_val_less_iff)

lemma u256_le_val: "wf_u256 x \<Longrightarrow> wf_u256 y \<Longrightarrow> x \<le> y \<longleftrightarrow> u256_val x \<le> u256_val y"
  using u256_less_val [of y x] by (simp flip: linorder_not_less)

text \<open>C15: the byte loops are exact 256-bit arithmetic. \<open>checked_add\<close> returns the sum when it is
  below \<open>2^256\<close> and \<open>None\<close> otherwise; \<open>checked_sub\<close> returns the difference when it is not
  negative and \<open>None\<close> otherwise; the results are 32 bytes long, and no larger or no smaller than the
  operands in the order of the bytes.\<close>

theorem checked_arith_exact:
  assumes "wf_u256 x" and "wf_u256 y"
  shows "map_option u256_val (checked_add x y) =
           (if u256_val x + u256_val y < 2 ^ 256 then Some (u256_val x + u256_val y) else None)
       \<and> map_option u256_val (checked_sub x y) =
           (if u256_val y \<le> u256_val x then Some (u256_val x - u256_val y) else None)
       \<and> pred_option (\<lambda>z. wf_u256 z \<and> max x y \<le> z) (checked_add x y)
       \<and> pred_option (\<lambda>z. wf_u256 z \<and> z \<le> x) (checked_sub x y) \<and> (checked_sub x y = None \<longleftrightarrow> x < y)"
  using checked_add_cases [OF assms] checked_sub_cases [OF assms] u256_less_val [OF assms]
  by (auto simp: u256_le_val assms dest: u256_val_less)

theorem checked_arith_exact_witness:
  "map_option u256_val (checked_sub (NewU256FromUint64 300) (NewU256FromUint64 100)) = Some 200"
proof -
  have "unat n < 18446744073709551616" for n :: u64
    by (rule less_le_trans [OF unsigned_less]) simp
  then have v: "u256_val (NewU256FromUint64 n) = unat n" for n
    by (simp add: u256_val_def NewU256FromUint64_bytes be_val_append be_val_be_bytes)
  show ?thesis
    using checked_arith_exact [OF wf_NewU256FromUint64 wf_NewU256FromUint64, of 300 100]
    by (simp add: v)
qed

end
