(* ===== verification/State_Engine.thy ===== *)
theory State_Engine
  imports U256_Arith "HOL-Library.Finite_Map" "HOL-Library.List_Lexorder"
begin

text \<open>
  The Rust state engine (\<^verbatim>\<open>rust-core/src/state.rs\<close>): accounts, block application, the bounded
  snapshot history and rollback. The account map is a finite map; the Blake3 hasher is an
  argument of the definitions that call it (its \<open>update\<close> calls hash the concatenation).
  Operations on \<open>&mut self\<close> take the engine and return the engine as the call leaves it, also on
  the error paths, where the Rust code does not undo what it has done. \<open>u64\<close> additions wrap, as in
  the release build.
\<close>

section \<open>Data\<close>

record account =
  balance :: u256
  nonce :: u64

type_synonym state_map = "(address, account) fmap"

record state_snapshot =
  snap_number :: u64
  snap_state :: state_map
  snap_root :: hash

record state_engine =
  state :: state_map
  block_number :: u64
  state_root :: hash
  history :: "state_snapshot list"

datatype state_error =
    InvalidBlockNumber u64 u64
  | InsufficientBalance
  | BalanceUnderflow
  | BalanceOverflow
  | NoSnapshot u64

definition MAX_HISTORY_SIZE :: nat where
  "MAX_HISTORY_SIZE = 10"

definition account_new :: account where
  "account_new = \<lparr>balance = u256_zero, nonce = 0\<rparr>"

definition engine_new :: state_engine where
  "engine_new = \<lparr>state = fmempty, block_number = 0, state_root = replicate 32 0, history = []\<rparr>"

section \<open>Operations\<close>

definition get_account :: "state_engine \<Rightarrow> address \<Rightarrow> account" where
  "get_account e a = (case fmlookup (state e) a of Some acc \<Rightarrow> acc | None \<Rightarrow> account_new)"

definition set_account :: "address \<Rightarrow> account \<Rightarrow> state_engine \<Rightarrow> state_engine" where
  "set_account a acc e = e\<lparr>state := fmupd a acc (state e)\<rparr>"

definition state_size :: "state_engine \<Rightarrow> nat" where
  "state_size e = fcard (fmdom (state e))"

definition history_length :: "state_engine \<Rightarrow> nat" where
  "history_length e = length (history e)"

definition calculate_state_root :: "(byte list \<Rightarrow> hash) \<Rightarrow> state_map \<Rightarrow> hash" where
  "calculate_state_root blake3 m =
     blake3 (concat (map (\<lambda>addr. addr @
        (case fmlookup m addr of
           Some acc \<Rightarrow> u256_bytes (balance acc) @ be_bytes 8 (unat (nonce acc))
         | None \<Rightarrow> [])) (sorted_list_of_fset (fmdom m))))"

definition apply_transaction :: "transaction \<Rightarrow> state_engine \<Rightarrow> state_engine \<times> (state_error + unit)" where
  "apply_transaction tx e =
     (let sender = get_account e (From tx) in
      if checked_sub (balance sender) (Value tx) = None then (e, Inl InsufficientBalance)
      else (case checked_sub (balance sender) (Value tx) of
          None \<Rightarrow> (e, Inl BalanceUnderflow)
        | Some b \<Rightarrow>
            (let sender' = sender\<lparr>balance := b, nonce := nonce sender + 1\<rparr>;
                 e1 = set_account (From tx) sender' e;
                 receiver = get_account e1 (To tx)
             in (case checked_add (balance receiver) (Value tx) of
                   None \<Rightarrow> (e1, Inl BalanceOverflow)
                 | Some b' \<Rightarrow> (set_account (To tx) (receiver\<lparr>balance := b'\<rparr>) e1, Inr ())))))"

fun apply_transactions :: "transaction list \<Rightarrow> state_engine \<Rightarrow> state_engine \<times> (state_error + unit)" where
  "apply_transactions [] e = (e, Inr ())"
| "apply_transactions (tx # txs) e =
     (case apply_transaction tx e of
        (e', Inl err) \<Rightarrow> (e', Inl err)
      | (e', Inr _) \<Rightarrow> apply_transactions txs e')"

definition push_snapshot :: "state_engine \<Rightarrow> state_engine" where
  "push_snapshot e =
     (let h = history e @ [\<lparr>snap_number = block_number e, snap_state = state e,
                             snap_root = state_root e\<rparr>]
      in e\<lparr>history := (if length h > MAX_HISTORY_SIZE then drop (length h - MAX_HISTORY_SIZE) h else h)\<rparr>)"

definition apply_block ::
  "(byte list \<Rightarrow> hash) \<Rightarrow> block \<Rightarrow> state_engine \<Rightarrow> state_engine \<times> (state_error + hash)" where
  "apply_block blake3 blk e =
     (if Number blk \<noteq> block_number e + 1
      then (e, Inl (InvalidBlockNumber (block_number e + 1) (Number blk)))
      else (case apply_transactions (Transactions blk) (push_snapshot e) of
          (e', Inl err) \<Rightarrow> (e', Inl err)
        | (e', Inr _) \<Rightarrow>
            (let root = calculate_state_root blake3 (state e')
             in (e'\<lparr>block_number := Number blk, state_root := root\<rparr>, Inr root))))"

fun position :: "('a \<Rightarrow> bool) \<Rightarrow> 'a list \<Rightarrow> nat option" where
  "position P [] = None"
| "position P (x # xs) = (if P x then Some 0 else map_option Suc (position P xs))"

definition rollback_to :: "u64 \<Rightarrow> state_engine \<Rightarrow> state_engine \<times> (state_error + unit)" where
  "rollback_to target e =
     (case position (\<lambda>s. snap_number s = target) (history e) of
        None \<Rightarrow> (e, Inl (NoSnapshot target))
      | Some i \<Rightarrow>
          (let s = history e ! i
           in (e\<lparr>state := snap_state s, block_number := snap_number s, state_root := snap_root s,
                 history := take (i + 1) (history e)\<rparr>, Inr ())))"

text \<open>The sizes of \<open>Account\<close> and \<open>StateSnapshot\<close> are fixed by the Rust compiler: arguments.\<close>

definition memory_usage :: "nat \<Rightarrow> nat \<Rightarrow> state_engine \<Rightarrow> nat" where
  "memory_usage sz_account sz_snapshot e =
     (let st = fcard (fmdom (state e)) * (20 + sz_account)
      in st + length (history e) * (sz_snapshot + fcard (fmdom (state e)) * (20 + sz_account)))"

section \<open>Total total_supply\<close>

definition wf_state :: "state_map \<Rightarrow> bool" where
  "wf_state m \<longleftrightarrow> (\<forall>a acc. fmlookup m a = Some acc \<longrightarrow> wf_u256 (balance acc))"

definition bal :: "state_map \<Rightarrow> address \<Rightarrow> nat" where
  "bal m a = (case fmlookup m a of Some acc \<Rightarrow> u256_val (balance acc) | None \<Rightarrow> 0)"

definition total_supply :: "state_map \<Rightarrow> nat" where
  "total_supply m = (\<Sum>a\<in>fmdom' m. bal m a)"

lemma wf_state_empty [wf_simps]: "wf_state fmempty"
  by (simp add: wf_state_def)

lemma wf_state_upd [wf_simps]: "wf_state m \<Longrightarrow> wf_u256 (balance acc) \<Longrightarrow> wf_state (fmupd a acc m)"
  by (auto simp: wf_state_def)

lemma wf_get_account: "wf_state (state e) \<Longrightarrow> wf_u256 (balance (get_account e a))"
  by (auto simp: get_account_def wf_state_def account_new_def wf_simps split: option.split)

lemma bal_get_account: "bal (state e) a = u256_val (balance (get_account e a))"
  by (simp add: bal_def get_account_def account_new_def split: option.split)

lemma bal_upd: "bal (fmupd a acc m) b = (if b = a then u256_val (balance acc) else bal m b)"
  by (simp add: bal_def)

lemma total_supply_upd: "total_supply (fmupd a acc m) + bal m a = total_supply m + u256_val (balance acc)"
proof (cases "a \<in> fmdom' m")
  case True
  then have "total_supply m = bal m a + (\<Sum>b\<in>fmdom' m - {a}. bal m b)"
    by (simp add: total_supply_def sum.remove)
  moreover have "total_supply (fmupd a acc m) = u256_val (balance acc) + (\<Sum>b\<in>fmdom' m - {a}. bal m b)"
    using True by (simp add: total_supply_def insert_absorb sum.remove [of "fmdom' m" a] bal_upd)
  ultimately show ?thesis by simp
next
  case False
  then have "bal m a = 0" by (simp add: bal_def fmdom'_notD)
  moreover have "(\<Sum>b\<in>fmdom' m. bal (fmupd a acc m) b) = total_supply m"
    unfolding total_supply_def by (rule sum.cong) (use False in \<open>auto simp: bal_upd\<close>)
  ultimately show ?thesis using False by (simp add: total_supply_def bal_upd)
qed

lemma bal_le_total_supply: "bal m a \<le> total_supply m"
proof (cases "a \<in> fmdom' m")
  case True
  then show ?thesis unfolding total_supply_def by (intro member_le_sum) simp_all
next
  case False
  then show ?thesis by (simp add: bal_def fmdom'_notD)
qed

section \<open>Transactions move value\<close>

lemma state_set_account [simp]: "state (set_account a acc e) = fmupd a acc (state e)"
  by (simp add: set_account_def)

lemma set_account_frame [simp]:
  "block_number (set_account a acc e) = block_number e"
  "state_root (set_account a acc e) = state_root e"
  "history (set_account a acc e) = history e"
  by (simp_all add: set_account_def)

lemma apply_transaction_frame:
  "apply_transaction tx e = (e', r) \<Longrightarrow>
     block_number e' = block_number e \<and> state_root e' = state_root e \<and> history e' = history e"
  by (auto simp: apply_transaction_def Let_def split: option.splits if_splits)

lemma apply_transactions_frame:
  "apply_transactions txs e = (e', r) \<Longrightarrow>
     block_number e' = block_number e \<and> state_root e' = state_root e \<and> history e' = history e"
proof (induction txs e arbitrary: e' r rule: apply_transactions.induct)
  case (1 e)
  then show ?case by simp
next
  case (2 tx txs e)
  obtain e1 r1 where tx: "apply_transaction tx e = (e1, r1)" by fastforce
  note f = apply_transaction_frame [OF tx]
  show ?case
  proof (cases r1)
    case (Inl err)
    with "2.prems" tx f show ?thesis by simp
  next
    case (Inr u)
    with "2.prems" tx have "apply_transactions txs e1 = (e', r)" by simp
    from "2.IH" [OF tx [symmetric] Inr this] f show ?thesis by simp
  qed
qed

text \<open>The two outcomes of a transaction on a well-formed state whose supply fits in 256 bits.\<close>

lemma apply_transaction_cases:
  assumes "wf_state (state e)" and "wf_transaction tx" and "total_supply (state e) < 2 ^ 256"
    and "apply_transaction tx e = (e', r)"
  shows "(r = Inl InsufficientBalance \<and> e' = e \<and> bal (state e) (From tx) < u256_val (Value tx)) \<or>
    (r = Inr () \<and> u256_val (Value tx) \<le> bal (state e) (From tx) \<and> wf_state (state e') \<and>
     total_supply (state e') = total_supply (state e) \<and>
     (\<forall>a. bal (state e') a + (if a = From tx then u256_val (Value tx) else 0) =
          bal (state e) a + (if a = To tx then u256_val (Value tx) else 0)))"
proof -
  let ?s = "get_account e (From tx)"
  let ?v = "u256_val (Value tx)"
  have wv: "wf_u256 (Value tx)" using assms(2) by (simp add: wf_transaction_def)
  have ws: "wf_u256 (balance ?s)" using assms(1) by (rule wf_get_account)
  have bs: "bal (state e) (From tx) = u256_val (balance ?s)" by (rule bal_get_account)
  from checked_sub_cases [OF ws wv] show ?thesis
  proof (elim disjE exE conjE)
    assume "checked_sub (balance ?s) (Value tx) = None" "u256_val (balance ?s) < ?v"
    with assms(4) bs show ?thesis by (simp add: apply_transaction_def Let_def)
  next
    fix z
    assume z: "checked_sub (balance ?s) (Value tx) = Some z" "wf_u256 z"
      "u256_val z = u256_val (balance ?s) - ?v" "?v \<le> u256_val (balance ?s)"
    define e1 where "e1 = set_account (From tx) (?s\<lparr>balance := z, nonce := nonce ?s + 1\<rparr>) e"
    let ?r = "get_account e1 (To tx)"
    have w1: "wf_state (state e1)" using assms(1) z(2) by (simp add: e1_def wf_simps)
    have t1: "total_supply (state e1) + ?v = total_supply (state e)"
      using total_supply_upd [of "From tx" "?s\<lparr>balance := z, nonce := nonce ?s + 1\<rparr>" "state e"] z bs
      by (simp add: e1_def)
    have br: "u256_val (balance ?r) = bal (state e1) (To tx)" by (simp add: bal_get_account)
    have "u256_val (balance ?r) + ?v < 2 ^ 256"
      using bal_le_total_supply [of "state e1" "To tx"] t1 br assms(3) by linarith
    with checked_add_cases [OF wf_get_account [OF w1] wv]
    obtain y where y: "checked_add (balance ?r) (Value tx) = Some y" "wf_u256 y"
      "u256_val y = u256_val (balance ?r) + ?v" by fastforce
    have e': "e' = set_account (To tx) (?r\<lparr>balance := y\<rparr>) e1" and r: "r = Inr ()"
      using assms(4) z(1) y(1) by (simp_all add: apply_transaction_def Let_def flip: e1_def)
    have "total_supply (state e') = total_supply (state e1) + ?v"
      using total_supply_upd [of "To tx" "?r\<lparr>balance := y\<rparr>" "state e1"] y(3) br by (simp add: e')
    moreover have "\<forall>a. bal (state e') a + (if a = From tx then ?v else 0) =
          bal (state e) a + (if a = To tx then ?v else 0)"
      using z bs y(3) br by (auto simp: e' bal_upd) (auto simp: e1_def bal_upd)
    ultimately show ?thesis using r z(4) bs w1 y(2) t1 by (simp add: e' wf_simps)
  qed
qed

lemma apply_transactions_total_supply:
  assumes "apply_transactions txs e = (e', r)" and "wf_state (state e)"
    and "list_all wf_transaction txs" and "total_supply (state e) < 2 ^ 256"
  shows "wf_state (state e') \<and> total_supply (state e') = total_supply (state e) \<and>
    (r = Inr () \<or> r = Inl InsufficientBalance)"
  using assms
proof (induction txs e arbitrary: e' r rule: apply_transactions.induct)
  case (1 e)
  then show ?case by simp
next
  case (2 tx txs e)
  obtain e1 r1 where tx: "apply_transaction tx e = (e1, r1)" by fastforce
  from 2 have wtx: "wf_transaction tx" by simp
  from apply_transaction_cases [OF "2.prems"(2) wtx "2.prems"(4) tx] show ?case
    using 2 tx by auto
qed

lemma push_snapshot_simps [simp]:
  "state (push_snapshot e) = state e"
  "block_number (push_snapshot e) = block_number e"
  "state_root (push_snapshot e) = state_root e"
  by (simp_all add: push_snapshot_def Let_def)

definition snapshot_of :: "state_engine \<Rightarrow> state_snapshot" where
  "snapshot_of e = \<lparr>snap_number = block_number e, snap_state = state e, snap_root = state_root e\<rparr>"

lemma history_push_snapshot:
  "history (push_snapshot e) = last_n MAX_HISTORY_SIZE (history e @ [snapshot_of e])"
  by (simp add: push_snapshot_def Let_def last_n_def snapshot_of_def)

text \<open>C12: applying a block never creates or destroys value. On a well-formed state whose total
  supply fits in 256 bits, \<open>apply_block\<close> keeps the total supply, whether it succeeds or fails
  half way, and the only transaction error it can return is an insufficient balance: the overflow
  and underflow branches are unreachable.\<close>

theorem apply_block_total_supply:
  assumes "wf_state (state e)" and "wf_block blk" and "total_supply (state e) < 2 ^ 256"
    and "apply_block blake3 blk e = (e', r)"
  shows "wf_state (state e') \<and> total_supply (state e') = total_supply (state e) \<and>
    (isl r \<longrightarrow> r = Inl InsufficientBalance \<or>
       r = Inl (InvalidBlockNumber (block_number e + 1) (Number blk)))"
proof (cases "Number blk = block_number e + 1")
  case False
  with assms show ?thesis by (auto simp: apply_block_def)
next
  case True
  obtain e1 r1 where t: "apply_transactions (Transactions blk) (push_snapshot e) = (e1, r1)"
    by fastforce
  from apply_transactions_total_supply [OF t] assms(1-3)
  have "wf_state (state e1)" "total_supply (state e1) = total_supply (state e)"
    "r1 = Inr () \<or> r1 = Inl InsufficientBalance"
    by (simp_all add: wf_block_def)
  with t True assms(4) show ?thesis
    by (cases r1) (auto simp: apply_block_def Let_def)
qed

lemma total_supply_empty [simp]: "total_supply fmempty = 0" "bal fmempty a = 0"
  by (simp_all add: total_supply_def bal_def)

lemma u256_val_NewU256FromUint64: "u256_val (NewU256FromUint64 n) = unat n"
proof -
  have "unat n < 256 ^ 8" by (rule less_le_trans [OF unsigned_less]) simp
  then show ?thesis
    by (simp add: u256_val_def NewU256FromUint64_bytes be_val_append be_val_be_bytes)
qed

text \<open>A funded engine and a block that transfers 300 of 1000 units, as in the Rust unit tests.\<close>

definition funded_engine :: state_engine where
  "funded_engine = set_account (replicate 20 1) \<lparr>balance = NewU256FromUint64 1000, nonce = 0\<rparr> engine_new"

definition transfer_block :: block where
  "transfer_block = \<lparr>Number = 1, ParentHash = replicate 32 0, Timestamp = 1234567890,
     Transactions = [\<lparr>From = replicate 20 1, To = replicate 20 2,
                      Value = NewU256FromUint64 300, Data = []\<rparr>]\<rparr>"

lemma wf_transfer_block: "wf_block transfer_block"
  by (simp add: transfer_block_def wf_block_def wf_transaction_def wf_simps)

lemma funded_engine_facts:
  "wf_state (state funded_engine)" "total_supply (state funded_engine) = 1000"
  "block_number funded_engine = 0"
  using total_supply_upd [of "replicate 20 1" "\<lparr>balance = NewU256FromUint64 1000, nonce = 0\<rparr>" fmempty]
  by (simp_all add: funded_engine_def engine_new_def wf_simps u256_val_NewU256FromUint64)

theorem apply_block_total_supply_witness:
  "total_supply (state (fst (apply_block rev transfer_block funded_engine))) = 1000"
  using apply_block_total_supply [OF funded_engine_facts(1) wf_transfer_block,
      of rev "fst (apply_block rev transfer_block funded_engine)"
         "snd (apply_block rev transfer_block funded_engine)"]
  by (simp add: funded_engine_facts)

section \<open>An engine that was never funded\<close>

datatype engine_op = Apply block | Rollback u64

definition engine_step :: "(byte list \<Rightarrow> hash) \<Rightarrow> engine_op \<Rightarrow> state_engine \<Rightarrow> state_engine" where
  "engine_step blake3 op e =
     (case op of Apply blk \<Rightarrow> fst (apply_block blake3 blk e) | Rollback n \<Rightarrow> fst (rollback_to n e))"

definition wf_op :: "engine_op \<Rightarrow> bool" where
  "wf_op op = (case op of Apply blk \<Rightarrow> wf_block blk | Rollback n \<Rightarrow> True)"

lemma position_Some: "position P xs = Some i \<Longrightarrow> i < length xs \<and> P (xs ! i)"
  by (induction xs arbitrary: i) (auto split: if_splits)

lemma position_None: "position P xs = None \<longleftrightarrow> (\<forall>x\<in>set xs. \<not> P x)"
  by (induction xs) auto

text \<open>The supply of the current state and of every snapshot.\<close>

definition funds :: "nat \<Rightarrow> state_engine \<Rightarrow> bool" where
  "funds n e \<longleftrightarrow> wf_state (state e) \<and> total_supply (state e) = n \<and>
     (\<forall>s\<in>set (history e). wf_state (snap_state s) \<and> total_supply (snap_state s) = n)"

lemma set_last_n: "set (last_n n xs) \<subseteq> set xs"
  by (simp add: last_n_def set_drop_subset)

lemma funds_push_snapshot: "funds n e \<Longrightarrow> funds n (push_snapshot e)"
  using set_last_n [of MAX_HISTORY_SIZE "history e @ [snapshot_of e]"]
  by (auto simp: funds_def history_push_snapshot snapshot_of_def)

lemma funds_apply_block:
  assumes "funds n e" and "n < 2 ^ 256" and "wf_block blk"
  shows "funds n (fst (apply_block blake3 blk e))"
proof (cases "Number blk = block_number e + 1")
  case False
  with assms show ?thesis by (simp add: apply_block_def)
next
  case True
  obtain e1 r1 where t: "apply_transactions (Transactions blk) (push_snapshot e) = (e1, r1)"
    by fastforce
  have p: "funds n (push_snapshot e)" using assms(1) by (rule funds_push_snapshot)
  have "funds n e1"
    using apply_transactions_total_supply [OF t] apply_transactions_frame [OF t] p assms(2,3)
    by (simp add: funds_def wf_block_def)
  with True t show ?thesis
    by (cases r1) (simp_all add: apply_block_def Let_def funds_def)
qed

lemma funds_rollback_to:
  assumes "funds n e"
  shows "funds n (fst (rollback_to t e))"
proof (cases "position (\<lambda>s. snap_number s = t) (history e)")
  case None
  with assms show ?thesis by (simp add: rollback_to_def)
next
  case (Some i)
  with position_Some [OF Some] assms show ?thesis
    by (auto simp: rollback_to_def Let_def funds_def dest!: in_set_takeD)
qed

lemma funds_engine_step: "funds n e \<Longrightarrow> n < 2 ^ 256 \<Longrightarrow> wf_op op \<Longrightarrow> funds n (engine_step blake3 op e)"
  by (cases op) (simp_all add: engine_step_def wf_op_def funds_apply_block funds_rollback_to)

lemma funds_run:
  "funds n e \<Longrightarrow> n < 2 ^ 256 \<Longrightarrow> list_all wf_op ops \<Longrightarrow> funds n (fold (engine_step blake3) ops e)"
  by (induction ops arbitrary: e) (simp_all add: funds_engine_step)

lemma funds_engine_new: "funds 0 engine_new"
  by (simp add: funds_def engine_new_def wf_simps)

lemma apply_transactions_zero:
  assumes "apply_transactions txs e = (e', r)" and "wf_state (state e)"
    and "list_all wf_transaction txs" and "total_supply (state e) = 0"
    and "tx \<in> set txs" and "0 < u256_val (Value tx)"
  shows "r = Inl InsufficientBalance"
  using assms
proof (induction txs e arbitrary: e' r rule: apply_transactions.induct)
  case (1 e)
  then show ?case by simp
next
  case (2 t txs e)
  obtain e1 r1 where s: "apply_transaction t e = (e1, r1)" by fastforce
  have wt: "wf_transaction t" using "2.prems" by simp
  have lt: "total_supply (state e) < 2 ^ 256" using "2.prems"(4) by simp
  from apply_transaction_cases [OF "2.prems"(2) wt lt s] show ?case
  proof (elim disjE conjE)
    assume "r1 = Inl InsufficientBalance" with "2.prems"(1) s show ?case by simp
  next
    assume ok: "r1 = Inr ()" "u256_val (Value t) \<le> bal (state e) (From t)"
      "wf_state (state e1)" "total_supply (state e1) = total_supply (state e)"
    have "u256_val (Value t) = 0"
      using ok(2) bal_le_total_supply [of "state e" "From t"] "2.prems"(4) by simp
    with "2.prems"(5,6) have mem: "tx \<in> set txs" by auto
    have "apply_transactions txs e1 = (e', r)" using "2.prems"(1) s ok(1) by simp
    from "2.IH" [OF s [symmetric] ok(1) this ok(3)] "2.prems" ok(4) mem show ?case by simp
  qed
qed

text \<open>C39: no value can ever move. Starting from \<open>StateEngine::new\<close>, whatever sequence of blocks
  and rollbacks is run, every account balance stays zero, because nothing in the engine creates
  value; so every later block that contains a transaction with a non-zero value is refused.\<close>

theorem unfunded_engine_refuses_value:
  assumes "list_all wf_op ops" and "wf_block blk"
    and "tx \<in> set (Transactions blk)" and "0 < u256_val (Value tx)"
  shows "bal (state (fold (engine_step blake3) ops engine_new)) a = 0 \<and>
    isl (snd (apply_block blake3 blk (fold (engine_step blake3) ops engine_new)))"
proof -
  let ?e = "fold (engine_step blake3) ops engine_new"
  have f: "funds 0 ?e" using funds_run [OF funds_engine_new _ assms(1)] by simp
  obtain e1 r1 where t: "apply_transactions (Transactions blk) (push_snapshot ?e) = (e1, r1)"
    by fastforce
  have "r1 = Inl InsufficientBalance"
    using apply_transactions_zero [OF t _ _ _ assms(3,4)] f assms(2) by (simp add: funds_def wf_block_def)
  moreover have "bal (state ?e) a = 0"
    using f bal_le_total_supply [of "state ?e" a] by (simp add: funds_def)
  ultimately show ?thesis using t by (simp add: apply_block_def)
qed

theorem unfunded_engine_refuses_value_witness:
  "isl (snd (apply_block rev (transfer_block\<lparr>Number := 2\<rparr>)
      (fold (engine_step rev) [Apply (transfer_block\<lparr>Transactions := []\<rparr>), Rollback 9] engine_new)))"
proof -
  let ?tx = "\<lparr>From = replicate 20 1, To = replicate 20 2, Value = NewU256FromUint64 300, Data = []\<rparr>"
  have "list_all wf_op [Apply (transfer_block\<lparr>Transactions := []\<rparr>), Rollback 9]"
    "wf_block (transfer_block\<lparr>Number := 2\<rparr>)"
    using wf_transfer_block by (simp_all add: wf_op_def wf_block_def)
  moreover have "?tx \<in> set (Transactions (transfer_block\<lparr>Number := 2\<rparr>))"
    "0 < u256_val (Value ?tx)"
    by (simp_all add: transfer_block_def u256_val_NewU256FromUint64)
  ultimately show ?thesis by (rule unfunded_engine_refuses_value [THEN conjunct2])
qed

section \<open>Rollback\<close>

text \<open>
  The snapshots of a history are usable when their numbers never decrease and equal numbers mean
  equal snapshots; an engine is clean when no snapshot is ahead of it and a snapshot of its own
  number is its own state. Successful blocks and rollbacks keep an engine clean.
\<close>

definition snaps_ok :: "state_snapshot list \<Rightarrow> bool" where
  "snaps_ok h \<longleftrightarrow> sorted (map snap_number h) \<and>
     (\<forall>s\<in>set h. \<forall>t\<in>set h. snap_number s = snap_number t \<longrightarrow> s = t)"

definition clean :: "state_engine \<Rightarrow> bool" where
  "clean e \<longleftrightarrow> snaps_ok (history e) \<and>
     (\<forall>s\<in>set (history e). snap_number s \<le> block_number e \<and>
        (snap_number s = block_number e \<longrightarrow> s = snapshot_of e))"

lemma clean_engine_new: "clean engine_new"
  by (simp add: clean_def snaps_ok_def engine_new_def)

lemma snaps_ok_last_n: "snaps_ok h \<Longrightarrow> snaps_ok (last_n n h)"
  using set_last_n [of n h] by (auto simp: snaps_ok_def last_n_def drop_map [symmetric] sorted_wrt_drop)

lemma snaps_ok_push: "clean e \<Longrightarrow> snaps_ok (history e @ [snapshot_of e])"
  by (auto simp: clean_def snaps_ok_def sorted_append snapshot_of_def)

text \<open>Rolling back to any snapshot of a usable history restores exactly that snapshot.\<close>

lemma rollback_to_member:
  assumes "snaps_ok (history e)" and "s \<in> set (history e)"
  shows "\<exists>e'. rollback_to (snap_number s) e = (e', Inr ()) \<and> snapshot_of e' = s \<and> clean e' \<and>
     last (history e') = s"
proof -
  obtain i where i: "position (\<lambda>t. snap_number t = snap_number s) (history e) = Some i"
    using assms(2) position_None [of "\<lambda>t. snap_number t = snap_number s" "history e"]
    by (cases "position (\<lambda>t. snap_number t = snap_number s) (history e)") auto
  note pos = position_Some [OF i]
  have hi: "history e ! i = s"
    using assms pos by (auto simp: snaps_ok_def)
  define e' where "e' = e\<lparr>state := snap_state s, block_number := snap_number s,
     state_root := snap_root s, history := take (i + 1) (history e)\<rparr>"
  have rb: "rollback_to (snap_number s) e = (e', Inr ())"
    by (simp add: rollback_to_def i hi e'_def Let_def)
  have snap: "snapshot_of e' = s" by (simp add: e'_def snapshot_of_def)
  have sub: "set (take (i + 1) (history e)) \<subseteq> set (history e)" by (rule set_take_subset)
  have ok: "snaps_ok (take (i + 1) (history e))"
    using assms(1) sub unfolding snaps_ok_def
    by (auto simp: take_map [symmetric] sorted_wrt_take)
  have le: "snap_number t \<le> snap_number s" if "t \<in> set (take (i + 1) (history e))" for t
  proof -
    from that obtain j where j: "j \<le> i" "t = history e ! j"
      by (auto simp: in_set_conv_nth less_Suc_eq_le)
    have "map snap_number (history e) ! j \<le> map snap_number (history e) ! i"
      using assms(1) j(1) pos by (intro sorted_nth_mono) (auto simp: snaps_ok_def)
    with j pos hi show ?thesis by simp
  qed
  have "clean e'"
    unfolding clean_def
  proof (intro conjI ballI impI)
    show "snaps_ok (history e')" using ok by (simp add: e'_def)
  next
    fix t assume "t \<in> set (history e')"
    then have t: "t \<in> set (take (i + 1) (history e))" by (simp add: e'_def)
    show "snap_number t \<le> block_number e'" using le [OF t] by (simp add: e'_def)
    assume "snap_number t = block_number e'"
    then have "snap_number t = snap_number s" by (simp add: e'_def)
    with assms t sub have "t = s" by (auto simp: snaps_ok_def)
    with snap show "t = snapshot_of e'" by simp
  qed
  moreover have "last (history e') = s"
    using pos hi by (simp add: e'_def take_Suc_conv_app_nth)
  ultimately show ?thesis using rb snap by blast
qed

lemma block_number_Suc:
  "unat (n :: u64) + 1 < 2 ^ 64 \<Longrightarrow> unat (n + 1) = unat n + 1"
  by (subst unat_add_lem [THEN iffD1]) simp_all

lemma apply_block_Inr:
  assumes "apply_block blake3 blk e = (e', Inr root)"
  shows "Number blk = block_number e + 1 \<and> block_number e' = block_number e + 1 \<and>
    state_root e' = root \<and> history e' = last_n MAX_HISTORY_SIZE (history e @ [snapshot_of e])"
proof -
  obtain e1 r1 where t: "apply_transactions (Transactions blk) (push_snapshot e) = (e1, r1)"
    by fastforce
  from apply_transactions_frame [OF t] t assms show ?thesis
    by (cases r1) (auto simp: apply_block_def Let_def history_push_snapshot split: if_splits)
qed

lemma clean_apply_block:
  assumes "clean e" and "apply_block blake3 blk e = (e', Inr root)"
    and "unat (block_number e) + 1 < 2 ^ 64"
  shows "clean e'"
proof -
  note a = apply_block_Inr [OF assms(2)]
  have lt: "snap_number s < block_number e'" if "s \<in> set (history e')" for s
  proof -
    from that a have "s \<in> set (history e @ [snapshot_of e])"
      using set_last_n [of MAX_HISTORY_SIZE "history e @ [snapshot_of e]"] by auto
    then have "snap_number s \<le> block_number e"
      using assms(1) by (auto simp: clean_def snapshot_of_def)
    with a block_number_Suc [OF assms(3)] show ?thesis
      by (simp add: word_less_nat_alt word_le_nat_alt)
  qed
  have "snaps_ok (history e')"
    using a snaps_ok_last_n [OF snaps_ok_push [OF assms(1)]] by simp
  with lt show ?thesis by (fastforce simp: clean_def dest: less_imp_le)
qed

text \<open>Applying a list of blocks, \<open>None\<close> at the first failure.\<close>

fun apply_blocks :: "(byte list \<Rightarrow> hash) \<Rightarrow> block list \<Rightarrow> state_engine \<Rightarrow> state_engine option" where
  "apply_blocks blake3 [] e = Some e"
| "apply_blocks blake3 (b # bs) e =
     (case apply_block blake3 b e of (e', Inl err) \<Rightarrow> None | (e', Inr r) \<Rightarrow> apply_blocks blake3 bs e')"

lemma apply_blocks_history:
  assumes "apply_blocks blake3 bs e = Some e'" and "clean e"
    and "unat (block_number e) + length bs < 2 ^ 64" and "length (history e) \<le> MAX_HISTORY_SIZE"
  shows "clean e' \<and> unat (block_number e') = unat (block_number e) + length bs \<and>
    (\<exists>ss. history e' = last_n MAX_HISTORY_SIZE (history e @ ss) \<and>
       map (\<lambda>s. unat (snap_number s)) ss = [unat (block_number e) ..< unat (block_number e) + length bs] \<and>
       (bs \<noteq> [] \<longrightarrow> hd ss = snapshot_of e))"
  using assms
proof (induction bs arbitrary: e)
  case Nil
  then show ?case by (auto simp: last_n_short intro: exI [of _ "[]"])
next
  case (Cons b bs)
  then obtain e1 root where b: "apply_block blake3 b e = (e1, Inr root)"
    and bs: "apply_blocks blake3 bs e1 = Some e'"
    by (auto split: prod.splits sum.splits)
  have nw: "unat (block_number e) + 1 < 2 ^ 64" using Cons.prems(3) by simp
  note a = apply_block_Inr [OF b]
  have n1: "unat (block_number e1) = unat (block_number e) + 1"
    using a block_number_Suc [OF nw] by simp
  have l1: "length (history e1) \<le> MAX_HISTORY_SIZE" using a by simp
  from Cons.IH [OF bs clean_apply_block [OF Cons.prems(2) b nw] _ l1] n1 Cons.prems(3)
  obtain ss where IH: "clean e'" "unat (block_number e') = unat (block_number e1) + length bs"
    "history e' = last_n MAX_HISTORY_SIZE (history e1 @ ss)"
    "map (\<lambda>s. unat (snap_number s)) ss = [unat (block_number e1) ..< unat (block_number e1) + length bs]"
    by auto
  have "history e' = last_n MAX_HISTORY_SIZE (history e @ (snapshot_of e # ss))"
    using IH(3) a by (simp add: last_n_last_n_append)
  moreover have "map (\<lambda>s. unat (snap_number s)) (snapshot_of e # ss) =
      [unat (block_number e) ..< unat (block_number e) + length (b # bs)]"
    unfolding list.map IH(4) n1 by (subst (2) upt_conv_Cons) (simp_all add: snapshot_of_def)
  ultimately show ?case
    using IH(1,2) n1 by (intro conjI exI [of _ "snapshot_of e # ss"]) simp_all
qed

text \<open>C4: rollback depth. From a clean engine, after \<open>k > 0\<close> successfully applied blocks, rolling
  back to the starting block number succeeds exactly when \<open>k\<close> is at most 10. It then restores
  the accounts, the block number and the state root of the start, whatever the blocks did, and
  the engine is clean again; beyond 10 blocks the engine reports a missing snapshot and is left
  unchanged.\<close>

theorem rollback_restores:
  assumes "clean e" and "length (history e) \<le> 10" and "apply_blocks blake3 bs e = Some e'"
    and "bs \<noteq> []" and "unat (block_number e) + length bs < 2 ^ 64"
  shows "if length bs \<le> 10
    then \<exists>e''. rollback_to (block_number e) e' = (e'', Inr ()) \<and> state e'' = state e \<and>
           block_number e'' = block_number e \<and> state_root e'' = state_root e \<and> clean e''
    else rollback_to (block_number e) e' = (e', Inl (NoSnapshot (block_number e)))"
proof -
  have "length (history e) \<le> MAX_HISTORY_SIZE" using assms(2) by (simp add: MAX_HISTORY_SIZE_def)
  from apply_blocks_history [OF assms(3,1,5) this] obtain ss where c: "clean e'" and
    h: "history e' = last_n 10 (history e @ ss)" and
    nums: "map (\<lambda>s. unat (snap_number s)) ss = [unat (block_number e) ..< unat (block_number e) + length bs]" and
    hd: "hd ss = snapshot_of e"
    using assms(4) by (auto simp: MAX_HISTORY_SIZE_def)
  have len: "length ss = length bs" using arg_cong [OF nums, of length] by simp
  have num: "unat (snap_number (ss ! i)) = unat (block_number e) + i" if "i < length bs" for i
    using arg_cong [OF nums, of "\<lambda>xs. xs ! i"] that len by simp
  show ?thesis
  proof (cases "length bs \<le> 10")
    case True
    have "snapshot_of e \<in> set ss" using hd len assms(4) by (cases ss) auto
    with True len have "snapshot_of e \<in> set (history e')"
      by (simp add: h last_n_def)
    moreover have "snaps_ok (history e')" using c by (simp add: clean_def)
    moreover have "snap_number (snapshot_of e) = block_number e" by (simp add: snapshot_of_def)
    ultimately obtain e'' where "rollback_to (block_number e) e' = (e'', Inr ())"
      "snapshot_of e'' = snapshot_of e" "clean e''"
      using rollback_to_member by metis
    with True show ?thesis by (auto simp: snapshot_of_def)
  next
    case False
    have "snap_number s \<noteq> block_number e" if s: "s \<in> set (history e')" for s
    proof -
      have "s \<in> set (drop (length bs - 10) ss)"
        using s False len by (simp add: h last_n_def)
      then obtain i where "i < 10" "s = ss ! (length bs - 10 + i)"
        using len False by (auto simp: in_set_conv_nth)
      with num [of "length bs - 10 + i"] False
      have "unat (snap_number s) \<noteq> unat (block_number e)" by simp
      then show ?thesis by auto
    qed
    then have "position (\<lambda>s. snap_number s = block_number e) (history e') = None"
      by (simp add: position_None)
    with False show ?thesis by (simp add: rollback_to_def)
  qed
qed

definition empty_block :: "u64 \<Rightarrow> block" where
  "empty_block n = \<lparr>Number = n, ParentHash = replicate 32 0, Timestamp = 0, Transactions = []\<rparr>"

theorem rollback_restores_witness:
  "\<exists>e''. rollback_to 0 (fst (apply_block rev (empty_block 1) engine_new)) = (e'', Inr ()) \<and>
     state e'' = fmempty \<and> clean e''"
proof -
  let ?e = "fst (apply_block rev (empty_block 1) engine_new)"
  have "apply_blocks rev [empty_block 1] engine_new = Some ?e"
    by (simp add: apply_block_def empty_block_def engine_new_def Let_def)
  from rollback_restores [OF clean_engine_new _ this] show ?thesis
    by (auto simp: engine_new_def)
qed

text \<open>C27: a failed block is not undone. If the transactions of a block succeed up to one that
  fails, \<open>apply_block\<close> returns the error with the block number and root unchanged, but with the
  accounts as the successful transactions left them. The damage can be repaired: if the engine
  was clean before, a rollback to its own block number restores the accounts.\<close>

theorem failed_block_keeps_effects:
  assumes "Number blk = block_number e + 1" and "Transactions blk = ok @ bad # rest"
    and "apply_transactions ok (push_snapshot e) = (e1, Inr ())"
    and "apply_transaction bad e1 = (e2, Inl err)" and "clean e"
  shows "apply_block blake3 blk e = (e2, Inl err) \<and> block_number e2 = block_number e \<and>
    state_root e2 = state_root e \<and>
    (\<exists>e3. rollback_to (block_number e) e2 = (e3, Inr ()) \<and> state e3 = state e \<and> clean e3)"
proof -
  have "apply_transactions (ok @ bad # rest) f = (e2, Inl err)"
    if "apply_transactions ok f = (e1, Inr ())" for f
    using that
  proof (induction ok f rule: apply_transactions.induct)
    case (1 f)
    with assms(4) show ?case by simp
  next
    case (2 tx txs f)
    obtain f1 r where "apply_transaction tx f = (f1, r)" by fastforce
    with 2 show ?case by (cases r) auto
  qed
  with assms(1-3) have ab: "apply_block blake3 blk e = (e2, Inl err)"
    by (simp add: apply_block_def)
  have fr: "block_number e2 = block_number e" "state_root e2 = state_root e"
    "history e2 = last_n MAX_HISTORY_SIZE (history e @ [snapshot_of e])"
    using apply_transactions_frame [OF assms(3)] apply_transaction_frame [OF assms(4)]
    by (simp_all add: history_push_snapshot)
  have "snaps_ok (history e2)" using fr(3) snaps_ok_last_n [OF snaps_ok_push [OF assms(5)]] by simp
  moreover have "snapshot_of e \<in> set (history e2)"
    unfolding fr(3) by (rule last_n_snoc_mem) (simp add: MAX_HISTORY_SIZE_def)
  ultimately obtain e3 where "rollback_to (snap_number (snapshot_of e)) e2 = (e3, Inr ())"
    "snapshot_of e3 = snapshot_of e" "clean e3"
    using rollback_to_member by blast
  with ab fr show ?thesis by (auto simp: snapshot_of_def)
qed

lemma apply_transaction_sender:
  "apply_transaction tx e = (e', Inr ()) \<Longrightarrow> fmlookup (state e') (From tx) \<noteq> None"
  by (auto simp: apply_transaction_def Let_def split: option.splits if_splits)

theorem failed_block_keeps_effects_witness:
  "let tx = (\<lambda>v. \<lparr>From = replicate 20 1, To = replicate 20 2, Value = NewU256FromUint64 v, Data = []\<rparr>);
       e = fst (apply_block rev ((empty_block 1)\<lparr>Transactions := [tx 0, tx 1]\<rparr>) engine_new)
   in block_number e = 0 \<and> fmlookup (state e) (replicate 20 1) \<noteq> None"
proof -
  let ?tx = "\<lambda>v. \<lparr>From = replicate 20 1, To = replicate 20 2, Value = NewU256FromUint64 v, Data = []\<rparr>"
  let ?blk = "(empty_block 1)\<lparr>Transactions := [?tx 0, ?tx 1]\<rparr>"
  have wt: "wf_transaction (?tx v)" for v by (simp add: wf_transaction_def wf_simps)
  obtain e1 r1 where t1: "apply_transaction (?tx 0) (push_snapshot engine_new) = (e1, r1)" by fastforce
  have "state engine_new = fmempty" by (simp add: engine_new_def)
  with apply_transaction_cases [OF _ wt _ t1]
  have r1: "r1 = Inr ()" "wf_state (state e1)" "total_supply (state e1) = 0"
    by (auto simp: wf_simps u256_val_NewU256FromUint64)
  obtain e2 r2 where t2: "apply_transaction (?tx 1) e1 = (e2, r2)" by fastforce
  have "bal (state e1) (replicate 20 1) = 0"
    using bal_le_total_supply [of "state e1" "replicate 20 1"] r1(3) by simp
  with apply_transaction_cases [OF r1(2) wt _ t2] r1(3)
  have r2: "r2 = Inl InsufficientBalance" "e2 = e1" by (auto simp: u256_val_NewU256FromUint64)
  have "apply_block rev ?blk engine_new = (e1, Inl InsufficientBalance) \<and>
      block_number e1 = block_number engine_new"
    using failed_block_keeps_effects [of ?blk engine_new "[?tx 0]" "?tx 1" "[]" e1 e1
        InsufficientBalance rev] t1 t2 r1(1) r2 clean_engine_new
    by (simp add: empty_block_def engine_new_def)
  with apply_transaction_sender [of "?tx 0"] t1 r1(1) show ?thesis
    by (simp add: Let_def engine_new_def)
qed

section \<open>The engine as a function of the chain it applied\<close>

text \<open>The history does not influence what a block does, so the accounts, number and root of an
  engine are determined by the blocks of its chain, whatever rollbacks happened in between.\<close>

definition snap_after :: "(byte list \<Rightarrow> hash) \<Rightarrow> block list \<Rightarrow> state_snapshot option" where
  "snap_after blake3 chain = map_option snapshot_of (apply_blocks blake3 chain engine_new)"

definition tracks :: "(byte list \<Rightarrow> hash) \<Rightarrow> block list \<Rightarrow> state_engine \<Rightarrow> bool" where
  "tracks blake3 chain e \<longleftrightarrow> clean e \<and> snap_after blake3 chain = Some (snapshot_of e) \<and>
     (\<forall>s\<in>set (history e). \<exists>k\<le>length chain. snap_after blake3 (take k chain) = Some s)"

lemma apply_transaction_history:
  "apply_transaction tx (e\<lparr>history := h\<rparr>) =
     (case apply_transaction tx e of (e', r) \<Rightarrow> (e'\<lparr>history := h\<rparr>, r))"
  by (auto simp: apply_transaction_def Let_def get_account_def set_account_def split: option.splits)

lemma apply_transactions_history:
  "apply_transactions txs (e\<lparr>history := h\<rparr>) =
     (case apply_transactions txs e of (e', r) \<Rightarrow> (e'\<lparr>history := h\<rparr>, r))"
  by (induction txs e rule: apply_transactions.induct)
    (auto simp: apply_transaction_history split: prod.splits sum.splits)

lemma apply_block_snapshot:
  assumes "snapshot_of e = snapshot_of f" and "apply_block blake3 b e = (e', Inr r)"
  shows "\<exists>f'. apply_block blake3 b f = (f', Inr r) \<and> snapshot_of f' = snapshot_of e'"
proof -
  have same: "state f = state e" "block_number f = block_number e" "state_root f = state_root e"
    using assms(1) by (simp_all add: snapshot_of_def)
  have "push_snapshot f = (push_snapshot e)\<lparr>history := history (push_snapshot f)\<rparr>"
    using same by (simp add: push_snapshot_def Let_def)
  then have "apply_transactions txs (push_snapshot f) =
      (case apply_transactions txs (push_snapshot e) of
         (x, q) \<Rightarrow> (x\<lparr>history := history (push_snapshot f)\<rparr>, q))" for txs
    by (metis apply_transactions_history)
  with assms(2) same show ?thesis
    by (auto simp: apply_block_def Let_def snapshot_of_def split: if_splits prod.splits sum.splits)
qed

lemma apply_blocks_append:
  "apply_blocks blake3 (xs @ ys) e =
     (case apply_blocks blake3 xs e of None \<Rightarrow> None | Some e' \<Rightarrow> apply_blocks blake3 ys e')"
  by (induction blake3 xs e rule: apply_blocks.induct) (auto split: prod.splits sum.splits)

lemma snap_after_number:
  assumes "snap_after blake3 chain = Some s" and "length chain < 2 ^ 64"
  shows "unat (snap_number s) = length chain"
proof -
  from assms(1) obtain e where e: "apply_blocks blake3 chain engine_new = Some e" "s = snapshot_of e"
    by (auto simp: snap_after_def)
  from apply_blocks_history [OF e(1) clean_engine_new] assms(2) e(2) show ?thesis
    by (simp add: engine_new_def snapshot_of_def)
qed

lemma tracks_number: "tracks blake3 chain e \<Longrightarrow> length chain < 2 ^ 64 \<Longrightarrow> unat (block_number e) = length chain"
  by (auto simp: tracks_def snapshot_of_def dest: snap_after_number)

lemma tracks_new: "tracks blake3 [] engine_new"
  by (simp add: tracks_def clean_engine_new snap_after_def) (simp add: engine_new_def)

lemma tracks_apply:
  assumes "tracks blake3 chain e" and "apply_block blake3 b e = (e', Inr r)" and "length chain + 1 < 2 ^ 64"
  shows "tracks blake3 (chain @ [b]) e'"
proof -
  have n: "unat (block_number e) + 1 < 2 ^ 64" using tracks_number [OF assms(1)] assms(3) by simp
  from assms(1) obtain f where f: "apply_blocks blake3 chain engine_new = Some f"
    "snapshot_of f = snapshot_of e" by (auto simp: tracks_def snap_after_def)
  from apply_block_snapshot [OF f(2) [symmetric] assms(2)] f(1)
  have "snap_after blake3 (chain @ [b]) = Some (snapshot_of e')"
    by (auto simp: snap_after_def apply_blocks_append)
  moreover have "clean e'" using clean_apply_block [OF _ assms(2) n] assms(1) by (simp add: tracks_def)
  moreover have "\<exists>k\<le>length (chain @ [b]). snap_after blake3 (take k (chain @ [b])) = Some s"
    if "s \<in> set (history e')" for s
  proof -
    from that apply_block_Inr [OF assms(2)] set_last_n have "s \<in> set (history e) \<or> s = snapshot_of e"
      by fastforce
    with assms(1) obtain k where "k \<le> length chain" "snap_after blake3 (take k chain) = Some s"
      unfolding tracks_def by (metis order_refl take_all_iff)
    then show ?thesis by (intro exI [of _ k]) simp
  qed
  ultimately show ?thesis by (simp add: tracks_def)
qed

lemma tracks_rollback:
  assumes "tracks blake3 chain e" and "rollback_to n e = (e', Inr ())" and "length chain < 2 ^ 64"
  shows "unat n \<le> length chain \<and> tracks blake3 (take (unat n) chain) e'"
proof -
  from assms(2) obtain i where i: "position (\<lambda>s. snap_number s = n) (history e) = Some i"
    and e': "snapshot_of e' = history e ! i" "history e' = take (i + 1) (history e)"
    by (auto simp: rollback_to_def Let_def snapshot_of_def split: option.splits)
  let ?s = "history e ! i"
  have s: "?s \<in> set (history e)" "snap_number ?s = n" using position_Some [OF i] by simp_all
  have ok: "snaps_ok (history e)" using assms(1) by (simp add: tracks_def clean_def)
  have cl: "clean e'" using rollback_to_member [OF ok s(1)] s(2) assms(2) by auto
  from assms(1) s(1) obtain k where k: "k \<le> length chain" "snap_after blake3 (take k chain) = Some ?s"
    unfolding tracks_def by blast
  with snap_after_number [OF k(2)] s(2) assms(3) have kn: "unat n = k" by simp
  have "\<exists>j\<le>k. snap_after blake3 (take j (take k chain)) = Some t" if t: "t \<in> set (history e')" for t
  proof -
    from t e'(2) have "t \<in> set (history e)" by (auto dest: in_set_takeD)
    with assms(1) obtain j where j: "j \<le> length chain" "snap_after blake3 (take j chain) = Some t"
      unfolding tracks_def by blast
    from cl t have "snap_number t \<le> block_number e'" by (simp add: clean_def)
    also have "block_number e' = snap_number (snapshot_of e')" by (simp add: snapshot_of_def)
    also have "\<dots> = n" by (simp only: e'(1) s(2))
    finally have "unat (snap_number t) \<le> k" using kn by (simp add: word_le_nat_alt)
    with snap_after_number [OF j(2)] j assms(3) have "j \<le> k" by simp
    with j show ?thesis by (intro exI [of _ j]) simp
  qed
  with k kn cl e'(1) show ?thesis by (simp add: tracks_def)
qed

end
