(* ===== verification/Core_Ffi.thy ===== *)
theory Core_Ffi
  imports State_Engine Serialization
begin

text \<open>
  The C interface of the Rust core (\<^verbatim>\<open>rust-core/src/ffi.rs\<close>). The process-wide
  \<open>ENGINE: Mutex<Option<StateEngine>>\<close> is a value of type \<open>state_engine option\<close> that each
  function takes and returns; the mutex is never poisoned in the model (the functions do not
  panic), and the out-pointers are results. The wire decoder keeps the bytes not consumed yet in
  place of the running offset.
\<close>

datatype decode_error = RDataTooShort | RUnsupportedVersion byte | RTruncated

definition rust_deserialize_tx :: "byte list \<Rightarrow> decode_error + (transaction \<times> byte list)" where
  "rust_deserialize_tx r =
     (if 20 + 20 + 32 + 4 > length r then Inl RTruncated
      else (let from = take 20 r; r1 = drop 20 r;
                to = take 20 r1; r2 = drop 20 r1;
                value_bytes = take 32 r2; r3 = drop 32 r2;
                data_len = unat (of_nat (be_val (take 4 r3)) :: u32); r4 = drop 4 r3
            in if data_len > length r4 then Inl RTruncated
               else Inr (\<lparr>From = from, To = to, Value = U256 value_bytes, Data = take data_len r4\<rparr>,
                         drop data_len r4)))"

fun rust_deserialize_txs :: "nat \<Rightarrow> byte list \<Rightarrow> decode_error + (transaction list \<times> byte list)" where
  "rust_deserialize_txs 0 r = Inr ([], r)"
| "rust_deserialize_txs (Suc n) r =
     (case rust_deserialize_tx r of Inl e \<Rightarrow> Inl e | Inr (tx, r') \<Rightarrow>
     (case rust_deserialize_txs n r' of Inl e \<Rightarrow> Inl e | Inr (txs, r'') \<Rightarrow> Inr (tx # txs, r'')))"

definition rust_deserialize_block :: "byte list \<Rightarrow> decode_error + block" where
  "rust_deserialize_block data =
     (if length data < 53 then Inl RDataTooShort
      else if data ! 0 \<noteq> 1 then Inl (RUnsupportedVersion (data ! 0))
      else (let r1 = drop 1 data;
                number = of_nat (be_val (take 8 r1)); r2 = drop 8 r1;
                parent_hash = take 32 r2; r3 = drop 32 r2;
                timestamp = of_nat (be_val (take 8 r3)); r4 = drop 8 r3;
                tx_count = (of_nat (be_val (take 4 r4)) :: u32); r5 = drop 4 r4
            in (case rust_deserialize_txs (unat tx_count) r5 of Inl e \<Rightarrow> Inl e | Inr (txs, _) \<Rightarrow>
                  Inr \<lparr>Number = number, ParentHash = parent_hash, Timestamp = timestamp,
                       Transactions = txs\<rparr>)))"

definition c_init_engine :: "state_engine option \<Rightarrow> state_engine option \<times> int" where
  "c_init_engine g = (Some engine_new, 0)"

definition c_apply_block ::
  "(byte list \<Rightarrow> hash) \<Rightarrow> byte list \<Rightarrow> state_engine option \<Rightarrow> state_engine option \<times> int \<times> hash option" where
  "c_apply_block blake3 data g =
     (if length data = 0 \<or> length data > 10 * 1024 * 1024 then (g, -1, None)
      else (case rust_deserialize_block data of Inl _ \<Rightarrow> (g, -2, None) | Inr blk \<Rightarrow>
           (case g of None \<Rightarrow> (g, -3, None) | Some e \<Rightarrow>
           (case apply_block blake3 blk e of
              (e', Inl _) \<Rightarrow> (Some e', -3, None)
            | (e', Inr root) \<Rightarrow> (Some e', 0, Some root)))))"

definition c_rollback_to :: "u64 \<Rightarrow> state_engine option \<Rightarrow> state_engine option \<times> int" where
  "c_rollback_to n g =
     (case g of None \<Rightarrow> (g, -1) | Some e \<Rightarrow>
     (case rollback_to n e of (e', Inl _) \<Rightarrow> (Some e', -1) | (e', Inr _) \<Rightarrow> (Some e', 0)))"

definition c_get_state_root :: "state_engine option \<Rightarrow> int \<times> hash option" where
  "c_get_state_root g = (case g of None \<Rightarrow> (-1, None) | Some e \<Rightarrow> (0, Some (state_root e)))"

text \<open>The values of the JSON object \<open>get_stats\<close> returns.\<close>

record core_stats =
  cs_block_number :: nat
  cs_state_size :: nat
  cs_history_length :: nat
  cs_memory_usage_bytes :: nat

definition c_get_stats :: "nat \<Rightarrow> nat \<Rightarrow> state_engine option \<Rightarrow> int \<times> core_stats option" where
  "c_get_stats sz_account sz_snapshot g =
     (case g of None \<Rightarrow> (-1, None) | Some e \<Rightarrow>
       (0, Some \<lparr>cs_block_number = unat (block_number e), cs_state_size = state_size e,
                 cs_history_length = history_length e,
                 cs_memory_usage_bytes = memory_usage sz_account sz_snapshot e\<rparr>))"

section \<open>Both decoders\<close>

lemma rust_deserialize_tx_encode:
  "encodable_tx tx \<Longrightarrow> rust_deserialize_tx (encode_tx tx @ rest) = Inr (tx, rest)"
  by (cases tx, cases "Value tx")
    (simp add: rust_deserialize_tx_def encode_tx_def encodable_tx_def wf_transaction_def wf_u256_def
      Let_def codec_simps unat_of_nat_u32)

interpretation rust_tx:
  stream_codec encode_tx rust_deserialize_tx encodable_tx "\<lambda>_. rust_deserialize_txs"
  by unfold_locales (simp_all add: rust_deserialize_tx_encode)

lemma rust_deserialize_encode:
  assumes "wf_block blk" and "SerializeBlock blk = Inr data"
  shows "rust_deserialize_block data = Inr blk"
proof -
  note sz = SerializeBlock_sizes [OF assms]
  have "rust_deserialize_txs (length (Transactions blk)) (concat (map encode_tx (Transactions blk)) @ [])
      = Inr (Transactions blk, [])"
    by (rule rust_tx.dec_many_enc) (rule sz(4))
  moreover have "length (ParentHash blk) = 32" using assms(1) by (simp add: wf_block_def)
  moreover have "data = 1 # be_bytes 8 (unat (Number blk)) @ ParentHash blk @
      be_bytes 8 (unat (Timestamp blk)) @
      be_bytes 4 (unat (of_nat (length (Transactions blk)) :: u32)) @
      concat (map encode_tx (Transactions blk))"
    by (simp add: sz(1) encode_block_def encode_header_def SerializationVersion_def)
  ultimately show ?thesis
    using sz(3)
    by (simp add: rust_deserialize_block_def Let_def codec_simps unat_of_nat_u32)
qed

text \<open>On input long enough, the Go readers agree with slicing.\<close>

lemma go_reads_slices:
  "0 < n \<Longrightarrow> n \<le> length r \<Longrightarrow> reader_read n r = Inr (take n r, drop n r)"
  "8 \<le> length r \<Longrightarrow> read_u64 r = Inr (of_nat (be_val (take 8 r)), drop 8 r)"
  "4 \<le> length r \<Longrightarrow> read_u32 r = Inr (of_nat (be_val (take 4 r)), drop 4 r)"
  by (auto simp: reader_read_def read_u64_def read_u32_def read_full_def)

lemma rust_tx_go_tx:
  assumes "rust_deserialize_tx r = Inr (tx, r')"
  shows "deserializeTransaction r = Inr (tx, r')"
proof -
  let ?r4 = "drop 4 (drop 32 (drop 20 (drop 20 r)))"
  let ?len = "of_nat (be_val (take 4 (drop 32 (drop 20 (drop 20 r))))) :: u32"
  from assms have len: "76 \<le> length r" and data: "unat ?len \<le> length ?r4" and
    tx: "tx = \<lparr>From = take 20 r, To = take 20 (drop 20 r),
               Value = U256 (take 32 (drop 20 (drop 20 r))), Data = take (unat ?len) ?r4\<rparr>" and
    r': "r' = drop (unat ?len) ?r4"
    by (auto simp: rust_deserialize_tx_def Let_def split: if_splits)
  show ?thesis
  proof (cases "?len = 0")
    case True
    with len tx r' show ?thesis by (simp add: deserializeTransaction_def go_reads_slices)
  next
    case False
    then have "0 < unat ?len" by (simp add: unat_gt_0)
    with False len data tx r' show ?thesis
      by (simp add: deserializeTransaction_def go_reads_slices word_gt_0)
  qed
qed

lemma rust_txs_go_txs:
  "rust_deserialize_txs n r = Inr (txs, r') \<Longrightarrow> deserialize_txs i n r = Inr (txs, r')"
proof (induction n arbitrary: i r txs)
  case 0
  then show ?case by simp
next
  case (Suc n)
  then show ?case by (fastforce split: sum.splits dest: rust_tx_go_tx)
qed

text \<open>C14: the two decoders of the wire format agree where it matters. Whatever bytes the Rust
  decoder accepts, the Go decoder accepts too, with the same block. On the output of
  \<open>SerializeBlock\<close> the Rust decoder returns the very block that was serialized.\<close>

theorem rust_decoder_refines_go:
  "(rust_deserialize_block data = Inr blk \<longrightarrow> DeserializeBlock data = Inr blk) \<and>
   (wf_block b \<longrightarrow> SerializeBlock b = Inr d \<longrightarrow> rust_deserialize_block d = Inr b)"
proof (intro conjI impI)
  assume a: "rust_deserialize_block data = Inr blk"
  let ?r5 = "drop 4 (drop 8 (drop 32 (drop 8 (drop 1 data))))"
  let ?n = "of_nat (be_val (take 4 (drop 8 (drop 32 (drop 8 (drop 1 data)))))) :: u32"
  from a obtain txs r' where len: "53 \<le> length data" and v: "data ! 0 = 1" and
    txs: "rust_deserialize_txs (unat ?n) ?r5 = Inr (txs, r')" and
    blk: "blk = \<lparr>Number = of_nat (be_val (take 8 (drop 1 data))),
       ParentHash = take 32 (drop 8 (drop 1 data)),
       Timestamp = of_nat (be_val (take 8 (drop 32 (drop 8 (drop 1 data))))), Transactions = txs\<rparr>"
    by (auto simp: rust_deserialize_block_def Let_def split: if_splits sum.splits)
  have "deserialize_txs 0 (unat ?n) ?r5 = Inr (txs, r')" using txs by (rule rust_txs_go_txs)
  moreover obtain d where "data = 1 # d" using len v by (cases data) auto
  ultimately show "DeserializeBlock data = Inr blk"
    using len blk
    by (simp add: DeserializeBlock_def read_byte_def SerializationVersion_def go_reads_slices)
qed (rule rust_deserialize_encode)

theorem rust_decoder_refines_go_witness:
  "rust_deserialize_block (encode_block sample_block) = Inr sample_block \<and>
   DeserializeBlock (encode_block sample_block) = Inr sample_block"
  using rust_decoder_refines_go wf_sample_block SerializeBlock_sample by blast

end
