(* ===== verification/Ffi.thy ===== *)
theory Ffi
  imports Validation Core_Ffi
begin

text \<open>
  The Go side of the bridge (\<^verbatim>\<open>internal/ffi/ffi.go\<close>). Its state is the last applied block
  number the \<open>FFI\<close> struct keeps, together with the engine of the Rust core it talks to. Every
  method holds the mutex for its whole body, so methods are atomic state transformers. A non-zero
  C return code becomes an error value; the buffers Rust allocates are plain results.
\<close>

record ffi_state =
  lastBlockNumber :: u64
  engine :: "state_engine option"

datatype ffi_error =
    InitFailed int
  | BlockValidationFailed validation_error
  | SerializationFailed ser_error
  | SerializedDataInvalid validation_error
  | ApplyBlockFailed int
  | UnexpectedRootLength nat
  | RollbackFailed int
  | GetStateRootFailed int
  | GetStatsFailed int
  | StatsUnparsable

record ffi_stats =
  BlockNumber :: u64
  StateSize :: int
  HistoryLength :: int
  MemoryUsageBytes :: int

definition NewFFI :: "state_engine option \<Rightarrow> ffi_state" where
  "NewFFI g = \<lparr>lastBlockNumber = 0, engine = g\<rparr>"

definition InitEngine :: "ffi_state \<Rightarrow> ffi_state \<times> (ffi_error + unit)" where
  "InitEngine f =
     (case c_init_engine (engine f) of (g, ret) \<Rightarrow>
        (f\<lparr>engine := g\<rparr>, if ret \<noteq> 0 then Inl (InitFailed ret) else Inr ()))"

definition ApplyBlock ::
  "(byte list \<Rightarrow> hash) \<Rightarrow> block option \<Rightarrow> ffi_state \<Rightarrow> ffi_state \<times> (ffi_error + hash)" where
  "ApplyBlock blake3 blk f =
     (case ValidateBlock blk (lastBlockNumber f) of Inl e \<Rightarrow> (f, Inl (BlockValidationFailed e))
      | Inr _ \<Rightarrow>
     (case SerializeBlock (the blk) of Inl e \<Rightarrow> (f, Inl (SerializationFailed e))
      | Inr data \<Rightarrow>
     (case ValidateSerializedData (Some data) of Inl e \<Rightarrow> (f, Inl (SerializedDataInvalid e))
      | Inr _ \<Rightarrow>
     (case c_apply_block blake3 data (engine f) of (g, ret, result) \<Rightarrow>
        if ret \<noteq> 0 then (f\<lparr>engine := g\<rparr>, Inl (ApplyBlockFailed ret))
        else (let root = (case result of Some r \<Rightarrow> r | None \<Rightarrow> [])
              in if length root \<noteq> 32 then (f\<lparr>engine := g\<rparr>, Inl (UnexpectedRootLength (length root)))
                 else (f\<lparr>engine := g, lastBlockNumber := Number (the blk)\<rparr>, Inr root))))))"

definition RollbackTo :: "u64 \<Rightarrow> ffi_state \<Rightarrow> ffi_state \<times> (ffi_error + unit)" where
  "RollbackTo blockNumber f =
     (case c_rollback_to blockNumber (engine f) of (g, ret) \<Rightarrow>
        if ret \<noteq> 0 then (f\<lparr>engine := g\<rparr>, Inl (RollbackFailed ret))
        else (f\<lparr>engine := g, lastBlockNumber := blockNumber\<rparr>, Inr ()))"

definition GetStateRoot :: "ffi_state \<Rightarrow> ffi_error + hash" where
  "GetStateRoot f =
     (case c_get_state_root (engine f) of (ret, root) \<Rightarrow>
        if ret \<noteq> 0 then Inl (GetStateRootFailed ret)
        else (let r = (case root of Some r \<Rightarrow> r | None \<Rightarrow> [])
              in if length r \<noteq> 32 then Inl (UnexpectedRootLength (length r)) else Inr r))"

text \<open>A JSON number outside the range of the Go field's type makes \<open>json.Unmarshal\<close> fail; the
  text of the object itself is not modelled.\<close>

definition go_int_of_json :: "nat \<Rightarrow> int option" where
  "go_int_of_json n = (if n < 2 ^ 63 then Some (int n) else None)"

definition GetStats :: "nat \<Rightarrow> nat \<Rightarrow> ffi_state \<Rightarrow> ffi_error + ffi_stats" where
  "GetStats sz_account sz_snapshot f =
     (case c_get_stats sz_account sz_snapshot (engine f) of (ret, stats) \<Rightarrow>
        if ret \<noteq> 0 then Inl (GetStatsFailed ret)
        else (case stats of None \<Rightarrow> Inl StatsUnparsable | Some s \<Rightarrow>
          (case (go_int_of_json (cs_state_size s), go_int_of_json (cs_history_length s),
                 go_int_of_json (cs_memory_usage_bytes s)) of
             (Some n, Some h, Some m) \<Rightarrow>
               if cs_block_number s < 2 ^ 64
               then Inr \<lparr>BlockNumber = of_nat (cs_block_number s), StateSize = n,
                         HistoryLength = h, MemoryUsageBytes = m\<rparr>
               else Inl StatsUnparsable
           | _ \<Rightarrow> Inl StatsUnparsable)))"

section \<open>Crossing the bridge\<close>

text \<open>Blake3 digests have 32 bytes.\<close>

definition digest32 :: "(byte list \<Rightarrow> hash) \<Rightarrow> bool" where
  "digest32 h \<longleftrightarrow> (\<forall>m. length (h m) = 32)"

lemma digest32_const: "digest32 (\<lambda>m. replicate 32 0)"
  by (simp add: digest32_def)

lemma calculate_state_root_32: "digest32 blake3 \<Longrightarrow> length (calculate_state_root blake3 m) = 32"
  by (simp add: digest32_def calculate_state_root_def)

lemma apply_block_root_32:
  "digest32 blake3 \<Longrightarrow> apply_block blake3 blk e = (e', Inr root) \<Longrightarrow> length root = 32"
  by (auto simp: apply_block_def Let_def calculate_state_root_32 split: if_splits prod.splits sum.splits)

lemma ApplyBlock_through:
  assumes "digest32 blake3" and "engine f = Some e" and "wf_block blk"
    and "ValidateBlock (Some blk) (lastBlockNumber f) = Inr ()"
  shows "ApplyBlock blake3 (Some blk) f =
    (if length (encode_block blk) > MaxBlockSize
     then (f, Inl (SerializationFailed (BlockTooLarge (length (encode_block blk)))))
     else (case apply_block blake3 blk e of
        (e', Inr root) \<Rightarrow> (f\<lparr>engine := Some e', lastBlockNumber := Number blk\<rparr>, Inr root)
      | (e', Inl _) \<Rightarrow> (f\<lparr>engine := Some e'\<rparr>, Inl (ApplyBlockFailed (-3)))))"
proof (cases "length (encode_block blk) > MaxBlockSize")
  case True
  with assms(4) show ?thesis by (simp add: ApplyBlock_def SerializeBlock_encode)
next
  case False
  then have ser: "SerializeBlock blk = Inr (encode_block blk)" by (simp add: SerializeBlock_encode)
  obtain e' r where ab: "apply_block blake3 blk e = (e', r)" by fastforce
  have "c_apply_block blake3 (encode_block blk) (Some e) =
      (Some e', case r of Inl _ \<Rightarrow> (-3, None) | Inr root \<Rightarrow> (0, Some root))"
    using False rust_deserialize_encode [OF assms(3) ser] ab encode_block_nonempty(1) [of blk]
    by (simp add: c_apply_block_def MaxBlockSize_def split: sum.split)
  with False ser ab assms(2,4) SerializeBlock_valid [OF assms(3) ser]
    apply_block_root_32 [OF assms(1), of blk e e']
  show ?thesis by (simp add: ApplyBlock_def Let_def split: sum.split)
qed

text \<open>C2: the bridge is transparent. For a block whose arrays have their Go sizes and that the
  validator accepts, serializing it, sending the bytes through the C interface and decoding them
  in Rust has exactly the effect of applying the block to the Rust engine directly: the root it
  computes is returned and the last block number is set, or the call fails with code -3. The
  codes -1 and -2 and the check of the serialized data never cause a failure; the only other
  failure is a block of more than 10MB, which leaves the engine alone.\<close>

theorem ApplyBlock_transparent:
  assumes "digest32 blake3" and "engine f = Some e" and "wf_block blk"
    and "ValidateBlock (Some blk) (lastBlockNumber f) = Inr ()"
  shows "ApplyBlock blake3 (Some blk) f =
    (if length (encode_block blk) > MaxBlockSize
     then (f, Inl (SerializationFailed (BlockTooLarge (length (encode_block blk)))))
     else (case apply_block blake3 blk e of
        (e', Inr root) \<Rightarrow> (f\<lparr>engine := Some e', lastBlockNumber := Number blk\<rparr>, Inr root)
      | (e', Inl _) \<Rightarrow> (f\<lparr>engine := Some e'\<rparr>, Inl (ApplyBlockFailed (-3)))))"
  using assms by (rule ApplyBlock_through)

definition fresh_ffi :: ffi_state where
  "fresh_ffi = fst (InitEngine (NewFFI None))"

lemma fresh_ffi: "fresh_ffi = \<lparr>lastBlockNumber = 0, engine = Some engine_new\<rparr>"
  by (simp add: fresh_ffi_def InitEngine_def NewFFI_def c_init_engine_def)

lemma empty_block_facts:
  "wf_block (empty_block n)" "ValidateBlock (Some (empty_block n)) 0 = Inr ()"
  "\<not> length (encode_block (empty_block n)) > MaxBlockSize"
  by (simp_all add: empty_block_def wf_block_def ValidateBlock_ok length_encode_block MaxBlockSize_def)

theorem ApplyBlock_transparent_witness:
  "ApplyBlock (\<lambda>m. replicate 32 0) (Some (empty_block 1)) fresh_ffi =
     (fresh_ffi\<lparr>engine := Some (fst (apply_block (\<lambda>m. replicate 32 0) (empty_block 1) engine_new)),
                lastBlockNumber := 1\<rparr>, Inr (replicate 32 0))"
  using ApplyBlock_transparent [OF digest32_const, of fresh_ffi engine_new "empty_block 1"]
    empty_block_facts [of 1]
  by (simp add: fresh_ffi apply_block_def empty_block_def engine_new_def Let_def
      calculate_state_root_def)

section \<open>Go and Rust agree on the block number\<close>

datatype ffi_op = FApply block | FRollback u64

definition ffi_step :: "(byte list \<Rightarrow> hash) \<Rightarrow> ffi_op \<Rightarrow> ffi_state \<Rightarrow> ffi_state" where
  "ffi_step blake3 op f =
     (case op of FApply blk \<Rightarrow> fst (ApplyBlock blake3 (Some blk) f) | FRollback n \<Rightarrow> fst (RollbackTo n f))"

definition wf_ffi_op :: "ffi_op \<Rightarrow> bool" where
  "wf_ffi_op op = (case op of FApply blk \<Rightarrow> wf_block blk | FRollback n \<Rightarrow> True)"

definition synced :: "ffi_state \<Rightarrow> bool" where
  "synced f \<longleftrightarrow> (case engine f of None \<Rightarrow> False | Some e \<Rightarrow> lastBlockNumber f = block_number e)"

lemma synced_engine: "synced f \<Longrightarrow> \<exists>e. engine f = Some e \<and> lastBlockNumber f = block_number e"
  by (simp add: synced_def split: option.splits)

lemma synced_fresh: "synced fresh_ffi"
  by (simp add: synced_def fresh_ffi engine_new_def)

lemma apply_block_Inl_number:
  "apply_block blake3 blk e = (e', Inl err) \<Longrightarrow> block_number e' = block_number e"
  by (auto simp: apply_block_def Let_def split: if_splits prod.splits sum.splits
      dest: apply_transactions_frame)

text \<open>One call of \<open>ApplyBlock\<close> on a synced state: either it succeeds with the successor number,
  or it fails and the number stays.\<close>

lemma ApplyBlock_synced:
  assumes "digest32 blake3" and "synced f" and "wf_block blk"
    and "ApplyBlock blake3 (Some blk) f = (f', r)"
  shows "synced f' \<and> (case r of
      Inr root \<Rightarrow> Number blk = lastBlockNumber f + 1 \<and> lastBlockNumber f' = Number blk \<and>
                  GetStateRoot f' = Inr root
    | Inl _ \<Rightarrow> lastBlockNumber f' = lastBlockNumber f)"
proof (cases "ValidateBlock (Some blk) (lastBlockNumber f)")
  case (Inl err)
  with assms show ?thesis by (auto simp: ApplyBlock_def)
next
  case (Inr u)
  from synced_engine [OF assms(2)] obtain e where e: "engine f = Some e"
    "lastBlockNumber f = block_number e" by blast
  obtain e' q where ab: "apply_block blake3 blk e = (e', q)" by fastforce
  have "ValidateBlock (Some blk) (lastBlockNumber f) = Inr ()" using Inr by simp
  note t = ApplyBlock_through [OF assms(1) e(1) assms(3) this]
  show ?thesis
  proof (cases "length (encode_block blk) > MaxBlockSize")
    case True
    with t assms(2,4) show ?thesis by auto
  next
    case False
    note t' = t [unfolded if_not_P [OF False] ab prod.case]
    show ?thesis
    proof (cases q)
      case (Inl err)
      with t' ab assms(4) e apply_block_Inl_number [of blake3 blk e e' err] show ?thesis
        by (auto simp: synced_def)
    next
      case (Inr root)
      with t' ab assms(4) e apply_block_Inr [of blake3 blk e e' root]
        apply_block_root_32 [OF assms(1), of blk e e' root] show ?thesis
        by (auto simp: synced_def GetStateRoot_def c_get_state_root_def)
    qed
  qed
qed

lemma rollback_to_number:
  "rollback_to n e = (e', Inl err) \<Longrightarrow> e' = e"
  "rollback_to n e = (e', Inr ()) \<Longrightarrow> block_number e' = n"
  by (auto simp: rollback_to_def Let_def split: option.splits dest: position_Some)

lemma RollbackTo_synced:
  assumes "synced f" and "RollbackTo n f = (f', r)"
  shows "synced f' \<and> lastBlockNumber f' = (case r of Inr _ \<Rightarrow> n | Inl _ \<Rightarrow> lastBlockNumber f)"
proof -
  from synced_engine [OF assms(1)] obtain e where e: "engine f = Some e"
    "lastBlockNumber f = block_number e" by blast
  obtain e' q where rb: "rollback_to n e = (e', q)" by fastforce
  show ?thesis
    using assms(2) e rb rollback_to_number [of n e e']
    by (cases q) (auto simp: RollbackTo_def c_rollback_to_def synced_def)
qed

lemma synced_run:
  assumes "digest32 blake3"
  shows "synced f \<Longrightarrow> list_all wf_ffi_op ops \<Longrightarrow> synced (fold (ffi_step blake3) ops f)"
proof (induction ops arbitrary: f)
  case Nil
  then show ?case by simp
next
  case (Cons op ops)
  have "synced (ffi_step blake3 op f)"
  proof (cases op)
    case (FApply blk)
    obtain f' r where "ApplyBlock blake3 (Some blk) f = (f', r)" by fastforce
    with ApplyBlock_synced [OF assms Cons.prems(1), of blk] Cons.prems(2) FApply show ?thesis
      by (simp add: ffi_step_def wf_ffi_op_def)
  next
    case (FRollback n)
    obtain f' r where "RollbackTo n f = (f', r)" by fastforce
    with RollbackTo_synced [OF Cons.prems(1)] FRollback show ?thesis by (simp add: ffi_step_def)
  qed
  with Cons show ?case by simp
qed

text \<open>C13: the Go and the Rust side never disagree on the chain position. Whatever blocks and
  rollbacks run after initialisation, the number the \<open>FFI\<close> struct keeps is the engine's; a block
  that is applied is the successor of the current one, \<open>GetStateRoot\<close> then returns the root that
  the call returned, and a call that fails moves neither number.\<close>

theorem ffi_stays_synced:
  assumes "digest32 blake3" and "list_all wf_ffi_op ops" and "wf_block blk"
    and "f = fold (ffi_step blake3) ops fresh_ffi"
    and "ApplyBlock blake3 (Some blk) f = (f', r)"
  shows "synced f \<and> synced f' \<and> (case r of
      Inr root \<Rightarrow> Number blk = lastBlockNumber f + 1 \<and> lastBlockNumber f' = Number blk \<and>
                  GetStateRoot f' = Inr root
    | Inl _ \<Rightarrow> lastBlockNumber f' = lastBlockNumber f)"
  using synced_run [OF assms(1) synced_fresh assms(2)] ApplyBlock_synced [OF assms(1) _ assms(3,5)]
    assms(4) by blast

theorem ffi_stays_synced_witness:
  "synced (fst (ApplyBlock (\<lambda>m. replicate 32 0) (Some (empty_block 5))
      (fold (ffi_step (\<lambda>m. replicate 32 0)) [FApply (empty_block 1), FRollback 0] fresh_ffi)))"
  using ffi_stays_synced [OF digest32_const _ empty_block_facts(1) refl prod.collapse [symmetric],
      of "[FApply (empty_block 1), FRollback 0]" 5]
  by (simp add: wf_ffi_op_def empty_block_facts)

text \<open>A freshly initialised bridge accepts no block but number 1. The validator lets any
  number through while no block was applied, but the engine starts at block 0, so a stream that
  starts at a later block, as every live chain does, is refused block by block with code -3 and
  nothing changes.\<close>

theorem fresh_ffi_refuses_later_blocks:
  assumes "digest32 blake3" and "wf_block blk" and "list_all small_tx (Transactions blk)"
    and "length (encode_block blk) \<le> MaxBlockSize" and "Number blk \<noteq> 1"
  shows "ValidateBlock (Some blk) (lastBlockNumber fresh_ffi) = Inr () \<and>
    ApplyBlock blake3 (Some blk) fresh_ffi = (fresh_ffi, Inl (ApplyBlockFailed (-3)))"
proof -
  have v: "ValidateBlock (Some blk) (lastBlockNumber fresh_ffi) = Inr ()"
    using assms(2,3) by (simp add: ValidateBlock_def validate_txs_ok fresh_ffi wf_block_def)
  have "apply_block blake3 blk engine_new =
      (engine_new, Inl (InvalidBlockNumber (block_number engine_new + 1) (Number blk)))"
    using assms(5) by (simp add: apply_block_def engine_new_def)
  with ApplyBlock_through [OF assms(1) _ assms(2) v, of engine_new] assms(4) v show ?thesis
    by (simp add: fresh_ffi)
qed

theorem fresh_ffi_refuses_later_blocks_witness:
  "ApplyBlock (\<lambda>m. replicate 32 0) (Some (empty_block 20000000)) fresh_ffi =
     (fresh_ffi, Inl (ApplyBlockFailed (-3)))"
  using fresh_ffi_refuses_later_blocks [OF digest32_const, of "empty_block 20000000"]
    empty_block_facts [of 20000000]
  by (simp add: empty_block_def)

text \<open>Initialising the engine a second time stalls the bridge. \<open>InitEngine\<close> resets the Rust
  engine but not the last block number, so once a block had been applied every later block is
  refused: the validator wants the successor of the old number and the engine wants block 1.\<close>

theorem reinit_refuses_every_block:
  assumes "digest32 blake3" and "wf_block blk" and "lastBlockNumber f \<noteq> 0"
    and "f' = fst (InitEngine f)"
  shows "isl (snd (ApplyBlock blake3 (Some blk) f')) \<and> snd (InitEngine f) = Inr ()"
proof -
  have f': "lastBlockNumber f' = lastBlockNumber f" "engine f' = Some engine_new"
    "snd (InitEngine f) = Inr ()"
    using assms(4) by (simp_all add: InitEngine_def c_init_engine_def)
  show ?thesis
  proof (cases "ValidateBlock (Some blk) (lastBlockNumber f')")
    case (Inl err)
    with f' show ?thesis by (simp add: ApplyBlock_def)
  next
    case (Inr u)
    then have v: "ValidateBlock (Some blk) (lastBlockNumber f') = Inr ()" by simp
    then have "Number blk = lastBlockNumber f + 1"
      using assms(3) f'(1) by (auto simp: ValidateBlock_def word_gt_0 split: if_splits)
    with assms(3) have "Number blk \<noteq> 0 + 1" by (metis add_right_cancel)
    then have "\<exists>err. apply_block blake3 blk engine_new = (engine_new, Inl err)"
      by (simp add: apply_block_def engine_new_def)
    with ApplyBlock_through [OF assms(1) f'(2) assms(2) v] f'(3) show ?thesis by auto
  qed
qed

theorem reinit_refuses_every_block_witness:
  "isl (snd (ApplyBlock (\<lambda>m. replicate 32 0) (Some (empty_block 1))
     (fst (InitEngine \<lparr>lastBlockNumber = 7, engine = Some engine_new\<rparr>))))"
  using reinit_refuses_every_block [OF digest32_const empty_block_facts(1) _ refl,
      of "\<lparr>lastBlockNumber = 7, engine = Some engine_new\<rparr>" 1] by simp

end
