(* ===== verification/Reorg.thy ===== *)
theory Reorg
  imports Ring_Buffer Ffi
begin

text \<open>
  The reorg engine (\<^verbatim>\<open>internal/reorg/engine.go\<close>). It talks to the state engine through the
  \<open>FFIClient\<close> interface, here a record of the two methods acting on a client state \<open>'c\<close>; the Go
  FFI of theory \<open>Ffi\<close> is the client the program uses. Clock readings are arguments. \<open>newBlock\<close> is
  never nil here: its only caller passes the block it has just parsed. \<open>sha256\<close> is the digest of
  \<open>Block.Hash\<close>.
\<close>

section \<open>Data\<close>

record ('c, 'e) FFIClient =
  client_ApplyBlock :: "block \<Rightarrow> 'c \<Rightarrow> 'c \<times> ('e + hash)"
  client_RollbackTo :: "u64 \<Rightarrow> 'c \<Rightarrow> 'c \<times> ('e + unit)"

record ReorgEvent =
  ev_Timestamp :: int
  ForkPoint :: u64
  Depth :: int
  RollbackDurationMs :: int

record 'c ReorgEngine =
  re_ffi :: 'c
  ringBuffer :: "block ring_buffer"
  reorgCount :: i64
  reorgEvents :: "ReorgEvent list"

datatype detect_error = ForkPointNotFound | DepthExceeded int
datatype 'e handle_error = ForkRollbackFailed 'e | ReplayFailed 'e
datatype 'e process_error = DetectionFailed detect_error | HandlingFailed "'e handle_error" | ApplyFailed 'e

definition NewReorgEngine :: "'c \<Rightarrow> 'c ReorgEngine" where
  "NewReorgEngine c = \<lparr>re_ffi = c, ringBuffer = NewRingBuffer, reorgCount = 0, reorgEvents = []\<rparr>"

section \<open>Detection\<close>

text \<open>The backwards loop of \<open>findForkPoint\<close>: the argument is one above the index \<open>i\<close>.\<close>

fun fork_scan :: "(byte list \<Rightarrow> hash) \<Rightarrow> hash \<Rightarrow> block ring_buffer \<Rightarrow> nat \<Rightarrow> detect_error + u64" where
  "fork_scan sha256 parent rb 0 = Inl ForkPointNotFound"
| "fork_scan sha256 parent rb (Suc i) =
     (case Get (int i) rb of
        None \<Rightarrow> fork_scan sha256 parent rb i
      | Some b \<Rightarrow> if block_Hash sha256 b = parent then Inr (Number b)
                  else fork_scan sha256 parent rb i)"

definition findForkPoint :: "(byte list \<Rightarrow> hash) \<Rightarrow> block \<Rightarrow> 'c ReorgEngine \<Rightarrow> detect_error + u64" where
  "findForkPoint sha256 newBlock re =
     fork_scan sha256 (ParentHash newBlock) (ringBuffer re) (nat (Size (ringBuffer re)))"

definition DetectReorg ::
  "(byte list \<Rightarrow> hash) \<Rightarrow> block \<Rightarrow> 'c ReorgEngine \<Rightarrow> detect_error + (bool \<times> u64)" where
  "DetectReorg sha256 newBlock re =
     (if Size (ringBuffer re) = 0 then Inr (False, 0)
      else (case Latest (ringBuffer re) of
          None \<Rightarrow> Inr (False, 0)
        | Some prevBlock \<Rightarrow>
            if ParentHash newBlock = block_Hash sha256 prevBlock then Inr (False, 0)
            else (case findForkPoint sha256 newBlock re of
                Inl e \<Rightarrow> Inl e
              | Inr forkPoint \<Rightarrow>
                  (let depth = sint (Number prevBlock - forkPoint)
                   in if depth > MaxReorgDepth then Inl (DepthExceeded depth)
                      else Inr (True, forkPoint)))))"

section \<open>Recovery\<close>

definition Rollback ::
  "('c, 'e) FFIClient \<Rightarrow> u64 \<Rightarrow> 'c ReorgEngine \<Rightarrow> 'c ReorgEngine \<times> ('e + unit)" where
  "Rollback cl forkPoint re =
     (case client_RollbackTo cl forkPoint (re_ffi re) of (c, r) \<Rightarrow> (re\<lparr>re_ffi := c\<rparr>, r))"

text \<open>The clock is read three times: at the start, by \<open>time.Since\<close> and for the time stamp. A
  \<open>time.Duration\<close> has at most \<open>2 ^ 63\<close> nanoseconds, so its milliseconds are exact as a float64.\<close>

definition HandleReorg ::
  "('c, 'e) FFIClient \<Rightarrow> int \<times> int \<times> int \<Rightarrow> u64 \<Rightarrow> block \<Rightarrow> 'c ReorgEngine \<Rightarrow>
   'c ReorgEngine \<times> ('e handle_error + unit)" where
  "HandleReorg cl clk forkPoint newBlock re =
     (case clk of (start, since, stamp) \<Rightarrow>
      (let prevTip = Latest (ringBuffer re);
           depth = (case prevTip of
                      Some t \<Rightarrow> if Number t > forkPoint then sint (Number t - forkPoint) else 0
                    | None \<Rightarrow> 0)
       in (case Rollback cl forkPoint re of
             (re1, Inl e) \<Rightarrow> (re1, Inl (ForkRollbackFailed e))
           | (re1, Inr _) \<Rightarrow>
               (case client_ApplyBlock cl newBlock (re_ffi re1) of
                  (c, Inl e) \<Rightarrow> (re1\<lparr>re_ffi := c\<rparr>, Inl (ReplayFailed e))
                | (c, Inr _) \<Rightarrow>
                    (let rb = Add (Some newBlock) (Truncate (sint forkPoint) (ringBuffer re1));
                         event = \<lparr>ev_Timestamp = stamp, ForkPoint = forkPoint, Depth = depth,
                                  RollbackDurationMs = go_quot (since - start) 1000000\<rparr>
                     in (re1\<lparr>re_ffi := c, ringBuffer := rb,
                             reorgEvents := reorgEvents re1 @ [event],
                             reorgCount := reorgCount re1 + 1\<rparr>, Inr ()))))))"

definition ProcessBlock ::
  "('c, 'e) FFIClient \<Rightarrow> (byte list \<Rightarrow> hash) \<Rightarrow> int \<times> int \<times> int \<Rightarrow> block \<Rightarrow> 'c ReorgEngine \<Rightarrow>
   'c ReorgEngine \<times> ('e process_error + unit)" where
  "ProcessBlock cl sha256 clk blk re =
     (case DetectReorg sha256 blk re of
        Inl e \<Rightarrow> (re, Inl (DetectionFailed e))
      | Inr (isReorg, forkPoint) \<Rightarrow>
          if isReorg then
            (case HandleReorg cl clk forkPoint blk re of
               (re', Inl e) \<Rightarrow> (re', Inl (HandlingFailed e))
             | (re', Inr _) \<Rightarrow> (re', Inr ()))
          else
            (case client_ApplyBlock cl blk (re_ffi re) of
               (c, Inl e) \<Rightarrow> (re\<lparr>re_ffi := c\<rparr>, Inl (ApplyFailed e))
             | (c, Inr _) \<Rightarrow> (re\<lparr>re_ffi := c, ringBuffer := Add (Some blk) (ringBuffer re)\<rparr>, Inr ())))"

section \<open>Statistics\<close>

definition GetReorgHistoryLocked :: "int \<Rightarrow> 'c ReorgEngine \<Rightarrow> ReorgEvent list" where
  "GetReorgHistoryLocked limit re =
     (let n = int (length (reorgEvents re));
          l = (if limit \<le> 0 \<or> limit > n then n else limit);
          start = (if n - l < 0 then 0 else n - l)
      in drop (nat start) (reorgEvents re))"

definition GetReorgHistory :: "int \<Rightarrow> 'c ReorgEngine \<Rightarrow> ReorgEvent list" where
  "GetReorgHistory limit re =
     (let n = int (length (reorgEvents re));
          l = (if limit \<le> 0 \<or> limit > n then n else limit);
          start = (if n - l < 0 then 0 else n - l)
      in drop (nat start) (reorgEvents re))"

definition GetReorgCount :: "'c ReorgEngine \<Rightarrow> i64" where
  "GetReorgCount re = reorgCount re"

record ReorgStats =
  ReorgCount :: i64
  BufferSize :: int
  RecentReorgs :: "ReorgEvent list"

definition Reorg_GetStats :: "'c ReorgEngine \<Rightarrow> ReorgStats" where
  "Reorg_GetStats re = \<lparr>ReorgCount = reorgCount re, BufferSize = Size (ringBuffer re),
     RecentReorgs = GetReorgHistoryLocked 10 re\<rparr>"

section \<open>What the buffer holds\<close>

text \<open>No operation of the engine puts a nil pointer among the counted slots.\<close>

definition no_nil :: "block ring_buffer \<Rightarrow> bool" where
  "no_nil rb \<longleftrightarrow> rb_inv rb \<and> (\<forall>i < nat (rb_size rb). rb_blocks rb ! i \<noteq> None)"

lemma no_nil_New [simp]: "no_nil NewRingBuffer"
  by (simp add: no_nil_def) (simp add: NewRingBuffer_def)

lemma no_nil_Add: "no_nil rb \<Longrightarrow> no_nil (Add (Some b) rb)"
  using rb_inv_Add [of rb "Some b"]
  by (auto simp: no_nil_def Add_def MaxReorgDepth_def rb_inv_def nth_list_update nat_add_distrib
      less_Suc_eq split: if_splits)

lemma no_nil_Truncate: "no_nil rb \<Longrightarrow> no_nil (Truncate k rb)"
  using rb_inv_Truncate [of rb k] by (auto simp: no_nil_def Truncate_def Let_def split: if_splits)

lemma no_nil_list:
  assumes "no_nil rb"
  shows "\<exists>bs. rb_list rb = map Some bs"
proof -
  have inv: "rb_inv rb" using assms by (simp add: no_nil_def)
  have "x \<noteq> None" if "x \<in> set (rb_list rb)" for x
  proof -
    from that obtain i where i: "i < nat (rb_size rb)" "x = Get (int i) rb" by (auto simp: rb_list_def)
    then have x: "x = rb_blocks rb ! nat ((rb_index rb - rb_size rb + int i) mod 10)"
      using Get_slot [OF inv, of "int i"] by simp
    have "nat ((rb_index rb - rb_size rb + int i) mod 10) < nat (rb_size rb)"
    proof (cases "rb_size rb = 10")
      case True
      then show ?thesis by (simp add: nat_less_iff)
    next
      case False
      with inv have "rb_size rb < 10" "rb_index rb = rb_size rb" by (simp_all add: rb_inv_def)
      moreover from this i have "int i mod 10 = int i" by (intro mod_pos_pos_trivial) linarith+
      ultimately show ?thesis using i by simp
    qed
    with x assms show ?thesis by (simp add: no_nil_def)
  qed
  then have "rb_list rb = map Some (map the (rb_list rb))"
    by (auto simp: comp_def intro!: nth_equalityI)
  then show ?thesis by blast
qed

text \<open>The newest block of a list with a given hash.\<close>

definition newest_with :: "(byte list \<Rightarrow> hash) \<Rightarrow> hash \<Rightarrow> block list \<Rightarrow> block option" where
  "newest_with sha256 h bs = find (\<lambda>b. block_Hash sha256 b = h) (rev bs)"

lemma newest_with_Some:
  "newest_with sha256 h bs = Some b \<Longrightarrow> b \<in> set bs \<and> block_Hash sha256 b = h"
  by (auto simp: newest_with_def find_Some_iff) (metis length_rev nth_mem set_rev)

lemma newest_with_None: "newest_with sha256 h bs = None \<longleftrightarrow> (\<forall>b\<in>set bs. block_Hash sha256 b \<noteq> h)"
  by (auto simp: newest_with_def find_None_iff)

lemma fork_scan_list:
  assumes "rb_list rb = map Some bs" and "k \<le> length bs"
  shows "fork_scan sha256 h rb k =
    (case newest_with sha256 h (take k bs) of None \<Rightarrow> Inl ForkPointNotFound | Some b \<Rightarrow> Inr (Number b))"
  using assms(2)
proof (induction k)
  case 0
  then show ?case by (simp add: newest_with_def)
next
  case (Suc k)
  have len: "nat (rb_size rb) = length bs" using arg_cong [OF assms(1), of length] by simp
  with Suc.prems have "Get (int k) rb = Some (bs ! k)"
    using Get_rb_list [of "int k" rb] assms(1) by simp
  with Suc show ?case by (simp add: take_Suc_conv_app_nth newest_with_def)
qed

lemma buffer_views:
  assumes "rb_inv rb" and "rb_list rb = map Some bs"
  shows "Size rb = int (length bs)" and "Latest rb = (if bs = [] then None else Some (last bs))"
  using length_size [OF assms(1)] Latest_rb_list [OF assms(1)] assms(2)
  by (simp_all add: Size_def last_map)

lemma DetectReorg_list:
  assumes "rb_inv (ringBuffer re)" and "rb_list (ringBuffer re) = map Some bs"
  shows "DetectReorg sha256 blk re =
    (if bs = [] \<or> block_Hash sha256 (last bs) = ParentHash blk then Inr (False, 0)
     else (case newest_with sha256 (ParentHash blk) bs of
         None \<Rightarrow> Inl ForkPointNotFound
       | Some b \<Rightarrow> if sint (Number (last bs) - Number b) > 10
                   then Inl (DepthExceeded (sint (Number (last bs) - Number b)))
                   else Inr (True, Number b)))"
  using buffer_views [OF assms] fork_scan_list [OF assms(2) order_refl, of sha256 "ParentHash blk"]
  by (auto simp: DetectReorg_def findForkPoint_def Let_def MaxReorgDepth_def split: option.splits)

text \<open>C19: what counts as a reorganisation. With the blocks \<open>bs\<close> in the buffer, from oldest to
  newest, a block is ordinary when there are none or its parent hash is the hash of the newest;
  otherwise the fork point is the number of the newest buffered block whose hash is the parent
  hash, and the block is refused when there is none or the fork lies more than ten numbers back.\<close>

theorem DetectReorg_spec:
  assumes "rb_inv (ringBuffer re)" and "rb_list (ringBuffer re) = map Some bs"
  shows "DetectReorg sha256 blk re =
    (if bs = [] \<or> block_Hash sha256 (last bs) = ParentHash blk then Inr (False, 0)
     else (case newest_with sha256 (ParentHash blk) bs of
         None \<Rightarrow> Inl ForkPointNotFound
       | Some b \<Rightarrow> if sint (Number (last bs) - Number b) > 10
                   then Inl (DepthExceeded (sint (Number (last bs) - Number b)))
                   else Inr (True, Number b)))"
  using assms by (rule DetectReorg_list)

definition sample_engine :: "unit ReorgEngine" where
  "sample_engine = (NewReorgEngine ())\<lparr>ringBuffer :=
     fold (\<lambda>n. Add (Some (empty_block n))) [1, 2, 3] NewRingBuffer\<rparr>"

text \<open>A digest that copies the low byte of the block number, enough to tell small blocks apart.\<close>

definition number_digest :: "byte list \<Rightarrow> hash" where
  "number_digest m = replicate 31 0 @ [m ! 7]"

theorem DetectReorg_spec_witness:
  "DetectReorg number_digest ((empty_block 3)\<lparr>ParentHash := replicate 31 0 @ [2]\<rparr>) sample_engine =
     Inr (True, 2)"
proof -
  have l: "rb_list (ringBuffer sample_engine) = map Some [empty_block 1, empty_block 2, empty_block 3]"
    using ring.contents_puts_empty [of NewRingBuffer "map Some [empty_block 1, empty_block 2, empty_block 3]"]
    by (simp add: sample_engine_def last_n_def)
  have "rb_inv (ringBuffer sample_engine)"
    using ring.inv_puts [of NewRingBuffer "map Some [empty_block 1, empty_block 2, empty_block 3]"]
    by (simp add: sample_engine_def)
  from DetectReorg_spec [OF this l] show ?thesis
    by (simp add: newest_with_def block_Hash_def number_digest_def hash_buf_def empty_block_def)
qed

section \<open>The contract between the engine and its client\<close>

text \<open>
  What the reorg engine relies on: a block that applies is the successor of the client's tip and
  becomes the tip, a rollback moves the tip to its target, and a failing call leaves the tip.
\<close>

locale ffi_client =
  fixes cl :: "('c, 'e) FFIClient" and tip :: "'c \<Rightarrow> u64" and inv :: "'c \<Rightarrow> bool"
    and ok :: "block \<Rightarrow> bool"
  assumes client_apply: "inv c \<Longrightarrow> ok blk \<Longrightarrow> client_ApplyBlock cl blk c = (c', r) \<Longrightarrow>
      inv c' \<and> (case r of Inr _ \<Rightarrow> tip c' = Number blk \<and> Number blk = tip c + 1 | Inl _ \<Rightarrow> tip c' = tip c)"
    and client_rollback: "inv c \<Longrightarrow> client_RollbackTo cl n c = (c', q) \<Longrightarrow>
      inv c' \<and> (case q of Inr _ \<Rightarrow> tip c' = n | Inl _ \<Rightarrow> tip c' = tip c)"
begin

lemma HandleReorg_outcome:
  assumes "inv (re_ffi re)" and "ok blk" and "no_nil (ringBuffer re)"
    and "HandleReorg cl clk fork blk re = (re', r)"
  shows "inv (re_ffi re') \<and> no_nil (ringBuffer re') \<and> (case r of
      Inr _ \<Rightarrow> tip (re_ffi re') = Number blk \<and> Number blk = fork + 1 \<and>
        ringBuffer re' = Add (Some blk) (Truncate (sint fork) (ringBuffer re))
    | Inl e \<Rightarrow> ringBuffer re' = ringBuffer re \<and> reorgEvents re' = reorgEvents re \<and>
        reorgCount re' = reorgCount re \<and>
        tip (re_ffi re') = (case e of ReplayFailed _ \<Rightarrow> fork | ForkRollbackFailed _ \<Rightarrow> tip (re_ffi re)))"
proof -
  obtain c1 q1 where rb: "client_RollbackTo cl fork (re_ffi re) = (c1, q1)" by fastforce
  note r1 = client_rollback [OF assms(1) rb]
  obtain c2 q2 where ap: "client_ApplyBlock cl blk c1 = (c2, q2)" by fastforce
  note r2 = client_apply [OF _ assms(2) ap]
  show ?thesis
    using assms(3,4) r1 r2 rb ap
    by (cases clk; cases q1; cases q2)
      (auto simp: HandleReorg_def Rollback_def Let_def no_nil_Add no_nil_Truncate)
qed

lemma ProcessBlock_contract:
  assumes "inv (re_ffi re)" and "ok blk" and "no_nil (ringBuffer re)"
    and "ProcessBlock cl sha256 clk blk re = (re', r)"
  shows "inv (re_ffi re') \<and> no_nil (ringBuffer re') \<and> (case r of
      Inr _ \<Rightarrow> tip (re_ffi re') = Number blk \<and> Latest (ringBuffer re') = Some blk
    | Inl e \<Rightarrow> ringBuffer re' = ringBuffer re \<and> reorgEvents re' = reorgEvents re \<and>
        reorgCount re' = reorgCount re \<and>
        (case e of HandlingFailed (ReplayFailed _) \<Rightarrow>
             DetectReorg sha256 blk re = Inr (True, tip (re_ffi re'))
         | _ \<Rightarrow> tip (re_ffi re') = tip (re_ffi re)))"
proof -
  have latest: "Latest (Add (Some blk) rb) = Some blk" if "no_nil rb" for rb
    using that rb_inv_Add [of rb "Some blk"] rb_list_Add [of rb "Some blk"]
      Latest_rb_list [of "Add (Some blk) rb"] last_n_snoc_nonempty [of 10 "rb_list rb" "Some blk"]
    by (simp add: no_nil_def)
  show ?thesis
  proof (cases "DetectReorg sha256 blk re")
    case (Inl e)
    with assms show ?thesis by (auto simp: ProcessBlock_def)
  next
    case (Inr d)
    obtain isR fork where d: "d = (isR, fork)" by fastforce
    show ?thesis
    proof (cases isR)
      case True
      obtain re1 q where h: "HandleReorg cl clk fork blk re = (re1, q)" by fastforce
      from HandleReorg_outcome [OF assms(1-3) h] latest [OF no_nil_Truncate [OF assms(3)]]
        assms(4) Inr d True h show ?thesis
        by (cases q) (auto simp: ProcessBlock_def split: handle_error.splits)
    next
      case False
      obtain c q where a: "client_ApplyBlock cl blk (re_ffi re) = (c, q)" by fastforce
      from client_apply [OF assms(1,2) a] latest [OF assms(3)] no_nil_Add [OF assms(3)]
        assms(3,4) Inr d False a show ?thesis
        by (cases q) (auto simp: ProcessBlock_def)
    qed
  qed
qed

end

text \<open>The client the program uses is the FFI struct.\<close>

definition go_ffi :: "(byte list \<Rightarrow> hash) \<Rightarrow> (ffi_state, ffi_error) FFIClient" where
  "go_ffi blake3 = \<lparr>client_ApplyBlock = \<lambda>b. ApplyBlock blake3 (Some b), client_RollbackTo = RollbackTo\<rparr>"

lemma go_ffi_simps [simp]:
  "client_ApplyBlock (go_ffi blake3) b = ApplyBlock blake3 (Some b)"
  "client_RollbackTo (go_ffi blake3) = RollbackTo"
  by (simp_all add: go_ffi_def)

interpretation go_client: ffi_client "go_ffi blake3" lastBlockNumber
  "\<lambda>f. digest32 blake3 \<and> synced f" wf_block
proof unfold_locales
  fix c blk c' and r :: "ffi_error + hash"
  assume "digest32 blake3 \<and> synced c" "wf_block blk" "client_ApplyBlock (go_ffi blake3) blk c = (c', r)"
  then show "(digest32 blake3 \<and> synced c') \<and> (case r of
      Inr _ \<Rightarrow> lastBlockNumber c' = Number blk \<and> Number blk = lastBlockNumber c + 1
    | Inl _ \<Rightarrow> lastBlockNumber c' = lastBlockNumber c)"
    using ApplyBlock_synced [of blake3 c blk c' r] by (cases r) auto
next
  fix c c' n and q :: "ffi_error + unit"
  assume "digest32 blake3 \<and> synced c" "client_RollbackTo (go_ffi blake3) n c = (c', q)"
  then show "(digest32 blake3 \<and> synced c') \<and>
      (case q of Inr _ \<Rightarrow> lastBlockNumber c' = n | Inl _ \<Rightarrow> lastBlockNumber c' = lastBlockNumber c)"
    using RollbackTo_synced [of c n c' q] by (cases q) auto
qed

section \<open>Outcome of a block\<close>

text \<open>C18: what a call of \<open>ProcessBlock\<close> leaves behind. If it succeeds, the engine is at the new
  block and the block is the latest in the buffer. If it fails, buffer, events and counter are as
  before; the chain position is as before too, except when a reorganisation was rolled back and
  its new block then refused: the engine stays at the fork point.\<close>

theorem ProcessBlock_outcome:
  assumes "digest32 blake3" and "synced (re_ffi re)" and "wf_block blk" and "no_nil (ringBuffer re)"
    and "ProcessBlock (go_ffi blake3) sha256 clk blk re = (re', r)"
  shows "synced (re_ffi re') \<and> no_nil (ringBuffer re') \<and> (case r of
      Inr _ \<Rightarrow> lastBlockNumber (re_ffi re') = Number blk \<and> Latest (ringBuffer re') = Some blk
    | Inl e \<Rightarrow> ringBuffer re' = ringBuffer re \<and> reorgEvents re' = reorgEvents re \<and>
        reorgCount re' = reorgCount re \<and>
        (case e of HandlingFailed (ReplayFailed _) \<Rightarrow>
             DetectReorg sha256 blk re = Inr (True, lastBlockNumber (re_ffi re'))
         | _ \<Rightarrow> lastBlockNumber (re_ffi re') = lastBlockNumber (re_ffi re)))"
  using go_client.ProcessBlock_contract [of blake3 re blk sha256 clk re' r] assms by auto

text \<open>One applied empty block, computed.\<close>

lemma ApplyBlock_empty:
  assumes "digest32 blake3" and "engine f = Some e" and "lastBlockNumber f = block_number e"
    and "wf_block blk" and "Transactions blk = []" and "Number blk = block_number e + 1"
  shows "ApplyBlock blake3 (Some blk) f =
    (f\<lparr>engine := Some ((push_snapshot e)\<lparr>block_number := Number blk,
                           state_root := calculate_state_root blake3 (state e)\<rparr>),
       lastBlockNumber := Number blk\<rparr>, Inr (calculate_state_root blake3 (state e)))"
proof -
  have "ValidateBlock (Some blk) (lastBlockNumber f) = Inr ()"
    using assms(3-6) by (simp add: ValidateBlock_def wf_block_def)
  note t = ApplyBlock_through [OF assms(1,2,4) this]
  have "\<not> length (encode_block blk) > MaxBlockSize"
    using assms(4,5) by (simp add: length_encode_block MaxBlockSize_def)
  with t show ?thesis using assms(5,6) by (simp add: apply_block_def Let_def)
qed

text \<open>Three blocks on a fresh engine, and the two blocks that fork off the first one.\<close>

definition chain_block :: "u64 \<Rightarrow> nat \<Rightarrow> block" where
  "chain_block n parent = (empty_block n)\<lparr>ParentHash := replicate 31 0 @ [of_nat parent]\<rparr>"

definition zero_digest :: "byte list \<Rightarrow> hash" where
  "zero_digest m = replicate 32 0"

lemma digest32_zero: "digest32 zero_digest"
  by (simp add: digest32_def zero_digest_def)

lemma chain_block_simps [simp]:
  "wf_block (chain_block n p)" "Transactions (chain_block n p) = []" "Number (chain_block n p) = n"
  "ParentHash (chain_block n p) = replicate 31 0 @ [of_nat p]"
  "block_Hash number_digest (chain_block n p) = replicate 31 0 @ [ucast n]"
  by (simp_all add: chain_block_def empty_block_def wf_block_def block_Hash_def number_digest_def
      hash_buf_def)

section \<open>Following the chain\<close>

text \<open>
  The abstract view of fork choice: a block goes on top of the newest block of the chain whose
  hash it names as parent, and everything above that block is abandoned.
\<close>

definition kept :: "(byte list \<Rightarrow> hash) \<Rightarrow> hash \<Rightarrow> block list \<Rightarrow> block list" where
  "kept sha256 h chain = rev (dropWhile (\<lambda>b. block_Hash sha256 b \<noteq> h) (rev chain))"

definition extend_chain :: "(byte list \<Rightarrow> hash) \<Rightarrow> block \<Rightarrow> block list \<Rightarrow> block list" where
  "extend_chain sha256 blk chain = kept sha256 (ParentHash blk) chain @ [blk]"

lemma kept_prefix: "kept sha256 h chain = take (length (kept sha256 h chain)) chain"
proof -
  have "rev chain = takeWhile (\<lambda>b. block_Hash sha256 b \<noteq> h) (rev chain) @
      dropWhile (\<lambda>b. block_Hash sha256 b \<noteq> h) (rev chain)" by simp
  then have "chain = kept sha256 h chain @ rev (takeWhile (\<lambda>b. block_Hash sha256 b \<noteq> h) (rev chain))"
    unfolding kept_def by (metis rev_append rev_rev_ident)
  then show ?thesis by (metis append_eq_conv_conj)
qed

lemma newest_with_kept:
  "newest_with sha256 h chain = (if kept sha256 h chain = [] then None else Some (last (kept sha256 h chain)))"
  by (simp add: newest_with_def kept_def find_dropWhile comp_def last_rev
      del: dropWhile_eq_Nil_conv split: list.split)

lemma kept_whole: "chain \<noteq> [] \<Longrightarrow> block_Hash sha256 (last chain) = h \<Longrightarrow> kept sha256 h chain = chain"
  by (cases chain rule: rev_cases) (simp_all add: kept_def)

lemma kept_Nil [simp]: "kept sha256 h [] = []"
  by (simp add: kept_def)

definition numbered :: "block list \<Rightarrow> bool" where
  "numbered chain \<longleftrightarrow> (\<forall>i < length chain. Number (chain ! i) = of_nat (i + 1))"

lemma numbered_take: "numbered chain \<Longrightarrow> numbered (take n chain)"
  by (simp add: numbered_def)

lemma numbered_snoc: "numbered chain \<Longrightarrow> Number b = of_nat (length chain) + 1 \<Longrightarrow> numbered (chain @ [b])"
  by (auto simp: numbered_def nth_append less_Suc_eq)

lemma numbered_last: "numbered chain \<Longrightarrow> chain \<noteq> [] \<Longrightarrow> Number (last chain) = of_nat (length chain)"
  by (cases chain rule: rev_cases) (auto simp: numbered_def dest: spec [of _ "length chain - 1"])

text \<open>The whole system follows \<open>chain\<close>: the buffer holds it, and the Rust engine is in the state
  that applying it to a new engine gives.\<close>

definition follows :: "(byte list \<Rightarrow> hash) \<Rightarrow> block list \<Rightarrow> ffi_state ReorgEngine \<Rightarrow> bool" where
  "follows blake3 chain re \<longleftrightarrow> length chain \<le> 10 \<and> numbered chain \<and>
     rb_inv (ringBuffer re) \<and> rb_index (ringBuffer re) = rb_size (ringBuffer re) mod 10 \<and>
     rb_list (ringBuffer re) = map Some chain \<and> synced (re_ffi re) \<and>
     (\<exists>e. engine (re_ffi re) = Some e \<and> tracks blake3 chain e)"

lemma follows_new: "follows blake3 [] (NewReorgEngine fresh_ffi)"
  using tracks_new [of blake3] synced_fresh
  by (simp add: follows_def NewReorgEngine_def numbered_def fresh_ffi) (simp add: NewRingBuffer_def)

lemma follows_tip:
  assumes "follows blake3 chain re"
  shows "lastBlockNumber (re_ffi re) = of_nat (length chain)"
proof -
  obtain e where e: "engine (re_ffi re) = Some e" "tracks blake3 chain e" "synced (re_ffi re)"
    using assms by (auto simp: follows_def)
  have "unat (block_number e) = length chain"
    using tracks_number [OF e(2)] assms by (simp add: follows_def)
  then have "block_number e = of_nat (length chain)" by (simp flip: \<open>unat (block_number e) = length chain\<close>)
  with e show ?thesis by (simp add: synced_def)
qed

text \<open>Success of the bridge calls in terms of the Rust engine.\<close>

lemma ApplyBlock_tracks:
  assumes "digest32 blake3" and "wf_block blk" and "engine f = Some e" and "tracks blake3 chain e"
    and "ApplyBlock blake3 (Some blk) f = (f', Inr root)" and "length chain + 1 < 2 ^ 64"
  shows "\<exists>e'. engine f' = Some e' \<and> tracks blake3 (chain @ [blk]) e'"
proof -
  have v: "ValidateBlock (Some blk) (lastBlockNumber f) = Inr ()"
    using assms(5) by (cases "ValidateBlock (Some blk) (lastBlockNumber f)") (auto simp: ApplyBlock_def)
  obtain e' q where ab: "apply_block blake3 blk e = (e', q)" by fastforce
  from ApplyBlock_through [OF assms(1,3,2) v] assms(5) ab obtain r where
    "q = Inr r" "engine f' = Some e'" by (auto split: if_splits sum.splits)
  with tracks_apply [OF assms(4) _ assms(6)] ab show ?thesis by auto
qed

lemma RollbackTo_tracks:
  assumes "engine f = Some e" and "tracks blake3 chain e" and "RollbackTo n f = (f', Inr u)"
    and "length chain < 2 ^ 64"
  shows "\<exists>e'. engine f' = Some e' \<and> tracks blake3 (take (unat n) chain) e'"
proof -
  obtain e' q where rb: "rollback_to n e = (e', q)" by fastforce
  with assms(1,3) have "q = Inr ()" "engine f' = Some e'"
    by (cases q; auto simp: RollbackTo_def c_rollback_to_def)+
  with rb tracks_rollback [OF assms(2) _ assms(4)] show ?thesis by auto
qed

lemma sint_small: "k < 2 ^ 63 \<Longrightarrow> sint (of_nat k :: u64) = int k"
  by (subst signed_of_nat) (simp add: signed_take_bit_int_eq_self)

lemma follows_ProcessBlock:
  assumes "digest32 blake3" and "wf_block blk" and "follows blake3 chain re" and "length chain < 10"
    and "ProcessBlock (go_ffi blake3) sha256 clk blk re = (re', Inr ())"
  shows "follows blake3 (extend_chain sha256 blk chain) re'"
proof -
  from assms(3) obtain e where f: "numbered chain" "rb_inv (ringBuffer re)"
    "rb_index (ringBuffer re) = rb_size (ringBuffer re) mod 10"
    "rb_list (ringBuffer re) = map Some chain" "synced (re_ffi re)"
    "engine (re_ffi re) = Some e" "tracks blake3 chain e" by (auto simp: follows_def)
  note tip = follows_tip [OF assms(3)]
  note det = DetectReorg_list [OF f(2,4), of sha256 blk]
  show ?thesis
  proof (cases "chain = [] \<or> block_Hash sha256 (last chain) = ParentHash blk")
    case True
    then have ext: "extend_chain sha256 blk chain = chain @ [blk]"
      by (cases "chain = []") (simp_all add: extend_chain_def kept_whole)
    obtain f' root where ap: "ApplyBlock blake3 (Some blk) (re_ffi re) = (f', Inr root)"
      and re': "re' = re\<lparr>re_ffi := f', ringBuffer := Add (Some blk) (ringBuffer re)\<rparr>"
      using assms(5) det True by (auto simp: ProcessBlock_def split: prod.splits sum.splits)
    have "synced f'" "Number blk = of_nat (length chain) + 1"
      using ApplyBlock_synced [OF assms(1) f(5) assms(2) ap] tip by auto
    moreover have "\<exists>e'. engine f' = Some e' \<and> tracks blake3 (chain @ [blk]) e'"
      using ApplyBlock_tracks [OF assms(1,2) f(6,7) ap] assms(4) by simp
    moreover have "rb_list (Add (Some blk) (ringBuffer re)) = map Some (chain @ [blk])"
      using rb_list_Add [OF f(2), of "Some blk"] f(4) assms(4) by (simp add: last_n_short)
    moreover have "rb_index (Add (Some blk) (ringBuffer re)) = rb_size (Add (Some blk) (ringBuffer re)) mod 10"
      using Add_aligned [OF f(2,3)] length_size [OF f(2)] f(4) assms(4) by simp
    ultimately show ?thesis
      using numbered_snoc [OF f(1)] rb_inv_Add [OF f(2)] assms(4)
      by (simp add: follows_def ext re')
  next
    case False
    let ?k = "kept sha256 (ParentHash blk) chain"
    have nz: "?k \<noteq> []" and det': "DetectReorg sha256 blk re = Inr (True, Number (last ?k))"
      using det False assms(5)
      by (auto simp: newest_with_kept ProcessBlock_def split: if_splits)
    have pre: "?k = take (length ?k) chain" by (rule kept_prefix)
    then have lk: "length ?k \<le> length chain" by (metis length_take min.cobounded1 min.commute)
    have nk: "numbered ?k" using numbered_take [OF f(1)] pre by metis
    have fork: "Number (last ?k) = of_nat (length ?k)" by (rule numbered_last [OF nk nz])
    have sk: "sint (Number (last ?k)) = int (length ?k)" "unat (Number (last ?k)) = length ?k"
      using fork lk assms(4) by (simp_all add: sint_small unat_of_nat take_bit_eq_mod)
    obtain f1 f' root u where rb: "RollbackTo (Number (last ?k)) (re_ffi re) = (f1, Inr u)"
      and ap: "ApplyBlock blake3 (Some blk) f1 = (f', Inr root)"
      and re': "re_ffi re' = f'"
        "ringBuffer re' = Add (Some blk) (Truncate (sint (Number (last ?k))) (ringBuffer re))"
      using assms(5) det'
      by (cases clk) (auto simp: ProcessBlock_def HandleReorg_def Rollback_def Let_def
          split: prod.splits sum.splits)
    let ?rb = "Truncate (int (length ?k)) (ringBuffer re)"
    have l: "rb_inv ?rb" "rb_list ?rb = map Some ?k" "rb_index ?rb = rb_size ?rb mod 10"
      using rb_inv_Truncate [OF f(2)] Truncate_aligned [OF f(2,3), of "int (length ?k)"] f(4) pre
      by (simp_all add: take_map)
    have s1: "synced f1" "lastBlockNumber f1 = of_nat (length ?k)"
      using RollbackTo_synced [OF f(5) rb] fork by simp_all
    obtain e1 where e1: "engine f1 = Some e1" "tracks blake3 ?k e1"
      using RollbackTo_tracks [OF f(6,7) rb] sk(2) pre assms(4) by auto
    have "synced f'" "Number blk = of_nat (length ?k) + 1"
      using ApplyBlock_synced [OF assms(1) s1(1) assms(2) ap] s1(2) by auto
    moreover have "\<exists>e'. engine f' = Some e' \<and> tracks blake3 (?k @ [blk]) e'"
      using ApplyBlock_tracks [OF assms(1,2) e1 ap] lk assms(4) by simp
    moreover have "rb_list (Add (Some blk) ?rb) = map Some (?k @ [blk])"
      using rb_list_Add [OF l(1), of "Some blk"] l(2) lk assms(4) by (simp add: last_n_short)
    moreover have "rb_index (Add (Some blk) ?rb) = rb_size (Add (Some blk) ?rb) mod 10"
      using Add_aligned [OF l(1,3)] length_size [OF l(1)] l(2) lk assms(4) by simp
    ultimately show ?thesis
      using numbered_snoc [OF nk] rb_inv_Add [OF l(1)] lk assms(4)
      by (simp add: follows_def extend_chain_def re' sk)
  qed
qed

text \<open>Processing a list of blocks with their clock readings; \<open>None\<close> at the first error.\<close>

fun process_all ::
  "('c, 'e) FFIClient \<Rightarrow> (byte list \<Rightarrow> hash) \<Rightarrow> ((int \<times> int \<times> int) \<times> block) list \<Rightarrow> 'c ReorgEngine \<Rightarrow>
   'c ReorgEngine option" where
  "process_all cl sha256 [] re = Some re"
| "process_all cl sha256 ((clk, b) # bs) re =
     (case ProcessBlock cl sha256 clk b re of
        (re', Inr _) \<Rightarrow> process_all cl sha256 bs re' | (re', Inl _) \<Rightarrow> None)"

lemma process_all_snoc:
  "process_all cl sha256 xs re = Some re1 \<Longrightarrow> ProcessBlock cl sha256 clk b re1 = (re2, Inr u) \<Longrightarrow>
     process_all cl sha256 (xs @ [(clk, b)]) re = Some re2"
  by (induction cl sha256 xs re rule: process_all.induct) (auto split: prod.splits sum.splits)

lemma length_extend_chain: "length (extend_chain sha256 blk chain) \<le> length chain + 1"
proof -
  have "length (kept sha256 h chain) \<le> length chain" for h
    by (metis kept_prefix length_take min.cobounded1 min.commute)
  then show ?thesis by (simp add: extend_chain_def)
qed

lemma follows_process_all:
  assumes "digest32 blake3"
  shows "follows blake3 chain re \<Longrightarrow> list_all wf_block (map snd bs) \<Longrightarrow> length chain + length bs \<le> 10 \<Longrightarrow>
    process_all (go_ffi blake3) sha256 bs re = Some re' \<Longrightarrow>
    follows blake3 (fold (extend_chain sha256) (map snd bs) chain) re'"
proof (induction bs arbitrary: re chain)
  case Nil
  then show ?case by simp
next
  case (Cons cb bs)
  obtain clk b where cb: "cb = (clk, b)" by fastforce
  from Cons.prems(4) obtain re1 where p: "ProcessBlock (go_ffi blake3) sha256 clk b re = (re1, Inr ())"
    "process_all (go_ffi blake3) sha256 bs re1 = Some re'"
    by (auto simp: cb split: prod.splits sum.splits)
  have "follows blake3 (extend_chain sha256 b chain) re1"
    using follows_ProcessBlock [OF assms _ Cons.prems(1) _ p(1)] Cons.prems(2,3) cb by simp
  from Cons.IH [OF this _ _ p(2)] Cons.prems(2,3) length_extend_chain [of sha256 b chain] cb
  show ?case by simp
qed

text \<open>C1: the system follows the fork choice. If a freshly initialised engine processes up to ten
  blocks without error, then, whatever forks they contain, the buffer holds exactly the chain that
  fork choice selects, the bridge is at its length, and the Rust engine has the accounts, the
  block number and the state root that a new engine has after applying just that chain: no effect
  of an abandoned block survives.\<close>

theorem reorg_follows_chain:
  assumes "digest32 blake3" and "list_all wf_block (map snd bs)" and "length bs \<le> 10"
    and "process_all (go_ffi blake3) sha256 bs (NewReorgEngine fresh_ffi) = Some re"
    and "chain = fold (extend_chain sha256) (map snd bs) []"
  shows "rb_list (ringBuffer re) = map Some chain \<and>
    lastBlockNumber (re_ffi re) = of_nat (length chain) \<and>
    (\<exists>e f. engine (re_ffi re) = Some e \<and> apply_blocks blake3 chain engine_new = Some f \<and>
       state e = state f \<and> block_number e = block_number f \<and> state_root e = state_root f)"
proof -
  have "follows blake3 chain re"
    using follows_process_all [OF assms(1) follows_new assms(2) _ assms(4)] assms(3,5) by simp
  from this follows_tip [OF this] show ?thesis
    by (auto simp: follows_def tracks_def snap_after_def snapshot_of_def)
qed

lemma ProcessBlock_fork:
  assumes "DetectReorg sha256 blk re = Inr (True, n)" and "RollbackTo n (re_ffi re) = (c1, Inr u)"
    and "ApplyBlock blake3 (Some blk) c1 = (c, r)"
  shows "snd (ProcessBlock (go_ffi blake3) sha256 clk blk re) =
      (case r of Inr _ \<Rightarrow> Inr () | Inl e \<Rightarrow> Inl (HandlingFailed (ReplayFailed e)))"
    and "re_ffi (fst (ProcessBlock (go_ffi blake3) sha256 clk blk re)) = c"
  using assms by (cases clk; cases r; simp add: ProcessBlock_def HandleReorg_def Rollback_def Let_def)+

text \<open>Two blocks on a fresh engine.\<close>

definition engine1 :: state_engine where
  "engine1 = (push_snapshot engine_new)\<lparr>block_number := 1, state_root := replicate 32 0\<rparr>"

definition engine2 :: state_engine where
  "engine2 = (push_snapshot engine1)\<lparr>block_number := 2, state_root := replicate 32 0\<rparr>"

definition reorg2 :: "ffi_state ReorgEngine" where
  "reorg2 = \<lparr>re_ffi = \<lparr>lastBlockNumber = 2, engine = Some engine2\<rparr>,
     ringBuffer = Add (Some (chain_block 2 1)) (Add (Some (chain_block 1 0)) NewRingBuffer),
     reorgCount = 0, reorgEvents = []\<rparr>"

lemma engine12_simps [simp]:
  "block_number engine1 = 1" "state engine1 = fmempty" "block_number engine2 = 2" "state engine2 = fmempty"
  "history engine2 = [snapshot_of engine_new, snapshot_of engine1]"
  "block_number engine_new = 0" "state engine_new = fmempty"
  by (simp_all add: engine1_def engine2_def engine_new_def history_push_snapshot MAX_HISTORY_SIZE_def
      last_n_def snapshot_of_def)

lemma zero_root [simp]: "calculate_state_root zero_digest m = replicate 32 0"
  by (simp add: calculate_state_root_def zero_digest_def)

lemma ring2:
  "rb_list (ringBuffer reorg2) = map Some [chain_block 1 0, chain_block 2 1]" "no_nil (ringBuffer reorg2)"
  using ring.contents_puts_empty [of NewRingBuffer "[Some (chain_block 1 0), Some (chain_block 2 1)]"]
  by (simp_all add: reorg2_def last_n_def no_nil_Add)

lemma run2:
  "process_all (go_ffi zero_digest) number_digest
     [((0, 0, 0), chain_block 1 0), ((0, 0, 0), chain_block 2 1)] (NewReorgEngine fresh_ffi) = Some reorg2"
proof -
  let ?r1 = "\<lparr>re_ffi = \<lparr>lastBlockNumber = 1, engine = Some engine1\<rparr>,
    ringBuffer = Add (Some (chain_block 1 0)) NewRingBuffer, reorgCount = 0, reorgEvents = []\<rparr>"
  have "ProcessBlock (go_ffi zero_digest) number_digest (0, 0, 0) (chain_block 1 0)
      (NewReorgEngine fresh_ffi) = (?r1, Inr ())"
    using DetectReorg_list [of "NewReorgEngine fresh_ffi" "[]" number_digest "chain_block 1 0"]
      ApplyBlock_empty [OF digest32_zero, of fresh_ffi engine_new "chain_block 1 0"]
    by (simp add: ProcessBlock_def NewReorgEngine_def fresh_ffi engine1_def)
  moreover have "ProcessBlock (go_ffi zero_digest) number_digest (0, 0, 0) (chain_block 2 1) ?r1 =
      (reorg2, Inr ())"
    using DetectReorg_list [of ?r1 "[chain_block 1 0]" number_digest "chain_block 2 1"]
      ApplyBlock_empty [OF digest32_zero, of "re_ffi ?r1" engine1 "chain_block 2 1"]
    by (simp add: ProcessBlock_def rb_inv_Add rb_list_Add last_n_def engine2_def reorg2_def)
  ultimately show ?thesis by simp
qed

lemma detect2:
  "DetectReorg number_digest (chain_block n 1) reorg2 = Inr (True, 1)"
  using DetectReorg_list [OF _ ring2(1), of number_digest "chain_block n 1"] ring2(2)
  by (simp add: no_nil_def newest_with_def)

lemma rollback2:
  "RollbackTo 1 (re_ffi reorg2) =
     (\<lparr>lastBlockNumber = 1, engine = Some (engine1\<lparr>history := [snapshot_of engine_new, snapshot_of engine1]\<rparr>)\<rparr>,
      Inr ())"
  by (simp add: reorg2_def RollbackTo_def c_rollback_to_def rollback_to_def)
    (simp add: snapshot_of_def engine1_def engine2_def Let_def)

theorem ProcessBlock_outcome_witness:
  "\<exists>re'. ProcessBlock (go_ffi zero_digest) number_digest (0, 0, 0) (chain_block 3 9) reorg2 =
      (re', Inl (DetectionFailed ForkPointNotFound)) \<and> synced (re_ffi re') \<and>
      ringBuffer re' = ringBuffer reorg2 \<and> lastBlockNumber (re_ffi re') = 2"
proof -
  have "DetectReorg number_digest (chain_block 3 9) reorg2 = Inl ForkPointNotFound"
    using DetectReorg_list [OF _ ring2(1), of number_digest "chain_block 3 9"] ring2(2)
    by (simp add: no_nil_def newest_with_def)
  then have p: "ProcessBlock (go_ffi zero_digest) number_digest (0, 0, 0) (chain_block 3 9) reorg2 =
      (reorg2, Inl (DetectionFailed ForkPointNotFound))" by (simp add: ProcessBlock_def)
  have "synced (re_ffi reorg2)" "lastBlockNumber (re_ffi reorg2) = 2"
    by (simp_all add: reorg2_def synced_def)
  with ProcessBlock_outcome [OF digest32_zero _ _ ring2(2) p] p show ?thesis by auto
qed

theorem reorg_follows_chain_witness:
  "\<exists>re. process_all (go_ffi zero_digest) number_digest
      [((0, 0, 0), chain_block 1 0), ((0, 0, 0), chain_block 2 1), ((0, 7000000, 8000000), chain_block 2 1)]
      (NewReorgEngine fresh_ffi) = Some re \<and>
    rb_list (ringBuffer re) = map Some [chain_block 1 0, chain_block 2 1] \<and>
    lastBlockNumber (re_ffi re) = 2"
proof -
  let ?bs = "[((0, 0, 0), chain_block 1 0), ((0, 0, 0), chain_block 2 1), ((0, 7000000, 8000000), chain_block 2 1)]
    :: ((int \<times> int \<times> int) \<times> block) list"
  let ?e = "engine1\<lparr>history := [snapshot_of engine_new, snapshot_of engine1]\<rparr>"
  have "ApplyBlock zero_digest (Some (chain_block 2 1)) \<lparr>lastBlockNumber = 1, engine = Some ?e\<rparr> =
      (\<lparr>lastBlockNumber = 2, engine = Some ((push_snapshot ?e)\<lparr>block_number := 2, state_root := replicate 32 0\<rparr>)\<rparr>,
       Inr (replicate 32 0))"
    using ApplyBlock_empty [OF digest32_zero, of "\<lparr>lastBlockNumber = 1, engine = Some ?e\<rparr>" ?e "chain_block 2 1"]
    by simp
  from ProcessBlock_fork(1) [OF detect2 rollback2 this, of "(0, 7000000, 8000000)"]
  obtain re where "ProcessBlock (go_ffi zero_digest) number_digest (0, 7000000, 8000000) (chain_block 2 1) reorg2
      = (re, Inr ())" by (metis prod.collapse sum.case(2))
  from process_all_snoc [OF run2 this] have run: "process_all (go_ffi zero_digest) number_digest ?bs (NewReorgEngine fresh_ffi) = Some re"
    by (simp only: append.simps)
  have chain: "[chain_block 1 0, chain_block 2 1] = fold (extend_chain number_digest) (map snd ?bs) []"
    by (simp add: extend_chain_def kept_def)
  from reorg_follows_chain [OF digest32_zero _ _ run chain] run show ?thesis by auto
qed

section \<open>When a reorganisation goes wrong\<close>

text \<open>A refused replay strands the old branch. If a reorganisation was rolled back and its new
  block refused, the buffer still ends with the old tip although the engine is back at the fork
  point. The next block of the old branch looks ordinary to the detector, and is then refused by
  \<open>ApplyBlock\<close>, whatever it contains.\<close>

theorem failed_replay_strands_old_branch:
  assumes "digest32 blake3" and "synced (re_ffi re)" and "wf_block blk" and "no_nil (ringBuffer re)"
    and "ProcessBlock (go_ffi blake3) sha256 clk blk re = (re1, Inl (HandlingFailed (ReplayFailed e)))"
    and "Latest (ringBuffer re) = Some old" and "DetectReorg sha256 blk re = Inr (True, fork)"
    and "Number old \<noteq> fork"
    and "wf_block child" and "ParentHash child = block_Hash sha256 old" and "Number child = Number old + 1"
  shows "lastBlockNumber (re_ffi re1) = fork \<and> Latest (ringBuffer re1) = Some old \<and>
    DetectReorg sha256 child re1 = Inr (False, 0) \<and>
    (\<exists>err. snd (ProcessBlock (go_ffi blake3) sha256 clk' child re1) = Inl (ApplyFailed err))"
proof -
  from go_client.ProcessBlock_contract [of blake3 re blk sha256 clk re1] assms(1-5,7)
  have r1: "synced (re_ffi re1)" "no_nil (ringBuffer re1)" "ringBuffer re1 = ringBuffer re"
    "lastBlockNumber (re_ffi re1) = fork" by auto
  have det: "DetectReorg sha256 child re1 = Inr (False, 0)"
    using assms(6,10) r1(3) by (simp add: DetectReorg_def)
  obtain f r where ap: "ApplyBlock blake3 (Some child) (re_ffi re1) = (f, r)" by fastforce
  from ApplyBlock_synced [OF assms(1) r1(1) assms(9) ap] r1(4) assms(8,11)
  obtain err where "r = Inl err" by (cases r) auto
  with det ap r1 assms(6) show ?thesis by (simp add: ProcessBlock_def)
qed

text \<open>The witness: a fork block on block 1 whose number is 5 is rolled back and refused.\<close>

theorem failed_replay_strands_old_branch_witness:
  "\<exists>re1 err. ProcessBlock (go_ffi zero_digest) number_digest (0, 0, 0) (chain_block 5 1) reorg2 =
      (re1, Inl (HandlingFailed (ReplayFailed (BlockValidationFailed err)))) \<and>
    lastBlockNumber (re_ffi re1) = 1 \<and>
    (\<exists>err'. snd (ProcessBlock (go_ffi zero_digest) number_digest (0, 0, 0) (chain_block 3 2) re1) =
       Inl (ApplyFailed err'))"
proof -
  have "\<exists>err. ApplyBlock zero_digest (Some (chain_block 5 1)) (fst (RollbackTo 1 (re_ffi reorg2))) =
      (fst (RollbackTo 1 (re_ffi reorg2)), Inl (BlockValidationFailed err))"
    by (simp add: ApplyBlock_def ValidateBlock_def rollback2)
  then obtain err where "ApplyBlock zero_digest (Some (chain_block 5 1)) (fst (RollbackTo 1 (re_ffi reorg2))) =
      (fst (RollbackTo 1 (re_ffi reorg2)), Inl (BlockValidationFailed err))" by blast
  from ProcessBlock_fork(1) [OF detect2 rollback2 this [unfolded rollback2 fst_conv], of "(0, 0, 0)"]
  obtain re1 where p: "ProcessBlock (go_ffi zero_digest) number_digest (0, 0, 0) (chain_block 5 1) reorg2 =
      (re1, Inl (HandlingFailed (ReplayFailed (BlockValidationFailed err))))"
    by (metis prod.collapse sum.case(1))
  have "synced (re_ffi reorg2)" by (simp add: reorg2_def synced_def)
  moreover have "Latest (ringBuffer reorg2) = Some (chain_block 2 1)"
    using ring2 Latest_rb_list [of "ringBuffer reorg2"] by (simp add: no_nil_def)
  ultimately show ?thesis
    using failed_replay_strands_old_branch [OF digest32_zero _ _ ring2(2) p _ detect2, of "chain_block 2 1" "chain_block 3 2" "(0, 0, 0)"] p
    by auto
qed

text \<open>C28: once the buffer is full, a reorganisation beyond block 10 does not remove the abandoned
  blocks. \<open>Truncate\<close> is called with the number of the fork block where it expects a count, so it
  keeps all ten slots and restarts the ring at slot 0: the new block overwrites whatever block is
  there, and each other block, abandoned or not, is still found as a fork point later on.\<close>

theorem abandoned_blocks_stay:
  assumes "no_nil (ringBuffer re)" and "Size (ringBuffer re) = 10" and "10 \<le> sint fork"
    and "HandleReorg cl clk fork blk re = (re', Inr ())"
  shows "rb_list (ringBuffer re') = tl (rb_blocks (ringBuffer re)) @ [Some blk] \<and>
    set (rb_blocks (ringBuffer re)) = set (rb_list (ringBuffer re)) \<and>
    (\<forall>old. Some old \<in> set (tl (rb_blocks (ringBuffer re))) \<longrightarrow> ParentHash child = block_Hash sha256 old \<longrightarrow>
       (\<exists>n. findForkPoint sha256 child re' = Inr n))"
proof -
  let ?rb = "ringBuffer re"
  have inv: "rb_inv ?rb" and s: "rb_size ?rb = 10" using assms(1,2) by (simp_all add: no_nil_def Size_def)
  have "length (rb_blocks ?rb) = 10" using inv by (simp add: rb_inv_def)
  then obtain b0 bs where bs: "rb_blocks ?rb = b0 # bs" "length bs = 9"
    by (cases "rb_blocks ?rb") auto
  have re': "ringBuffer re' = Add (Some blk) (Truncate (sint fork) ?rb)"
    using assms(4) by (cases clk) (auto simp: HandleReorg_def Rollback_def Let_def split: prod.splits sum.splits)
  have "rb_list (Truncate (sint fork) ?rb) = b0 # bs"
    using rb_list_Truncate [OF inv, of "sint fork"] assms(3) s bs by simp
  then have l: "rb_list (ringBuffer re') = bs @ [Some blk]"
    using rb_list_Add [OF rb_inv_Truncate [OF inv]] bs(2) by (simp add: re' last_n_def del: length_rb_list)
  have set: "set (rb_blocks ?rb) = set (rb_list ?rb)" by (rule rb_list_full_set [OF inv s, symmetric])
  have nn: "no_nil (ringBuffer re')" by (simp add: re' no_nil_Add no_nil_Truncate assms(1))
  then obtain cs where cs: "rb_list (ringBuffer re') = map Some cs" using no_nil_list by blast
  have "\<exists>n. findForkPoint sha256 child re' = Inr n"
    if "Some old \<in> set bs" "ParentHash child = block_Hash sha256 old" for old
  proof -
    have "Some old \<in> set (map Some cs)" using that(1) l cs by (metis UnCI set_append)
    then have "newest_with sha256 (ParentHash child) cs \<noteq> None"
      using that(2) by (auto simp: newest_with_None)
    with fork_scan_list [OF cs order_refl, of sha256 "ParentHash child"]
      buffer_views(1) [OF _ cs] nn show ?thesis
      by (auto simp: findForkPoint_def no_nil_def)
  qed
  with l set bs show ?thesis by auto
qed

text \<open>Twelve blocks, then a fork after block 10: block 12 is abandoned and still a fork point.\<close>

definition twelve :: "block list" where
  "twelve = map (\<lambda>i. chain_block (of_nat i) (i - 1)) [1..<13]"

definition reorg12 :: "u64 ReorgEngine" where
  "reorg12 = (NewReorgEngine 12)\<lparr>ringBuffer := fold Add (map Some twelve) NewRingBuffer\<rparr>"

definition eager_client :: "(u64, unit) FFIClient" where
  "eager_client = \<lparr>client_ApplyBlock = \<lambda>b c. (Number b, Inr (replicate 32 0)),
     client_RollbackTo = \<lambda>n c. (n, Inr ())\<rparr>"

lemma no_nil_adds: "no_nil rb \<Longrightarrow> no_nil (fold Add (map Some bs) rb)"
  by (induction bs arbitrary: rb) (simp_all add: no_nil_Add)

lemma replicate_10: "replicate 10 x = [x, x, x, x, x, x, x, x, x, x]"
  by (simp add: eval_nat_numeral)

lemma blocks12: "rb_blocks (ringBuffer reorg12) =
    map Some [chain_block 11 10, chain_block 12 11, chain_block 3 2, chain_block 4 3, chain_block 5 4,
      chain_block 6 5, chain_block 7 6, chain_block 8 7, chain_block 9 8, chain_block 10 9]"
  by (simp add: reorg12_def twelve_def upt_rec Add_def NewRingBuffer_def MaxReorgDepth_def
      replicate_10)
    (simp add: eval_nat_numeral)

theorem abandoned_blocks_stay_witness:
  "\<exists>re' n. HandleReorg eager_client (0, 0, 0) 10 (chain_block 11 10) reorg12 = (re', Inr ()) \<and>
     findForkPoint number_digest (chain_block 13 12) re' = Inr n"
proof -
  have nn: "no_nil (ringBuffer reorg12)" by (simp add: reorg12_def no_nil_adds)
  have s: "Size (ringBuffer reorg12) = 10"
    by (simp add: reorg12_def twelve_def upt_rec Add_def NewRingBuffer_def MaxReorgDepth_def Size_def)
  obtain re' where h: "HandleReorg eager_client (0, 0, 0) 10 (chain_block 11 10) reorg12 = (re', Inr ())"
    by (simp add: HandleReorg_def Rollback_def eager_client_def Let_def)
  from abandoned_blocks_stay [OF nn s _ h, of "chain_block 13 12" number_digest] h show ?thesis
    by (auto simp: blocks12)
qed

section \<open>Events\<close>

text \<open>All the steps the engine takes, whatever the client answers.\<close>

definition process_step ::
  "('c, 'e) FFIClient \<Rightarrow> (byte list \<Rightarrow> hash) \<Rightarrow> (int \<times> int \<times> int) \<times> block \<Rightarrow> 'c ReorgEngine \<Rightarrow> 'c ReorgEngine" where
  "process_step cl sha256 cb re = fst (ProcessBlock cl sha256 (fst cb) (snd cb) re)"

definition events_ok :: "'c ReorgEngine \<Rightarrow> bool" where
  "events_ok re \<longleftrightarrow> no_nil (ringBuffer re) \<and> reorgCount re = of_nat (length (reorgEvents re)) \<and>
     (\<forall>ev\<in>set (reorgEvents re). Depth ev \<le> 10)"

lemma DetectReorg_depth:
  assumes "no_nil (ringBuffer re)" and "DetectReorg sha256 blk re = Inr (True, fork)"
  shows "\<exists>old. Latest (ringBuffer re) = Some old \<and> sint (Number old - fork) \<le> 10"
  using assms
  by (auto simp: DetectReorg_def Let_def MaxReorgDepth_def split: if_splits option.splits sum.splits)

lemma events_ok_step:
  assumes "events_ok re"
  shows "events_ok (process_step cl sha256 cb re)"
proof -
  obtain clk blk where cb: "cb = (clk, blk)" by fastforce
  have nn: "no_nil (ringBuffer re)" using assms by (simp add: events_ok_def)
  show ?thesis
  proof (cases "DetectReorg sha256 blk re")
    case (Inl e)
    with assms show ?thesis by (simp add: process_step_def cb ProcessBlock_def)
  next
    case (Inr d)
    obtain r fork where d: "d = (r, fork)" by fastforce
    show ?thesis
    proof (cases r)
      case False
      with Inr d assms nn show ?thesis
        by (auto simp: process_step_def cb ProcessBlock_def events_ok_def no_nil_Add
            split: prod.splits sum.splits)
    next
      case True
      with Inr d have "DetectReorg sha256 blk re = Inr (True, fork)" by simp
      from DetectReorg_depth [OF nn this] obtain old where
        "Latest (ringBuffer re) = Some old" "sint (Number old - fork) \<le> 10" by blast
      with True Inr d assms nn show ?thesis
        by (auto simp: process_step_def cb ProcessBlock_def HandleReorg_def Rollback_def Let_def
            events_ok_def no_nil_Add no_nil_Truncate split: prod.splits sum.splits)
    qed
  qed
qed

lemma events_ok_run: "events_ok re \<Longrightarrow> events_ok (fold (process_step cl sha256) cbs re)"
  by (induction cbs arbitrary: re) (simp_all add: events_ok_step)

lemma history_last_n:
  "GetReorgHistory limit re =
     (if limit \<le> 0 then reorgEvents re else last_n (nat limit) (reorgEvents re))"
  "GetReorgHistoryLocked limit re = GetReorgHistory limit re"
  by (auto simp: GetReorgHistory_def GetReorgHistoryLocked_def last_n_def Let_def nat_diff_distrib)

text \<open>The reorg statistics. With any client, after any blocks, the counter is the number of
  recorded events (as an int64), no event has a depth above 10, \<open>GetReorgHistory(limit)\<close> returns the
  most recent \<open>limit\<close> events in order (all of them for a limit that is not positive), and \<open>GetStats\<close>
  shows the last ten.\<close>

theorem reorg_statistics:
  "let re = fold (process_step cl sha256) cbs (NewReorgEngine c) in
     GetReorgCount re = of_nat (length (reorgEvents re)) \<and>
     list_all (\<lambda>ev. Depth ev \<le> 10) (reorgEvents re) \<and>
     GetReorgHistory limit re =
       (if limit \<le> 0 then reorgEvents re else last_n (nat limit) (reorgEvents re)) \<and>
     RecentReorgs (Reorg_GetStats re) = last_n 10 (reorgEvents re)"
proof -
  have "events_ok (NewReorgEngine c)" by (simp add: events_ok_def NewReorgEngine_def)
  then have "events_ok (fold (process_step cl sha256) cbs (NewReorgEngine c))" by (rule events_ok_run)
  then show ?thesis
    by (simp add: Let_def GetReorgCount_def Reorg_GetStats_def history_last_n events_ok_def list_all_iff)
qed

end
