(* ===== verification/Go_Runtime.thy ===== *)
theory Go_Runtime
  imports Prelude
begin

text \<open>
  What the program reads of the Go runtime: the memory statistics, with the ring of garbage
  collection pauses that three components walk through on their own.
\<close>

text \<open>\<open>runtime.MemStats\<close>; \<open>PauseNs\<close> has 256 entries.\<close>

record mem_stats =
  NumGC :: u32
  PauseTotalNs :: u64
  PauseNs :: "u64 list"
  LastGC :: u64
  Alloc :: u64
  TotalAlloc :: u64
  Sys :: u64
  HeapObjects :: u64

text \<open>The layout the Go runtime documents: the pause of the \<open>k\<close>-th collection is in slot
  \<open>(k + 255) mod 256\<close>, as long as no later collection has overwritten it.\<close>

definition records_pauses :: "u64 list \<Rightarrow> mem_stats \<Rightarrow> bool" where
  "records_pauses h m \<longleftrightarrow> length h < 2 ^ 32 \<and> NumGC m = of_nat (length h) \<and> length (PauseNs m) = 256 \<and>
     (\<forall>k. length h \<le> k + 256 \<longrightarrow> k < length h \<longrightarrow> PauseNs m ! (k mod 256) = h ! k)"

lemma unat_mod_256: "unat (x mod 256 :: u32) = unat x mod 256"
  by (simp add: unat_mod)

lemma pause_index:
  assumes "i < n" and "n < 2 ^ 32"
  shows "unat ((of_nat n - of_nat i + 255) mod 256 :: u32) = (n - 1 - i) mod 256"
proof -
  have "(of_nat n - of_nat i + 255 :: u32) = of_nat (n - 1 - i + 256)"
    using assms(1) by (simp add: of_nat_diff)
  then have "unat ((of_nat n - of_nat i + 255) mod 256 :: u32) = (n - 1 - i + 256) mod 2 ^ 32 mod 256"
    by (simp only: unat_mod_256 unat_of_nat take_bit_eq_mod) simp
  also have "\<dots> = (n - 1 - i + 256) mod 256" by (rule mod_mod_cancel) simp
  finally show ?thesis by simp
qed

lemma records_NumGC:
  assumes "records_pauses h m"
  shows "length h < 2 ^ 32" and "NumGC m = of_nat (length h)" and "unat (NumGC m) = length h"
  using assms by (simp_all add: records_pauses_def unat_of_nat take_bit_eq_mod)

lemma recorded_pause:
  assumes "records_pauses h m" and "i < length h" and "i < 256"
  shows "PauseNs m ! unat ((NumGC m - of_nat i + 255) mod 256) = h ! (length h - 1 - i)"
proof -
  have ring: "\<And>k. \<lbrakk>length h \<le> k + 256; k < length h\<rbrakk> \<Longrightarrow> PauseNs m ! (k mod 256) = h ! k"
    using assms(1) by (simp add: records_pauses_def)
  show ?thesis
    unfolding records_NumGC(2) [OF assms(1)] pause_index [OF assms(2) records_NumGC(1) [OF assms(1)]]
    using assms(2,3) by (intro ring) (simp_all add: le_diff_conv)
qed

text \<open>Walking back from the most recent pause.\<close>

lemma recorded_pauses:
  assumes "records_pauses h m" and "n \<le> length h" and "n \<le> 256"
  shows "map (\<lambda>i. PauseNs m ! unat ((NumGC m - of_nat i + 255) mod 256)) [0..<n] = rev (last_n n h)"
proof (rule nth_equalityI)
  fix i assume "i < length (map (\<lambda>i. PauseNs m ! unat ((NumGC m - of_nat i + 255) mod 256)) [0..<n])"
  then have i: "i < n" by simp
  with assms(2,3) have "i < length h" "i < 256" by simp_all
  from recorded_pause [OF assms(1) this] i assms(2)
  show "map (\<lambda>i. PauseNs m ! unat ((NumGC m - of_nat i + 255) mod 256)) [0..<n] ! i = rev (last_n n h) ! i"
    by (simp add: rev_nth last_n_def)
qed (use assms(2) in simp)

definition sample_mem :: mem_stats where
  "sample_mem = \<lparr>NumGC = 3, PauseTotalNs = 60, PauseNs = [10, 20, 30] @ replicate 253 0, LastGC = 5,
     Alloc = 0, TotalAlloc = 0, Sys = 0, HeapObjects = 0\<rparr>"

lemma sample_mem_records: "records_pauses [10, 20, 30] sample_mem"
  by (auto simp: records_pauses_def sample_mem_def less_Suc_eq numeral_3_eq_3)

end
