(* ===== verification/Mcp_Tools.thy ===== *)
theory Mcp_Tools
  imports Mcp_Server Trackers Reorg Go_Runtime
begin

text \<open>
  The runtime tools of \<^verbatim>\<open>internal/mcp/tools.go\<close>. Their state is the part of the program they look at:
  the two trackers, the reorg engine with the FFI client below it and the memory statistics of the Go
  runtime. The load tester may act on all of it and on the rest of the program, \<open>'w\<close>. Results are kept as
  values, before they are printed as JSON.
\<close>

section \<open>Garbage collector statistics\<close>

text \<open>The loop of \<open>GetGCStats\<close>; its index arithmetic is on uint32.\<close>

definition gc_pauses :: "mem_stats \<Rightarrow> u64 list" where
  "gc_pauses m =
     map (\<lambda>i. PauseNs m ! unat ((NumGC m - of_nat i + 255) mod 256)) [0..<min 256 (unat (NumGC m))]"

section \<open>State and results\<close>

text \<open>The parts of the program that the tools read, and the rest of it.\<close>

record 'w program =
  pg_latency :: tracker
  pg_apply :: tracker
  pg_reorg :: "ffi_state ReorgEngine"
  pg_mem :: mem_stats
  pg_goroutines :: int
  pg_rest :: 'w

type_synonym 'w load_tester = "int \<Rightarrow> int \<Rightarrow> 'w program \<Rightarrow> 'w program \<times> string option"

record 'w runtime =
  rt_program :: "'w program"
  rt_loadTester :: "'w load_tester option"

text \<open>Rounding, the square root and \<open>math.Pow\<close> of the floating point unit, and the compiler's sizes of
  the Rust structs that the core statistics depend on.\<close>

record platform =
  pf_rnd :: "rat \<Rightarrow> rat"
  pf_sqrt :: "rat \<Rightarrow> rat"
  pf_pow :: "rat \<Rightarrow> rat \<Rightarrow> rat"
  pf_account :: nat
  pf_snapshot :: nat

datatype tool_result =
    GCStats u32 u64 "u64 list" u64
  | HeapUsage u64 u64 u64 u64
  | GoroutineCount int
  | LatencyDistribution distribution
  | ReorgHistory "ReorgEvent list"
  | StateRoot hash u64
  | StateSizeResult int int
  | ApplyBlockLatency "rat list" rat rat
  | NotImplemented
  | VarianceComparison rat rat rat
  | LoadTestDone int int

datatype tool_error =
    StateRootFailed ffi_error
  | CoreStatsFailed ffi_error
  | TpsNotANumber
  | TpsOutOfRange
  | DurationNotANumber
  | DurationOutOfRange
  | LoadTesterNotConfigured
  | LoadTestFailed string
  | HandlerPanic

definition NewRuntimeTools :: "ffi_state ReorgEngine \<Rightarrow> mem_stats \<Rightarrow> int \<Rightarrow> 'w \<Rightarrow> 'w runtime" where
  "NewRuntimeTools re ms g w = \<lparr>rt_program = \<lparr>pg_latency = NewLatencyTracker 1000,
     pg_apply = NewApplyBlockLatencyTracker 1000, pg_reorg = re, pg_mem = ms, pg_goroutines = g, pg_rest = w\<rparr>,
     rt_loadTester = None\<rparr>"

definition SetLoadTester :: "'w load_tester \<Rightarrow> 'w runtime \<Rightarrow> 'w runtime" where
  "SetLoadTester lt rt = rt\<lparr>rt_loadTester := Some lt\<rparr>"

section \<open>Tools\<close>

definition tool_GetGCStats :: "params \<Rightarrow> 'w runtime \<Rightarrow> 'w runtime \<times> (tool_error + tool_result)" where
  "tool_GetGCStats ps rt =
     (let m = pg_mem (rt_program rt) in (rt, Inr (GCStats (NumGC m) (PauseTotalNs m) (gc_pauses m) (LastGC m))))"

definition tool_GetHeapUsage :: "params \<Rightarrow> 'w runtime \<Rightarrow> 'w runtime \<times> (tool_error + tool_result)" where
  "tool_GetHeapUsage ps rt =
     (let m = pg_mem (rt_program rt) in (rt, Inr (HeapUsage (Alloc m) (TotalAlloc m) (Sys m) (HeapObjects m))))"

definition tool_GetGoroutineCount :: "params \<Rightarrow> 'w runtime \<Rightarrow> 'w runtime \<times> (tool_error + tool_result)" where
  "tool_GetGoroutineCount ps rt = (rt, Inr (GoroutineCount (pg_goroutines (rt_program rt))))"

definition tool_GetLatencyDistribution ::
  "platform \<Rightarrow> params \<Rightarrow> 'w runtime \<Rightarrow> 'w runtime \<times> (tool_error + tool_result)" where
  "tool_GetLatencyDistribution pf ps rt =
     (case GetDistribution (pf_rnd pf) (pg_latency (rt_program rt)) of
        None \<Rightarrow> (rt, Inl HandlerPanic)
      | Some d \<Rightarrow> (rt, Inr (LatencyDistribution d)))"

text \<open>Reading an integer parameter with a default, which also replaces values that are not positive,
  and an upper bound.\<close>

definition clamped_param :: "params \<Rightarrow> string \<Rightarrow> int \<Rightarrow> int \<Rightarrow> int" where
  "clamped_param ps k def hi =
     (let l = (case as_number (member ps k) of Some f \<Rightarrow> float_to_int f | None \<Rightarrow> def);
          l1 = (if l \<le> 0 then def else l)
      in if l1 > hi then hi else l1)"

definition tool_GetReorgHistory :: "params \<Rightarrow> 'w runtime \<Rightarrow> 'w runtime \<times> (tool_error + tool_result)" where
  "tool_GetReorgHistory ps rt =
     (rt, Inr (ReorgHistory (GetReorgHistory (clamped_param ps ''limit'' 10 100) (pg_reorg (rt_program rt)))))"

definition tool_GetStateRoot ::
  "platform \<Rightarrow> params \<Rightarrow> 'w runtime \<Rightarrow> 'w runtime \<times> (tool_error + tool_result)" where
  "tool_GetStateRoot pf ps rt =
     (case GetStateRoot (re_ffi (pg_reorg (rt_program rt))) of
        Inl e \<Rightarrow> (rt, Inl (StateRootFailed e))
      | Inr sr \<Rightarrow>
          (case GetStats (pf_account pf) (pf_snapshot pf) (re_ffi (pg_reorg (rt_program rt))) of
             Inl e \<Rightarrow> (rt, Inl (CoreStatsFailed e))
           | Inr st \<Rightarrow> (rt, Inr (StateRoot sr (BlockNumber st)))))"

definition tool_GetStateSize ::
  "platform \<Rightarrow> params \<Rightarrow> 'w runtime \<Rightarrow> 'w runtime \<times> (tool_error + tool_result)" where
  "tool_GetStateSize pf ps rt =
     (case GetStats (pf_account pf) (pf_snapshot pf) (re_ffi (pg_reorg (rt_program rt))) of
        Inl e \<Rightarrow> (rt, Inl (CoreStatsFailed e))
      | Inr st \<Rightarrow> (rt, Inr (StateSizeResult (StateSize st) (MemoryUsageBytes st))))"

definition tool_GetApplyBlockLatency ::
  "platform \<Rightarrow> params \<Rightarrow> 'w runtime \<Rightarrow> 'w runtime \<times> (tool_error + tool_result)" where
  "tool_GetApplyBlockLatency pf ps rt =
     (let limit = clamped_param ps ''limit'' 100 1000
      in (case GetStatistics (pf_rnd pf) (pf_sqrt pf) limit (pg_apply (rt_program rt)) of
            (mean, sd) \<Rightarrow> (rt, Inr (ApplyBlockLatency (GetLatencies limit (pg_apply (rt_program rt))) mean sd))))"

text \<open>A placeholder in the source too: the clamped count is not used.\<close>

definition tool_ValidateDeterminism :: "params \<Rightarrow> 'w runtime \<Rightarrow> 'w runtime \<times> (tool_error + tool_result)" where
  "tool_ValidateDeterminism ps rt = (rt, Inr NotImplemented)"

definition tool_CompareGCVsCoreLatency ::
  "platform \<Rightarrow> params \<Rightarrow> 'w runtime \<Rightarrow> 'w runtime \<times> (tool_error + tool_result)" where
  "tool_CompareGCVsCoreLatency pf ps rt =
     (case GetDistribution (pf_rnd pf) (pg_latency (rt_program rt)) of
        None \<Rightarrow> (rt, Inl HandlerPanic)
      | Some d \<Rightarrow>
          (let goVariance = pf_pow pf (pf_rnd pf (pf_rnd pf (p99_ms d - p50_ms d) / 2)) 2;
               rustStddev = snd (GetStatistics (pf_rnd pf) (pf_sqrt pf) 0 (pg_apply (rt_program rt)));
               rustVariance = pf_rnd pf (rustStddev * rustStddev);
               ratio = (if rustVariance > 0 then pf_rnd pf (goVariance / rustVariance) else 0)
           in (rt, Inr (VarianceComparison goVariance rustVariance ratio))))"

definition nanos_per_second :: int where
  "nanos_per_second = 1000000000"

definition tool_RunLoadTest :: "params \<Rightarrow> 'w runtime \<Rightarrow> 'w runtime \<times> (tool_error + tool_result)" where
  "tool_RunLoadTest ps rt =
     (case as_number (member ps ''tps'') of
        None \<Rightarrow> (rt, Inl TpsNotANumber)
      | Some tpsFloat \<Rightarrow>
          (let tps = float_to_int tpsFloat in
           if tps < 1 \<or> tps > 10000 then (rt, Inl TpsOutOfRange)
           else (case as_number (case member ps ''duration'' of Some v \<Rightarrow> Some v
                                 | None \<Rightarrow> member ps ''duration_seconds'') of
               None \<Rightarrow> (rt, Inl DurationNotANumber)
             | Some f \<Rightarrow>
                 (let secs = float_to_int f in
                  if secs < 1 \<or> secs > 300 then (rt, Inl DurationOutOfRange)
                  else (case rt_loadTester rt of
                      None \<Rightarrow> (rt, Inl LoadTesterNotConfigured)
                    | Some run \<Rightarrow>
                        (case run tps (secs * nanos_per_second) (rt_program rt) of
                           (w, Some e) \<Rightarrow> (rt\<lparr>rt_program := w\<rparr>, Inl (LoadTestFailed e))
                         | (w, None) \<Rightarrow> (rt\<lparr>rt_program := w\<rparr>, Inr (LoadTestDone tps secs))))))))"

definition RegisterRuntimeTools ::
  "platform \<Rightarrow> ('w runtime, tool_error, tool_result) mcp_server \<Rightarrow>
   ('w runtime, tool_error, tool_result) mcp_server" where
  "RegisterRuntimeTools pf srv =
     fold (\<lambda>(name, h). RegisterTool name h)
       [(''get_gc_stats'', tool_GetGCStats), (''get_heap_usage'', tool_GetHeapUsage),
        (''get_goroutine_count'', tool_GetGoroutineCount),
        (''get_latency_distribution'', tool_GetLatencyDistribution pf),
        (''get_reorg_history'', tool_GetReorgHistory), (''get_state_root'', tool_GetStateRoot pf),
        (''get_state_size'', tool_GetStateSize pf),
        (''get_apply_block_latency'', tool_GetApplyBlockLatency pf),
        (''validate_determinism'', tool_ValidateDeterminism),
        (''compare_gc_vs_core_latency'', tool_CompareGCVsCoreLatency pf),
        (''run_load_test'', tool_RunLoadTest)] srv"

section \<open>Only a load test changes the program\<close>

definition read_only :: "('s, 'e, 'r) tool_handler \<Rightarrow> bool" where
  "read_only h \<longleftrightarrow> (\<forall>ps s. fst (h ps s) = s)"

lemma read_only_tools:
  "read_only tool_GetGCStats" "read_only tool_GetHeapUsage" "read_only tool_GetGoroutineCount"
  "read_only (tool_GetLatencyDistribution pf)" "read_only tool_GetReorgHistory"
  "read_only (tool_GetStateRoot pf)" "read_only (tool_GetStateSize pf)"
  "read_only (tool_GetApplyBlockLatency pf)" "read_only tool_ValidateDeterminism"
  "read_only (tool_CompareGCVsCoreLatency pf)"
  by (auto simp: read_only_def tool_GetGCStats_def tool_GetHeapUsage_def tool_GetGoroutineCount_def
      tool_GetLatencyDistribution_def tool_GetReorgHistory_def tool_GetStateRoot_def tool_GetStateSize_def
      tool_GetApplyBlockLatency_def tool_ValidateDeterminism_def tool_CompareGCVsCoreLatency_def Let_def
      split: option.split sum.split prod.split)

lemma registered_tools:
  "handlers (RegisterRuntimeTools pf NewServer) m = Some h \<Longrightarrow>
     read_only h \<or> (m = ''run_load_test'' \<and> h = tool_RunLoadTest)"
  by (auto simp: RegisterRuntimeTools_def RegisterTool_def NewServer_def read_only_tools
      split: if_splits)

lemma RunLoadTest_effect:
  "fst (tool_RunLoadTest ps rt) = rt \<or>
     (\<exists>run tps secs. rt_loadTester rt = Some run \<and> 1 \<le> tps \<and> tps \<le> 10000 \<and> 1 \<le> secs \<and> secs \<le> 300 \<and>
        fst (tool_RunLoadTest ps rt) =
          rt\<lparr>rt_program := fst (run tps (secs * nanos_per_second) (rt_program rt))\<rparr>)"
proof -
  let ?d = "as_number (case member ps ''duration'' of Some v \<Rightarrow> Some v | None \<Rightarrow> member ps ''duration_seconds'')"
  consider "fst (tool_RunLoadTest ps rt) = rt"
    | f g run where "as_number (member ps ''tps'') = Some f" "?d = Some g" "rt_loadTester rt = Some run"
        "\<not> (float_to_int f < 1 \<or> float_to_int f > 10000)" "\<not> (float_to_int g < 1 \<or> float_to_int g > 300)"
  proof (cases "fst (tool_RunLoadTest ps rt) = rt")
    case False
    then obtain f where f: "as_number (member ps ''tps'') = Some f"
      by (cases "as_number (member ps ''tps'')") (simp_all add: tool_RunLoadTest_def)
    with False have tps: "\<not> (float_to_int f < 1 \<or> float_to_int f > 10000)"
      by (intro notI) (simp add: tool_RunLoadTest_def)
    with False f obtain g where g: "?d = Some g"
      by (cases ?d) (simp_all add: tool_RunLoadTest_def)
    with False f tps have secs: "\<not> (float_to_int g < 1 \<or> float_to_int g > 300)"
      by (intro notI) (simp add: tool_RunLoadTest_def)
    with False f tps g show thesis
      by (cases "rt_loadTester rt") (simp_all add: tool_RunLoadTest_def that)
  qed
  then show ?thesis
  proof cases
    case 2
    obtain w e where run: "run (float_to_int f) (float_to_int g * nanos_per_second) (rt_program rt) = (w, e)" by fastforce
    with 2 have "fst (tool_RunLoadTest ps rt) = rt\<lparr>rt_program := w\<rparr>"
      by (cases e) (simp_all add: tool_RunLoadTest_def Let_def)
    with 2 run show ?thesis by (intro disjI2 exI [of _ run] exI [of _ "float_to_int f"] exI [of _ "float_to_int g"]) simp
  qed simp
qed

lemma handleRequest_state:
  "\<exists>m ps. fst (snd (handleRequest t1 t2 r srv s)) = s \<or>
     (\<exists>h req. handlers srv m = Some h \<and> http_body r = Some req \<and> rq_method req = m \<and>
        fst (snd (handleRequest t1 t2 r srv s)) = fst (h ps s))"
  by (auto simp: handleRequest_def Let_def split: option.split prod.split sum.split) (metis fst_conv)+

text \<open>C20: MCP requests are read-only, load tests apart. Whatever request the server with the runtime
  tools receives, whatever the load tester does, the state of the program is unchanged (the trackers,
  the reorg engine, the bridge and the Rust state); only a \<open>run_load_test\<close> request can change it, and
  then only by one run of the configured load tester at 1 to 10000 transactions per second for 1 to
  300 seconds.\<close>

theorem mcp_requests_read_only:
  assumes "srv = (RegisterRuntimeTools pf NewServer)\<lparr>rateLimiter := rl\<rparr>"
    and "handleRequest t1 t2 r srv rt = (srv', rt', resp)"
  shows "rt' = rt \<or>
    (\<exists>req run tps secs. http_body r = Some req \<and> rq_method req = ''run_load_test'' \<and>
       rt_loadTester rt = Some run \<and> 1 \<le> tps \<and> tps \<le> 10000 \<and> 1 \<le> secs \<and> secs \<le> 300 \<and>
       rt' = rt\<lparr>rt_program := fst (run tps (secs * nanos_per_second) (rt_program rt))\<rparr>)"
proof -
  from handleRequest_state [of t1 t2 r srv rt] assms(2) obtain m ps where
    "rt' = rt \<or> (\<exists>h req. handlers srv m = Some h \<and> http_body r = Some req \<and> rq_method req = m \<and>
       rt' = fst (h ps rt))" by auto
  then show ?thesis
  proof (elim disjE exE conjE)
    fix h req assume h: "handlers srv m = Some h" "http_body r = Some req" "rq_method req = m" "rt' = fst (h ps rt)"
    from h(1) assms(1) have "read_only h \<or> (m = ''run_load_test'' \<and> h = tool_RunLoadTest)"
      using registered_tools [of pf m h] by simp
    then show ?thesis
    proof
      assume "read_only h"
      with h(4) show ?thesis by (simp add: read_only_def)
    next
      assume "m = ''run_load_test'' \<and> h = tool_RunLoadTest"
      with h RunLoadTest_effect [of ps rt] show ?thesis by blast
    qed
  qed simp
qed

text \<open>A load test of one second at one transaction per second, by a tester that adds a goroutine.\<close>

definition load_request :: http_request where
  "load_request = \<lparr>http_post = True, http_body = Some \<lparr>rq_jsonrpc = ''2.0'', rq_method = ''run_load_test'',
     rq_params = [(''tps'', JNum 1), (''duration_seconds'', JNum 1)], rq_id = JNull\<rparr>\<rparr>"

definition load_runtime :: "unit runtime" where
  "load_runtime = SetLoadTester (\<lambda>tps d pg. (pg\<lparr>pg_goroutines := pg_goroutines pg + 1\<rparr>, None))
     (NewRuntimeTools (NewReorgEngine fresh_ffi) sample_mem 4 ())"

definition exact_platform :: platform where
  "exact_platform = \<lparr>pf_rnd = (\<lambda>x. x), pf_sqrt = (\<lambda>x. x), pf_pow = (\<lambda>x y. x), pf_account = 64, pf_snapshot = 96\<rparr>"

lemma load_request_run:
  "\<exists>rl. handleRequest 0 0 load_request (RegisterRuntimeTools exact_platform NewServer) load_runtime =
     ((RegisterRuntimeTools exact_platform NewServer)\<lparr>rateLimiter := rl\<rparr>,
      load_runtime\<lparr>rt_program := (rt_program load_runtime)\<lparr>pg_goroutines := 5\<rparr>\<rparr>,
      writeSuccess JNull (LoadTestDone 1 1))"
proof -
  let ?srv = "RegisterRuntimeTools exact_platform NewServer :: (unit runtime, tool_error, tool_result) mcp_server"
  have rl: "rateLimiter ?srv = NewRateLimiter 10 minute"
    by (simp add: RegisterRuntimeTools_def RegisterTool_def NewServer_def)
  have h: "handlers ?srv ''run_load_test'' = Some tool_RunLoadTest"
    by (simp add: RegisterRuntimeTools_def RegisterTool_def NewServer_def)
  have ok: "snd (Allow 0 0 ''run_load_test'' (NewRateLimiter 10 minute))"
    by (simp add: Allow_def NewRateLimiter_def allow_counter_def minute_def split: prod.split)
  have v: "Validate ''run_load_test'' [(''tps'', JNum 1), (''duration_seconds'', JNum 1)] = None"
    by (simp add: Validate_def validateLoadTest_def num_range_def member_def)
  have run: "tool_RunLoadTest [(''tps'', JNum 1), (''duration_seconds'', JNum 1)] load_runtime =
      (load_runtime\<lparr>rt_program := (rt_program load_runtime)\<lparr>pg_goroutines := 5\<rparr>\<rparr>, Inr (LoadTestDone 1 1))"
    by (simp add: tool_RunLoadTest_def member_def float_to_int_def load_runtime_def SetLoadTester_def NewRuntimeTools_def)
  show ?thesis
    using ok by (cases "Allow 0 0 ''run_load_test'' (NewRateLimiter 10 minute)")
      (auto simp: handleRequest_def load_request_def rl h v run)
qed

theorem mcp_requests_read_only_witness:
  "\<exists>srv' rt' resp. handleRequest 0 0 load_request (RegisterRuntimeTools exact_platform NewServer) load_runtime =
     (srv', rt', resp) \<and> pg_goroutines (rt_program rt') = 5 \<and> rt_loadTester rt' = rt_loadTester load_runtime"
proof -
  obtain rl where r: "handleRequest 0 0 load_request (RegisterRuntimeTools exact_platform NewServer) load_runtime =
     ((RegisterRuntimeTools exact_platform NewServer)\<lparr>rateLimiter := rl\<rparr>,
      load_runtime\<lparr>rt_program := (rt_program load_runtime)\<lparr>pg_goroutines := 5\<rparr>\<rparr>,
      writeSuccess JNull (LoadTestDone 1 1))" using load_request_run by blast
  let ?srv = "RegisterRuntimeTools exact_platform NewServer :: (unit runtime, tool_error, tool_result) mcp_server"
  have s: "?srv = ?srv\<lparr>rateLimiter := rateLimiter ?srv\<rparr>" by simp
  from mcp_requests_read_only [OF s r] r show ?thesis by auto
qed

end
