(* ===== verification/Worker_Pool.thy ===== *)
theory Worker_Pool
  imports Prelude
begin

text \<open>
  The worker pool (\<^verbatim>\<open>internal/worker/pool.go\<close>) as a state machine. A pool is a bounded channel, the
  two closable channels' flags, the counters and one program counter per worker goroutine; every
  atomic action of a goroutine is a labelled step, so a run is an interleaving of the submitters,
  the workers and the caller of \<open>Stop\<close>. What \<open>ProcessBlock\<close> of the processor does is left open: it
  returns, fails or panics. An unrecovered panic ends the process (\<open>crashed\<close>). \<open>Start\<close> is called
  once, as the program does.
\<close>

section \<open>State\<close>

datatype 'b worker_pc = Fresh | Waiting | Holding 'b | Processing 'b | Exited

record 'b pool =
  blocks :: "'b list option"
  chan_closed :: bool
  stop_closed :: bool
  ctx_done :: bool
  crashed :: bool
  wg :: int
  activeWorkers :: int
  numWorkers :: int
  panicCount :: int
  processedBlocks :: int
  workers :: "'b worker_pc list"

definition NewPool :: "'b pool" where
  "NewPool = \<lparr>blocks = None, chan_closed = False, stop_closed = False, ctx_done = False,
     crashed = False, wg = 0, activeWorkers = 0, numWorkers = 0, panicCount = 0,
     processedBlocks = 0, workers = []\<rparr>"

definition Start :: "int \<Rightarrow> 'b pool \<Rightarrow> 'b pool \<times> (int + unit)" where
  "Start n p =
     (if n < 1 \<or> n > 256 then (p, Inl n)
      else (p\<lparr>numWorkers := n, blocks := Some [], wg := wg p + n,
              workers := workers p @ replicate (nat n) Fresh\<rparr>, Inr ()))"

text \<open>The atomic counters and the channel length a caller of \<open>GetStats\<close> sees.\<close>

record pool_stats =
  NumWorkers :: int
  ActiveWorkers :: int
  ProcessedBlocks :: int
  PanicCount :: int
  QueueDepth :: int

definition pool_ActiveWorkers :: "'b pool \<Rightarrow> int" where
  "pool_ActiveWorkers p = activeWorkers p"

definition pool_queue :: "'b pool \<Rightarrow> 'b list" where
  "pool_queue p = (case blocks p of None \<Rightarrow> [] | Some q \<Rightarrow> q)"

definition pool_GetStats :: "'b pool \<Rightarrow> pool_stats" where
  "pool_GetStats p = \<lparr>NumWorkers = numWorkers p, ActiveWorkers = pool_ActiveWorkers p,
     ProcessedBlocks = processedBlocks p, PanicCount = panicCount p,
     QueueDepth = int (length (pool_queue p))\<rparr>"

section \<open>Steps\<close>

datatype 'b pool_event =
    PoolStarted int
  | Submitted 'b | Refused 'b | SubmitPanicked 'b
  | StopSignalled | ChannelClosed | StopPanicked | StopReturned | StopTimedOut | CtxCancelled
  | WorkerStarted nat | Received nat 'b | Dropped nat 'b | Began nat 'b
  | Processed nat 'b | Failed nat 'b | Panicked nat 'b | WorkerExited nat

text \<open>
  \<open>Submit\<close> selects among the cases that are ready: the closed stop channel, and the send. A send is
  ready when the channel has room, and also when it is closed, and then it panics. On the nil
  channel of a pool that was not started it is never ready.
\<close>

inductive submit_step :: "'b pool \<Rightarrow> 'b pool_event \<Rightarrow> 'b pool \<Rightarrow> bool" where
  refuse: "stop_closed p \<Longrightarrow> submit_step p (Refused b) p"
| send: "blocks p = Some q \<Longrightarrow> \<not> chan_closed p \<Longrightarrow> int (length q) < numWorkers p * 2 \<Longrightarrow>
    submit_step p (Submitted b) (p\<lparr>blocks := Some (q @ [b])\<rparr>)"
| send_closed: "chan_closed p \<Longrightarrow> submit_step p (SubmitPanicked b) (p\<lparr>crashed := True\<rparr>)"

text \<open>\<open>Stop\<close> closes the stop channel, then the block channel, then waits for the wait group or its
  context. Closing a closed or a nil channel panics.\<close>

inductive stop_step :: "'b pool \<Rightarrow> 'b pool_event \<Rightarrow> 'b pool \<Rightarrow> bool" where
  close_stop: "\<not> stop_closed p \<Longrightarrow> stop_step p StopSignalled (p\<lparr>stop_closed := True\<rparr>)"
| close_again: "stop_closed p \<Longrightarrow> stop_step p StopPanicked (p\<lparr>crashed := True\<rparr>)"
| close_blocks: "stop_closed p \<Longrightarrow> \<not> chan_closed p \<Longrightarrow> blocks p = Some q \<Longrightarrow>
    stop_step p ChannelClosed (p\<lparr>chan_closed := True\<rparr>)"
| close_nil: "stop_closed p \<Longrightarrow> blocks p = None \<Longrightarrow> stop_step p StopPanicked (p\<lparr>crashed := True\<rparr>)"
| wait_done: "chan_closed p \<Longrightarrow> wg p = 0 \<Longrightarrow> stop_step p StopReturned p"
| wait_timeout: "chan_closed p \<Longrightarrow> stop_step p StopTimedOut p"

text \<open>The worker goroutine, with \<open>processBlockSafe\<close> and \<open>handlePanic\<close>: after a panic it goes on.\<close>

inductive worker_step :: "'b pool \<Rightarrow> 'b pool_event \<Rightarrow> 'b pool \<Rightarrow> bool" where
  wstart: "i < length (workers p) \<Longrightarrow> workers p ! i = Fresh \<Longrightarrow>
    worker_step p (WorkerStarted i)
      (p\<lparr>activeWorkers := activeWorkers p + 1, workers := (workers p)[i := Waiting]\<rparr>)"
| receive: "i < length (workers p) \<Longrightarrow> workers p ! i = Waiting \<Longrightarrow> blocks p = Some (b # q) \<Longrightarrow>
    worker_step p (Received i b) (p\<lparr>blocks := Some q, workers := (workers p)[i := Holding b]\<rparr>)"
| cancelled: "i < length (workers p) \<Longrightarrow> workers p ! i = Holding b \<Longrightarrow> ctx_done p \<Longrightarrow>
    worker_step p (Dropped i b)
      (p\<lparr>activeWorkers := activeWorkers p - 1, wg := wg p - 1, workers := (workers p)[i := Exited]\<rparr>)"
| wbegin: "i < length (workers p) \<Longrightarrow> workers p ! i = Holding b \<Longrightarrow> \<not> ctx_done p \<Longrightarrow>
    worker_step p (Began i b) (p\<lparr>workers := (workers p)[i := Processing b]\<rparr>)"
| wdone: "i < length (workers p) \<Longrightarrow> workers p ! i = Processing b \<Longrightarrow>
    worker_step p (Processed i b)
      (p\<lparr>processedBlocks := processedBlocks p + 1, workers := (workers p)[i := Waiting]\<rparr>)"
| wfail: "i < length (workers p) \<Longrightarrow> workers p ! i = Processing b \<Longrightarrow>
    worker_step p (Failed i b) (p\<lparr>workers := (workers p)[i := Waiting]\<rparr>)"
| wpanic: "i < length (workers p) \<Longrightarrow> workers p ! i = Processing b \<Longrightarrow>
    worker_step p (Panicked i b)
      (p\<lparr>panicCount := panicCount p + 1, workers := (workers p)[i := Waiting]\<rparr>)"
| wexit: "i < length (workers p) \<Longrightarrow> workers p ! i = Waiting \<Longrightarrow> blocks p = Some [] \<Longrightarrow> chan_closed p \<Longrightarrow>
    worker_step p (WorkerExited i)
      (p\<lparr>activeWorkers := activeWorkers p - 1, wg := wg p - 1, workers := (workers p)[i := Exited]\<rparr>)"

inductive pool_step :: "'b pool \<Rightarrow> 'b pool_event \<Rightarrow> 'b pool \<Rightarrow> bool" where
  start: "\<not> crashed p \<Longrightarrow> blocks p = None \<Longrightarrow> Start n p = (p', Inr ()) \<Longrightarrow> pool_step p (PoolStarted n) p'"
| submit: "\<not> crashed p \<Longrightarrow> submit_step p e p' \<Longrightarrow> pool_step p e p'"
| stop: "\<not> crashed p \<Longrightarrow> stop_step p e p' \<Longrightarrow> pool_step p e p'"
| work: "\<not> crashed p \<Longrightarrow> worker_step p e p' \<Longrightarrow> pool_step p e p'"
| cancel: "\<not> crashed p \<Longrightarrow> pool_step p CtxCancelled (p\<lparr>ctx_done := True\<rparr>)"

inductive pool_run :: "'b pool \<Rightarrow> 'b pool_event list \<Rightarrow> 'b pool \<Rightarrow> bool" where
  run_Nil: "pool_run p [] p"
| run_snoc: "pool_run p es p' \<Longrightarrow> pool_step p' e p'' \<Longrightarrow> pool_run p (es @ [e]) p''"

inductive_cases submit_stepE: "submit_step p e p'"
inductive_cases stop_stepE: "stop_step p e p'"
inductive_cases worker_stepE: "worker_step p e p'"
inductive_cases pool_stepE: "pool_step p e p'"
inductive_simps submitted_iff: "submit_step p (Submitted b) p'"
inductive_simps submit_panicked_iff: "submit_step p (SubmitPanicked b) p'"

text \<open>A label determines its successor state, so the relation can be executed.\<close>

definition at :: "nat \<Rightarrow> 'b worker_pc \<Rightarrow> 'b pool \<Rightarrow> bool" where
  "at i w p \<longleftrightarrow> i < length (workers p) \<and> workers p ! i = w"

fun exec_event :: "'b pool \<Rightarrow> 'b pool_event \<Rightarrow> 'b pool option" where
  "exec_event p (PoolStarted n) =
     (if blocks p = None \<and> isl (snd (Start n p)) = False then Some (fst (Start n p)) else None)"
| "exec_event p (Submitted b) =
     (case blocks p of None \<Rightarrow> None
      | Some q \<Rightarrow> if \<not> chan_closed p \<and> int (length q) < numWorkers p * 2
                   then Some (p\<lparr>blocks := Some (q @ [b])\<rparr>) else None)"
| "exec_event p (Refused b) = (if stop_closed p then Some p else None)"
| "exec_event p (SubmitPanicked b) = (if chan_closed p then Some (p\<lparr>crashed := True\<rparr>) else None)"
| "exec_event p StopSignalled = (if \<not> stop_closed p then Some (p\<lparr>stop_closed := True\<rparr>) else None)"
| "exec_event p ChannelClosed =
     (if stop_closed p \<and> \<not> chan_closed p \<and> blocks p \<noteq> None then Some (p\<lparr>chan_closed := True\<rparr>) else None)"
| "exec_event p StopPanicked = (if stop_closed p then Some (p\<lparr>crashed := True\<rparr>) else None)"
| "exec_event p StopReturned = (if chan_closed p \<and> wg p = 0 then Some p else None)"
| "exec_event p StopTimedOut = (if chan_closed p then Some p else None)"
| "exec_event p CtxCancelled = Some (p\<lparr>ctx_done := True\<rparr>)"
| "exec_event p (WorkerStarted i) =
     (if at i Fresh p then Some (p\<lparr>activeWorkers := activeWorkers p + 1, workers := (workers p)[i := Waiting]\<rparr>)
      else None)"
| "exec_event p (Received i b) =
     (if at i Waiting p \<and> (case blocks p of Some (c # q) \<Rightarrow> c = b | _ \<Rightarrow> False)
      then Some (p\<lparr>blocks := map_option tl (blocks p), workers := (workers p)[i := Holding b]\<rparr>) else None)"
| "exec_event p (Dropped i b) =
     (if at i (Holding b) p \<and> ctx_done p
      then Some (p\<lparr>activeWorkers := activeWorkers p - 1, wg := wg p - 1, workers := (workers p)[i := Exited]\<rparr>)
      else None)"
| "exec_event p (Began i b) =
     (if at i (Holding b) p \<and> \<not> ctx_done p then Some (p\<lparr>workers := (workers p)[i := Processing b]\<rparr>) else None)"
| "exec_event p (Processed i b) =
     (if at i (Processing b) p
      then Some (p\<lparr>processedBlocks := processedBlocks p + 1, workers := (workers p)[i := Waiting]\<rparr>) else None)"
| "exec_event p (Failed i b) =
     (if at i (Processing b) p then Some (p\<lparr>workers := (workers p)[i := Waiting]\<rparr>) else None)"
| "exec_event p (Panicked i b) =
     (if at i (Processing b) p
      then Some (p\<lparr>panicCount := panicCount p + 1, workers := (workers p)[i := Waiting]\<rparr>) else None)"
| "exec_event p (WorkerExited i) =
     (if at i Waiting p \<and> blocks p = Some [] \<and> chan_closed p
      then Some (p\<lparr>activeWorkers := activeWorkers p - 1, wg := wg p - 1, workers := (workers p)[i := Exited]\<rparr>)
      else None)"

lemma exec_event_sound:
  assumes "exec_event p e = Some p'" and "\<not> crashed p"
  shows "pool_step p e p'"
proof (cases e)
  case (PoolStarted n)
  with assms obtain r where "blocks p = None" "Start n p = (p', Inr r)"
    by (cases "Start n p"; cases "snd (Start n p)") (auto split: if_splits)
  then show ?thesis using assms(2) PoolStarted by (auto intro: pool_step.start)
next
  case (Received i b)
  with assms obtain q where "at i Waiting p" "blocks p = Some (b # q)"
    "p' = p\<lparr>blocks := Some q, workers := (workers p)[i := Holding b]\<rparr>"
    by (auto split: if_splits option.splits list.splits)
  then show ?thesis using assms(2) Received
    by (auto simp: at_def intro: pool_step.work worker_step.receive)
qed (use assms in \<open>auto simp: at_def split: if_splits option.splits
      intro: pool_step.intros submit_step.intros stop_step.intros worker_step.intros\<close>)

fun exec_events :: "'b pool \<Rightarrow> 'b pool_event list \<Rightarrow> 'b pool option" where
  "exec_events p [] = Some p"
| "exec_events p (e # es) =
     (if crashed p then None else case exec_event p e of None \<Rightarrow> None | Some p' \<Rightarrow> exec_events p' es)"

interpretation pool_runs: labelled_runs pool_step pool_run
proof
  show "pool_run s [] s" for s by (rule run_Nil)
  show "pool_run s (es @ [e]) u" if "pool_run s es t" "pool_step t e u" for s es t e u
    using that by (rule run_snoc)
  show "P es t" if "pool_run s es t" "P [] s"
    "\<And>ds u e v. pool_run s ds u \<Longrightarrow> P ds u \<Longrightarrow> pool_step u e v \<Longrightarrow> P (ds @ [e]) v" for s es t P
    using that by (induction rule: pool_run.induct) blast+
qed

lemmas pool_run_trans = pool_runs.runs_append

lemma exec_events_sound: "exec_events p es = Some p' \<Longrightarrow> pool_run p es p'"
proof (induction p es rule: exec_events.induct)
  case (1 p)
  then show ?case by (simp add: run_Nil)
next
  case (2 p e es)
  then obtain q where q: "\<not> crashed p" "exec_event p e = Some q" "exec_events q es = Some p'"
    by (auto split: if_splits option.splits)
  have "pool_run p ([] @ [e]) q" by (rule run_snoc [OF run_Nil exec_event_sound [OF q(2,1)]])
  with 2 q show ?case using pool_run_trans [of q es p' p "[e]"] by simp
qed

section \<open>What a trace says\<close>

fun submitted_of :: "'b pool_event \<Rightarrow> 'b list" where
  "submitted_of (Submitted b) = [b]"
| "submitted_of e = []"

fun received_of :: "'b pool_event \<Rightarrow> 'b list" where
  "received_of (Received i b) = [b]"
| "received_of e = []"

fun began_of :: "'b pool_event \<Rightarrow> 'b list" where
  "began_of (Began i b) = [b]"
| "began_of e = []"

fun dropped_of :: "'b pool_event \<Rightarrow> 'b list" where
  "dropped_of (Dropped i b) = [b]"
| "dropped_of e = []"

fun processed_of :: "'b pool_event \<Rightarrow> 'b list" where
  "processed_of (Processed i b) = [b]"
| "processed_of e = []"

fun failed_of :: "'b pool_event \<Rightarrow> 'b list" where
  "failed_of (Failed i b) = [b]"
| "failed_of e = []"

fun panicked_of :: "'b pool_event \<Rightarrow> 'b list" where
  "panicked_of (Panicked i b) = [b]"
| "panicked_of e = []"

definition seen :: "('b pool_event \<Rightarrow> 'b list) \<Rightarrow> 'b pool_event list \<Rightarrow> 'b list" where
  "seen f es = concat (map f es)"

lemma seen_simps [simp]: "seen f [] = []" "seen f (es @ [e]) = seen f es @ f e"
  by (simp_all add: seen_def)

fun pc_active :: "'b worker_pc \<Rightarrow> int" where
  "pc_active Fresh = 0" | "pc_active Exited = 0" | "pc_active w = 1"

fun pc_live :: "'b worker_pc \<Rightarrow> int" where
  "pc_live Exited = 0" | "pc_live w = 1"

fun pc_busy :: "'b worker_pc \<Rightarrow> int" where
  "pc_busy (Holding b) = 1" | "pc_busy (Processing b) = 1" | "pc_busy w = 0"

definition pcs :: "('b worker_pc \<Rightarrow> int) \<Rightarrow> 'b pool \<Rightarrow> int" where
  "pcs f p = sum_list (map f (workers p))"

lemma sum_list_upd: "i < length xs \<Longrightarrow> sum_list (map f (xs[i := x])) = sum_list (map f xs) - f (xs ! i) + (f x :: int)"
  by (induction xs arbitrary: i) (auto split: nat.split)

lemma sum_list_rep [simp]: "sum_list (replicate n (x::int)) = int n * x"
  by (induction n) (simp_all add: algebra_simps)

text \<open>Four invariants: the channel is a queue, the counters count workers, the counters count
  events, and the flags agree with each other.\<close>

definition queue_inv :: "'b pool_event list \<Rightarrow> 'b pool \<Rightarrow> bool" where
  "queue_inv es p \<longleftrightarrow> seen submitted_of es = seen received_of es @ pool_queue p \<and>
     int (length (pool_queue p)) \<le> 2 * numWorkers p"

definition worker_inv :: "'b pool \<Rightarrow> bool" where
  "worker_inv p \<longleftrightarrow> activeWorkers p = pcs pc_active p \<and> wg p = pcs pc_live p"

definition event_inv :: "'b pool_event list \<Rightarrow> 'b pool \<Rightarrow> bool" where
  "event_inv es p \<longleftrightarrow> processedBlocks p = int (length (seen processed_of es)) \<and>
     panicCount p = int (length (seen panicked_of es)) \<and>
     int (length (seen received_of es)) = pcs pc_busy p + processedBlocks p + panicCount p +
       int (length (seen failed_of es)) + int (length (seen dropped_of es))"

definition flag_inv :: "'b pool_event list \<Rightarrow> 'b pool \<Rightarrow> bool" where
  "flag_inv es p \<longleftrightarrow> (seen dropped_of es \<noteq> [] \<longrightarrow> ctx_done p) \<and>
     (chan_closed p \<longrightarrow> stop_closed p \<and> blocks p \<noteq> None) \<and>
     (blocks p = None \<longrightarrow> workers p = [] \<and> numWorkers p = 0 \<and> wg p = 0) \<and>
     (blocks p \<noteq> None \<longrightarrow> int (length (workers p)) = numWorkers p \<and> 1 \<le> numWorkers p \<and> numWorkers p \<le> 256) \<and>
     (Exited \<in> set (workers p) \<longrightarrow> ctx_done p \<or> (chan_closed p \<and> pool_queue p = []))"

definition pool_inv :: "'b pool_event list \<Rightarrow> 'b pool \<Rightarrow> bool" where
  "pool_inv es p \<longleftrightarrow> queue_inv es p \<and> worker_inv p \<and> event_inv es p \<and> flag_inv es p"

lemmas pool_inv_defs = queue_inv_def worker_inv_def event_inv_def flag_inv_def pcs_def pool_queue_def

lemma pool_inv_New: "pool_inv [] NewPool"
  by (simp add: pool_inv_def pool_inv_defs NewPool_def)

lemma set_update_Exited: "Exited \<in> set (ws[i := w]) \<Longrightarrow> w \<noteq> Exited \<Longrightarrow> Exited \<in> set ws"
  using set_update_subset_insert [of ws i w] by auto

lemma start_inv:
  assumes "pool_inv es p" and "blocks p = None" and "Start n p = (p', Inr ())"
  shows "pool_inv (es @ [PoolStarted n]) p'"
  using assms by (simp add: pool_inv_def pool_inv_defs Start_def split: if_splits) auto

lemma submit_inv: "pool_inv es p \<Longrightarrow> submit_step p e p' \<Longrightarrow> pool_inv (es @ [e]) p'"
  by (erule submit_stepE) (simp_all add: pool_inv_def pool_inv_defs)

lemma stop_inv: "pool_inv es p \<Longrightarrow> stop_step p e p' \<Longrightarrow> pool_inv (es @ [e]) p'"
  by (erule stop_stepE) (simp_all add: pool_inv_def pool_inv_defs, auto)

lemma worker_queue_inv: "queue_inv es p \<Longrightarrow> worker_step p e p' \<Longrightarrow> queue_inv (es @ [e]) p'"
  by (erule worker_stepE) (simp_all add: queue_inv_def pool_queue_def)

lemma worker_worker_inv: "worker_inv p \<Longrightarrow> worker_step p e p' \<Longrightarrow> worker_inv p'"
  by (erule worker_stepE) (simp_all add: worker_inv_def pcs_def sum_list_upd)

lemma worker_event_inv: "event_inv es p \<Longrightarrow> worker_step p e p' \<Longrightarrow> event_inv (es @ [e]) p'"
  by (erule worker_stepE) (simp_all add: event_inv_def pcs_def sum_list_upd)

lemma worker_flag_inv: "flag_inv es p \<Longrightarrow> worker_step p e p' \<Longrightarrow> flag_inv (es @ [e]) p'"
  by (erule worker_stepE) (auto simp: flag_inv_def pool_queue_def dest: set_update_Exited)

lemma pool_inv_step:
  assumes "pool_inv es p" and "pool_step p e p'"
  shows "pool_inv (es @ [e]) p'"
  using assms(2)
proof cases
  case (start n)
  with assms(1) start_inv show ?thesis by blast
next
  case submit
  with assms(1) submit_inv show ?thesis by blast
next
  case stop
  with assms(1) stop_inv show ?thesis by blast
next
  case work
  with assms(1) worker_queue_inv worker_worker_inv worker_event_inv worker_flag_inv show ?thesis
    unfolding pool_inv_def by blast
next
  case cancel
  with assms(1) show ?thesis by (simp add: pool_inv_def pool_inv_defs)
qed

lemma pool_inv_run: "pool_run p0 es p \<Longrightarrow> p0 = NewPool \<Longrightarrow> pool_inv es p"
  by (induction rule: pool_run.induct) (auto intro: pool_inv_New pool_inv_step)

section \<open>Accounting\<close>

lemma pcs_bounds:
  "0 \<le> pcs pc_active p" "pcs pc_active p \<le> int (length (workers p))"
  "0 \<le> pcs pc_busy p" "pcs pc_busy p \<le> int (length (workers p))"
  "0 \<le> pcs pc_live p"
proof -
  have "0 \<le> pc_active w \<and> pc_active w \<le> 1 \<and> 0 \<le> pc_busy w \<and> pc_busy w \<le> 1 \<and> 0 \<le> pc_live w"
    for w :: "'a worker_pc" by (cases w) simp_all
  then have "0 \<le> sum_list (map pc_active ws) \<and> sum_list (map pc_active ws) \<le> int (length ws) \<and>
      0 \<le> sum_list (map pc_busy ws) \<and> sum_list (map pc_busy ws) \<le> int (length ws) \<and>
      0 \<le> sum_list (map pc_live ws)" for ws :: "'a worker_pc list"
    by (induction ws) (simp_all add: add_mono)
  then show "0 \<le> pcs pc_active p" "pcs pc_active p \<le> int (length (workers p))"
    "0 \<le> pcs pc_busy p" "pcs pc_busy p \<le> int (length (workers p))" "0 \<le> pcs pc_live p"
    by (simp_all add: pcs_def)
qed

text \<open>C11: the pool loses no block and its counters are exact. In every reachable state the blocks
  accepted by \<open>Submit\<close> are, in order, those that workers received followed by those still in the
  channel; the channel holds at most twice the number of workers; \<open>processedBlocks\<close> and \<open>panicCount\<close>
  count the blocks that were processed and that panicked; the received blocks are those plus the
  failed ones, at most one in the hands of each worker, and blocks dropped by workers that saw
  the cancelled context, of which there are none while the context is alive.\<close>

theorem pool_accounting:
  assumes "pool_run NewPool es p"
  shows "seen submitted_of es = seen received_of es @ pool_queue p \<and>
    QueueDepth (pool_GetStats p) \<le> 2 * NumWorkers (pool_GetStats p) \<and>
    0 \<le> ActiveWorkers (pool_GetStats p) \<and> ActiveWorkers (pool_GetStats p) \<le> NumWorkers (pool_GetStats p) \<and>
    ProcessedBlocks (pool_GetStats p) = int (length (seen processed_of es)) \<and>
    PanicCount (pool_GetStats p) = int (length (seen panicked_of es)) \<and>
    (\<exists>k. 0 \<le> k \<and> k \<le> NumWorkers (pool_GetStats p) \<and> int (length (seen received_of es)) =
       k + int (length (seen processed_of es)) + int (length (seen panicked_of es)) +
       int (length (seen failed_of es)) + int (length (seen dropped_of es))) \<and>
    (\<not> ctx_done p \<longrightarrow> seen dropped_of es = [])"
proof -
  note inv = pool_inv_run [OF assms refl]
  have n: "int (length (workers p)) = numWorkers p"
    using inv by (cases "blocks p") (auto simp: pool_inv_def flag_inv_def)
  have "int (length (seen received_of es)) = pcs pc_busy p + int (length (seen processed_of es)) +
      int (length (seen panicked_of es)) + int (length (seen failed_of es)) + int (length (seen dropped_of es))"
    using inv by (simp add: pool_inv_def event_inv_def)
  then show ?thesis
    using inv n pcs_bounds [of p]
    by (intro conjI exI [of _ "pcs pc_busy p"])
      (auto simp: pool_inv_def queue_inv_def worker_inv_def event_inv_def flag_inv_def
        pool_GetStats_def pool_ActiveWorkers_def)
qed

text \<open>A run on one worker whose block panics: the worker is waiting again afterwards.\<close>

lemma panic_run:
  "\<exists>p. pool_run NewPool [PoolStarted 1, WorkerStarted 0, Submitted 7, Received 0 7, Began 0 7, Panicked 0 (7::nat)] p \<and>
     workers p = [Waiting]"
proof -
  have "exec_events NewPool [PoolStarted 1, WorkerStarted 0, Submitted 7, Received 0 7, Began 0 7, Panicked 0 (7::nat)]
      = Some \<lparr>blocks = Some [], chan_closed = False, stop_closed = False, ctx_done = False, crashed = False,
          wg = 1, activeWorkers = 1, numWorkers = 1, panicCount = 1, processedBlocks = 0, workers = [Waiting]\<rparr>"
    by (simp add: NewPool_def Start_def at_def)
  from exec_events_sound [OF this] show ?thesis by auto
qed

theorem pool_accounting_witness:
  "\<exists>p. pool_run NewPool [PoolStarted 1, WorkerStarted 0, Submitted 7, Received 0 7, Began 0 7, Panicked 0 (7::nat)] p \<and>
     PanicCount (pool_GetStats p) = 1 \<and> workers p = [Waiting]"
  using panic_run pool_accounting [of "[PoolStarted 1, WorkerStarted 0, Submitted 7, Received 0 7,
      Began 0 7, Panicked 0 (7::nat)]"] by (auto simp: seen_def)

section \<open>Stopping\<close>

inductive worker_run :: "'b pool \<Rightarrow> 'b pool_event list \<Rightarrow> 'b pool \<Rightarrow> bool" where
  wrun_Nil: "worker_run p [] p"
| wrun_snoc: "worker_run p es p' \<Longrightarrow> worker_step p' e p'' \<Longrightarrow> worker_run p (es @ [e]) p''"

fun pc_left :: "'b worker_pc \<Rightarrow> int" where
  "pc_left Fresh = 2" | "pc_left Waiting = 1" | "pc_left (Holding b) = 3"
| "pc_left (Processing b) = 2" | "pc_left Exited = 0"

text \<open>How many worker steps are left once nobody submits any more.\<close>

definition work_left :: "'b pool \<Rightarrow> int" where
  "work_left p = 4 * int (length (pool_queue p)) + pcs pc_left p"

lemma work_left_step: "worker_step p e p' \<Longrightarrow> work_left p' \<le> work_left p - 1"
  by (erule worker_stepE) (simp_all add: work_left_def pool_queue_def pcs_def sum_list_upd)

lemma work_left_nonneg: "0 \<le> work_left p"
proof -
  have "0 \<le> pc_left w" for w :: "'a worker_pc" by (cases w) simp_all
  then have "0 \<le> sum_list (map pc_left ws)" for ws :: "'a worker_pc list" by (induction ws) simp_all
  then show ?thesis by (simp add: work_left_def pcs_def)
qed

lemma work_left_run: "worker_run p es p' \<Longrightarrow> int (length es) \<le> work_left p - work_left p'"
  by (induction rule: worker_run.induct) (auto dest: work_left_step)

lemma worker_step_frame:
  "worker_step p e p' \<Longrightarrow> crashed p' = crashed p \<and> chan_closed p' = chan_closed p \<and> ctx_done p' = ctx_done p"
  by (erule worker_stepE) simp_all

lemma worker_run_pool:
  "worker_run p es p' \<Longrightarrow> \<not> crashed p \<Longrightarrow> pool_run p es p' \<and> \<not> crashed p' \<and>
     chan_closed p' = chan_closed p \<and> ctx_done p' = ctx_done p"
  by (induction rule: worker_run.induct)
    (auto dest: worker_step_frame intro: run_Nil run_snoc pool_step.work)

lemma worker_run_no_submit: "worker_run p es p' \<Longrightarrow> seen submitted_of es = []"
  by (induction rule: worker_run.induct) (auto elim: worker_stepE)

lemma worker_progress:
  assumes "chan_closed p" and "blocks p \<noteq> None" and "w \<in> set (workers p)" and "w \<noteq> Exited"
  shows "\<exists>e p'. worker_step p e p'"
proof -
  from assms(3) obtain i where i: "i < length (workers p)" "workers p ! i = w"
    by (auto simp: in_set_conv_nth)
  show ?thesis
  proof (cases w)
    case Waiting
    from assms(2) obtain q where q: "blocks p = Some q" by blast
    show ?thesis
    proof (cases q)
      case Nil
      with i q Waiting assms(1) show ?thesis by (blast intro: worker_step.wexit)
    next
      case (Cons b bs)
      with i q Waiting show ?thesis by (blast intro: worker_step.receive)
    qed
  next
    case (Holding b)
    with i show ?thesis by (cases "ctx_done p") (blast intro: worker_step.intros)+
  qed (use i assms(4) in \<open>blast intro: worker_step.intros\<close>)+
qed

text \<open>Left alone, the workers of a closed pool do all exit.\<close>

lemma worker_run_ends:
  "worker_run p ws p' \<Longrightarrow> chan_closed p' \<Longrightarrow> blocks p' \<noteq> None \<Longrightarrow>
     \<exists>ws' p''. worker_run p ws' p'' \<and> (\<forall>w\<in>set (workers p''). w = Exited)"
proof (induction "nat (work_left p')" arbitrary: ws p' rule: less_induct)
  case less
  show ?case
  proof (cases "\<forall>w\<in>set (workers p'). w = Exited")
    case True
    with less.prems(1) show ?thesis by blast
  next
    case False
    then obtain w where "w \<in> set (workers p')" "w \<noteq> Exited" by blast
    with worker_progress less.prems(2,3) obtain e q where e: "worker_step p' e q" by blast
    have "nat (work_left q) < nat (work_left p')"
      using work_left_step [OF e] work_left_nonneg [of q] by linarith
    moreover have "chan_closed q" "blocks q \<noteq> None"
      using e less.prems(2,3) by (auto elim: worker_stepE)
    ultimately show ?thesis using less.hyps wrun_snoc [OF less.prems(1) e] by blast
  qed
qed

text \<open>C5: \<open>Stop\<close> drains the pool. Once the block channel is closed the workers can take only
  boundedly many more steps, and as long as one of them has not exited a step is possible. When
  none is, all have exited, \<open>Stop\<close> can return, no worker counts as active; and unless the context
  was cancelled the channel is empty and every block ever accepted was processed, failed or
  panicked.\<close>

theorem stop_drains:
  assumes "pool_run NewPool es p" and "chan_closed p" and "\<not> crashed p" and "worker_run p ws p'"
  shows "int (length ws) \<le> work_left p \<and>
    ((\<exists>e p''. worker_step p' e p'') \<or>
     (stop_step p' StopReturned p' \<and> activeWorkers p' = 0 \<and>
      (\<not> ctx_done p \<longrightarrow> pool_queue p' = [] \<and> int (length (seen submitted_of es)) =
         processedBlocks p' + panicCount p' + int (length (seen failed_of (es @ ws))))))"
proof -
  note run = worker_run_pool [OF assms(4,3)]
  have inv: "pool_inv (es @ ws) p'" using pool_inv_run [OF pool_run_trans refl] run assms(1) by blast
  have nb: "blocks p' \<noteq> None" using inv run assms(2) by (auto simp: pool_inv_def flag_inv_def)
  have "stop_step p' StopReturned p' \<and> activeWorkers p' = 0 \<and>
      (\<not> ctx_done p \<longrightarrow> pool_queue p' = [] \<and> int (length (seen submitted_of es)) =
         processedBlocks p' + panicCount p' + int (length (seen failed_of (es @ ws))))"
    if "\<nexists>e p''. worker_step p' e p''"
  proof -
    have ex: "\<forall>w\<in>set (workers p'). w = Exited" using that worker_progress [of p'] nb run assms(2) by blast
    then have ws: "workers p' = replicate (length (workers p')) Exited" by (simp add: replicate_eqI)
    have zero: "pcs pc_active p' = 0" "pcs pc_live p' = 0" "pcs pc_busy p' = 0"
      unfolding pcs_def by (subst ws; simp)+
    have ne: "workers p' \<noteq> []" using inv nb by (auto simp: pool_inv_def flag_inv_def)
    then have "Exited \<in> set (workers p')" using ex by (cases "workers p'") auto
    then have q: "\<not> ctx_done p \<longrightarrow> pool_queue p' = [] \<and> seen dropped_of (es @ ws) = []"
      using inv run by (auto simp: pool_inv_def flag_inv_def)
    have "seen submitted_of (es @ ws) = seen submitted_of es"
      using worker_run_no_submit [OF assms(4)] by (simp add: seen_def)
    then show ?thesis
      using inv zero q run assms(2)
      by (auto simp: pool_inv_def queue_inv_def worker_inv_def event_inv_def intro: stop_step.wait_done)
  qed
  moreover have "int (length ws) \<le> work_left p"
    using work_left_run [OF assms(4)] work_left_nonneg [of p'] by linarith
  ultimately show ?thesis by blast
qed

definition stop_trace :: "nat pool_event list" where
  "stop_trace = [PoolStarted 1, WorkerStarted 0, Submitted 7, StopSignalled, ChannelClosed]"

definition drain_trace :: "nat pool_event list" where
  "drain_trace = [Received 0 7, Began 0 7, Processed 0 7, WorkerExited 0]"

definition closed_pool :: "nat pool" where
  "closed_pool = \<lparr>blocks = Some [7], chan_closed = True, stop_closed = True, ctx_done = False,
     crashed = False, wg = 1, activeWorkers = 1, numWorkers = 1, panicCount = 0, processedBlocks = 0,
     workers = [Waiting]\<rparr>"

definition drained_pool :: "nat pool" where
  "drained_pool = \<lparr>blocks = Some [], chan_closed = True, stop_closed = True, ctx_done = False,
     crashed = False, wg = 0, activeWorkers = 0, numWorkers = 1, panicCount = 0, processedBlocks = 1,
     workers = [Exited]\<rparr>"

lemma stop_trace_run: "pool_run NewPool stop_trace closed_pool"
  by (rule exec_events_sound) (simp add: stop_trace_def NewPool_def Start_def at_def closed_pool_def)

lemma drain_run: "worker_run closed_pool drain_trace drained_pool"
proof -
  let ?p1 = "closed_pool\<lparr>blocks := Some [], workers := [Holding 7]\<rparr>"
  let ?p2 = "?p1\<lparr>workers := [Processing 7]\<rparr>"
  let ?p3 = "?p2\<lparr>processedBlocks := 1, workers := [Waiting]\<rparr>"
  have "worker_run closed_pool ((([] @ [Received 0 7]) @ [Began 0 7]) @ [Processed 0 7]) ?p3"
    using worker_step.receive [of 0 closed_pool 7 "[]"] worker_step.wbegin [of 0 ?p1 7]
      worker_step.wdone [of 0 ?p2 7]
    by (intro wrun_snoc [of _ _ ?p2] wrun_snoc [of _ _ ?p1] wrun_snoc [of _ _ closed_pool] wrun_Nil)
      (simp_all add: closed_pool_def)
  moreover have "worker_step ?p3 (WorkerExited 0) drained_pool"
    using worker_step.wexit [of 0 ?p3] by (simp add: closed_pool_def drained_pool_def)
  ultimately show ?thesis unfolding drain_trace_def by (auto dest: wrun_snoc)
qed

theorem stop_drains_witness:
  "pool_run NewPool stop_trace closed_pool \<and> worker_run closed_pool drain_trace drained_pool \<and>
   stop_step drained_pool StopReturned drained_pool"
proof -
  have "\<not> worker_step drained_pool e p''" for e p''
    by (auto simp: drained_pool_def elim!: worker_stepE)
  with stop_drains [OF stop_trace_run _ _ drain_run] stop_trace_run drain_run show ?thesis
    by (auto simp: closed_pool_def)
qed

text \<open>Submitting to a stopped pool can bring the process down. A \<open>Submit\<close> panics in exactly the
  states in which \<open>Stop\<close> has closed the block channel; there its \<open>select\<close> may as well return the
  error, but it never accepts the block, and a second \<open>Stop\<close> panics too.\<close>

theorem submit_after_stop:
  assumes "pool_run NewPool es p"
  shows "((\<exists>p'. submit_step p (SubmitPanicked b) p') \<longleftrightarrow> ChannelClosed \<in> set es) \<and>
    (ChannelClosed \<in> set es \<longrightarrow> submit_step p (Refused b) p \<and>
       \<not> (\<exists>p'. submit_step p (Submitted b) p') \<and> stop_step p StopPanicked (p\<lparr>crashed := True\<rparr>))"
proof -
  have "pool_run p0 es p \<Longrightarrow> p0 = NewPool \<Longrightarrow> chan_closed p \<longleftrightarrow> ChannelClosed \<in> set es" for p0
  proof (induction rule: pool_run.induct)
    case (run_snoc p es p' e p'')
    from run_snoc.hyps(2) have "chan_closed p'' \<longleftrightarrow> chan_closed p' \<or> e = ChannelClosed"
      by (elim pool_stepE submit_stepE stop_stepE worker_stepE) (auto simp: Start_def split: if_splits)
    with run_snoc.IH run_snoc.prems show ?case by auto
  qed (simp add: NewPool_def)
  then have c: "chan_closed p \<longleftrightarrow> ChannelClosed \<in> set es" using assms by blast
  have "chan_closed p \<longrightarrow> stop_closed p"
    using pool_inv_run [OF assms refl] by (simp add: pool_inv_def flag_inv_def)
  with c show ?thesis
    by (auto simp: submitted_iff submit_panicked_iff intro: submit_step.refuse stop_step.close_again)
qed

theorem submit_after_stop_witness:
  "\<exists>p'. submit_step closed_pool (SubmitPanicked 8) p'"
  using submit_after_stop [OF stop_trace_run, of 8] by (simp add: stop_trace_def)

section \<open>Order\<close>

fun held_of :: "'b worker_pc \<Rightarrow> 'b list" where
  "held_of (Holding b) = [b]"
| "held_of w = []"

text \<open>With one worker, the blocks received are those begun, the one in hand, or the one dropped.\<close>

definition one_inv :: "'b pool_event list \<Rightarrow> 'b pool \<Rightarrow> bool" where
  "one_inv es p \<longleftrightarrow> (case workers p of
      [] \<Rightarrow> seen received_of es = [] \<and> seen began_of es = [] \<and> seen dropped_of es = []
    | [w] \<Rightarrow> seen received_of es = seen began_of es @ held_of w @ seen dropped_of es \<and>
        (w \<noteq> Exited \<longrightarrow> seen dropped_of es = [])
    | _ \<Rightarrow> True)"

lemma one_inv_step:
  assumes "one_inv es p" and "pool_inv es p" and "pool_step p e p'"
  shows "one_inv (es @ [e]) p'"
  using assms(3)
proof cases
  case (start n)
  with assms(1,2) show ?thesis
    by (cases "nat n"; cases "nat n - 1")
      (auto simp: one_inv_def pool_inv_def flag_inv_def Start_def split: if_splits list.splits)
next
  case submit
  from submit(2) assms(1) show ?thesis
    by (cases rule: submit_stepE) (auto simp: one_inv_def split: list.splits)
next
  case stop
  from stop(2) assms(1) show ?thesis
    by (cases rule: stop_stepE) (auto simp: one_inv_def split: list.splits)
next
  case work
  show ?thesis
  proof (cases "length (workers p) = 1")
    case True
    then obtain w where w: "workers p = [w]" by (auto simp: length_Suc_conv)
    from work(2) assms(1) show ?thesis
      by (cases rule: worker_stepE) (auto simp: one_inv_def w)
  next
    case False
    from work(2) have "length (workers p') = length (workers p)" "workers p \<noteq> []"
      by (auto elim!: worker_stepE)
    with False show ?thesis by (auto simp: one_inv_def split: list.splits)
  qed
next
  case cancel
  with assms(1) show ?thesis by (auto simp: one_inv_def split: list.splits)
qed

lemma one_inv_run: "pool_run p0 es p \<Longrightarrow> p0 = NewPool \<Longrightarrow> one_inv es p"
proof (induction rule: pool_run.induct)
  case (run_Nil p)
  then show ?case by (simp add: one_inv_def NewPool_def)
next
  case (run_snoc p es p' e p'')
  with pool_inv_run [OF run_snoc.hyps(1)] one_inv_step show ?case by blast
qed

lemma run_start:
  assumes "1 \<le> n" and "n \<le> 256"
  shows "pool_run NewPool [PoolStarted n] (NewPool\<lparr>numWorkers := n, blocks := Some [], wg := n,
     workers := replicate (nat n) Fresh\<rparr>)"
  using assms by (intro exec_events_sound) (simp add: NewPool_def Start_def)

text \<open>Order of processing. With a single worker, blocks are begun in the order in which they
  were submitted. With two or more workers the pool does not keep the order: there is a run in
  which the second block submitted is processed to the end before the first one is begun, so
  consecutive blocks of a chain reach the reorg engine in the wrong order.\<close>

theorem pool_order:
  "(pool_run NewPool (es :: 'b pool_event list) p \<longrightarrow> numWorkers p = 1 \<longrightarrow>
      (\<exists>rest. seen submitted_of es = seen began_of es @ rest)) \<and>
   (2 \<le> n \<longrightarrow> n \<le> 256 \<longrightarrow> (\<exists>es' p'. pool_run NewPool (PoolStarted n # es') p' \<and>
      seen submitted_of es' = [b1, b2 :: 'b] \<and> seen processed_of es' = [b2] \<and> seen began_of es' = [b2, b1]))"
proof (intro conjI impI)
  assume r: "pool_run NewPool es p" and one: "numWorkers p = 1"
  note inv = pool_inv_run [OF r refl]
  have "length (workers p) = 1"
    using inv one by (cases "blocks p") (auto simp: pool_inv_def flag_inv_def)
  then obtain w where "workers p = [w]" by (auto simp: length_Suc_conv)
  with one_inv_run [OF r refl] inv show "\<exists>rest. seen submitted_of es = seen began_of es @ rest"
    by (auto simp: one_inv_def pool_inv_def queue_inv_def)
next
  assume n: "2 \<le> n" "n \<le> 256"
  let ?es = "[WorkerStarted 0, WorkerStarted 1, Submitted b1, Submitted b2, Received 0 b1, Received 1 b2,
    Began 1 b2, Processed 1 b2, Began 0 b1]"
  define p1 :: "'b pool" where "p1 = NewPool\<lparr>numWorkers := n, blocks := Some [], wg := n, workers := replicate (nat n) Fresh\<rparr>"
  have "0 < nat n" "1 < nat n" using n by simp_all
  then have "exec_events p1 ?es \<noteq> None"
    using n by (simp add: p1_def NewPool_def at_def)
  then obtain p' where "pool_run p1 ?es p'" using exec_events_sound by blast
  from pool_run_trans [OF this [unfolded p1_def] run_start] n
  have "pool_run NewPool (PoolStarted n # ?es) p'" by simp
  then show "\<exists>es' p'. pool_run NewPool (PoolStarted n # es') p' \<and>
      seen submitted_of es' = [b1, b2] \<and> seen processed_of es' = [b2] \<and> seen began_of es' = [b2, b1]"
    by (intro exI [of _ ?es] exI [of _ p']) (simp add: seen_def)
qed

theorem pool_order_witness:
  "\<exists>es' p'. pool_run NewPool (PoolStarted 4 # es') p' \<and> seen submitted_of es' = [100, 101 :: nat] \<and>
     seen began_of es' = [101, 100]"
  using pool_order [of "[]" NewPool 4 100 101] by auto

end
