(* ===== verification/Load_Generator.thy ===== *)
theory Load_Generator
  imports Reorg
begin

text \<open>
  The block generator of the load tester (\<^verbatim>\<open>internal/loadtest/generator.go\<close>), and what becomes of its
  blocks in the reorg engine. The generator of \<open>math/rand\<close> is an argument: a state \<open>'g\<close> with the
  operations the code calls. Its two calls return a value and the next state.
\<close>

record 'g rand_source =
  rand_New :: "i64 \<Rightarrow> 'g"
  rand_Read :: "nat \<Rightarrow> 'g \<Rightarrow> byte list \<times> 'g"
  rand_Int63n :: "int \<Rightarrow> 'g \<Rightarrow> int \<times> 'g"

record block_generator =
  seed :: i64

definition NewBlockGenerator :: "i64 \<Rightarrow> block_generator" where
  "NewBlockGenerator s = \<lparr>seed = s\<rparr>"

definition generateHash :: "(byte list \<Rightarrow> hash) \<Rightarrow> 'g rand_source \<Rightarrow> u64 \<Rightarrow> 'g \<Rightarrow> hash \<times> 'g" where
  "generateHash sha256 r blockNumber g =
     (let buf = be_bytes 8 (unat blockNumber)
      in case rand_Read r 24 g of (randomBytes, g1) \<Rightarrow> (sha256 (buf @ randomBytes), g1))"

definition generateAddress :: "'g rand_source \<Rightarrow> 'g \<Rightarrow> address \<times> 'g" where
  "generateAddress r g = rand_Read r 20 g"

definition generateU256Value :: "'g rand_source \<Rightarrow> 'g \<Rightarrow> u256 \<times> 'g" where
  "generateU256Value r g =
     (case rand_Int63n r 1000 g of (k, g1) \<Rightarrow>
        (let ethAmount = k + 1; weiPerEth = 10 ^ 18
         in (NewU256FromBigInt (ethAmount * weiPerEth), g1)))"

definition generateTransaction :: "'g rand_source \<Rightarrow> 'g \<Rightarrow> transaction \<times> 'g" where
  "generateTransaction r g =
     (case generateAddress r g of (from, g1) \<Rightarrow>
      (case generateAddress r g1 of (to, g2) \<Rightarrow>
       (case generateU256Value r g2 of (v, g3) \<Rightarrow>
          (\<lparr>From = from, To = to, Value = v, Data = []\<rparr>, g3))))"

fun generate_txs :: "'g rand_source \<Rightarrow> nat \<Rightarrow> 'g \<Rightarrow> transaction list \<times> 'g" where
  "generate_txs r 0 g = ([], g)"
| "generate_txs r (Suc k) g =
     (case generateTransaction r g of (tx, g1) \<Rightarrow>
      (case generate_txs r k g1 of (txs, g2) \<Rightarrow> (tx # txs, g2)))"

text \<open>A negative count panics in \<open>make\<close>: \<open>None\<close>.\<close>

definition GenerateBlock ::
  "(byte list \<Rightarrow> hash) \<Rightarrow> 'g rand_source \<Rightarrow> u64 \<Rightarrow> int \<Rightarrow> block_generator \<Rightarrow> block option" where
  "GenerateBlock sha256 r blockNumber txCount bg =
     (let blockSeed = seed bg + blockNumber; g = rand_New r blockSeed
      in case generateHash sha256 r (blockNumber - 1) g of (parentHash, g1) \<Rightarrow>
         if txCount < 0 then None
         else (case generate_txs r (nat txCount) g1 of (txs, g2) \<Rightarrow>
                 Some \<lparr>Number = blockNumber, ParentHash = parentHash,
                       Timestamp = 1700000000 + blockNumber, Transactions = txs\<rparr>))"

section \<open>The generated blocks\<close>

text \<open>The documented results of the two calls.\<close>

definition rand_ok :: "'g rand_source \<Rightarrow> bool" where
  "rand_ok r \<longleftrightarrow> (\<forall>n g. length (fst (rand_Read r n g)) = n) \<and>
     (\<forall>n g. 0 < n \<longrightarrow> 0 \<le> fst (rand_Int63n r n g) \<and> fst (rand_Int63n r n g) < n)"

definition load_tx :: "transaction \<Rightarrow> bool" where
  "load_tx tx \<longleftrightarrow> wf_transaction tx \<and> Data tx = [] \<and>
     (\<exists>k. 1 \<le> k \<and> k \<le> 1000 \<and> BigInt (Value tx) = k * 10 ^ 18)"

lemma generateTransaction_ok:
  assumes "rand_ok r"
  shows "load_tx (fst (generateTransaction r g))"
proof -
  obtain a g1 where a: "rand_Read r 20 g = (a, g1)" by fastforce
  obtain b g2 where b: "rand_Read r 20 g1 = (b, g2)" by fastforce
  obtain k g3 where k: "rand_Int63n r 1000 g2 = (k, g3)" by fastforce
  have ab: "length a = 20" "length b = 20" using assms a b by (metis fst_conv rand_ok_def)+
  have "(0 :: int) < 1000" by simp
  then have k1: "0 \<le> k" "k < 1000" using assms k by (metis fst_conv rand_ok_def)+
  have "BigInt (NewU256FromBigInt ((k + 1) * 10 ^ 18)) = (k + 1) * 10 ^ 18"
    using k1 by (subst BigInt_of_int) simp_all
  with ab k1 show ?thesis
    by (auto simp: load_tx_def generateTransaction_def generateAddress_def generateU256Value_def a b k
        wf_transaction_def wf_NewU256FromBigInt intro!: exI [of _ "k + 1"])
qed

lemma generate_txs_ok:
  assumes "rand_ok r"
  shows "length (fst (generate_txs r n g)) = n \<and> list_all load_tx (fst (generate_txs r n g))"
proof (induction n arbitrary: g)
  case (Suc n)
  obtain tx g1 where t: "generateTransaction r g = (tx, g1)" by fastforce
  obtain txs g2 where ts: "generate_txs r n g1 = (txs, g2)" by fastforce
  have "load_tx tx" using generateTransaction_ok [OF assms, of g] t by simp
  with Suc [of g1] t ts show ?case by simp
qed simp

text \<open>What a generated block is made of.\<close>

definition load_block :: "u64 \<Rightarrow> nat \<Rightarrow> block \<Rightarrow> bool" where
  "load_block n k b \<longleftrightarrow> wf_block b \<and> Number b = n \<and> Timestamp b = 1700000000 + n \<and>
     length (Transactions b) = k \<and> list_all load_tx (Transactions b)"

lemma GenerateBlock_ok:
  assumes "rand_ok r" and "digest32 sha256" and "0 \<le> k"
  shows "\<exists>b. GenerateBlock sha256 r n k bg = Some b \<and> load_block n (nat k) b"
proof -
  obtain h g1 where h: "generateHash sha256 r (n - 1) (rand_New r (seed bg + n)) = (h, g1)" by fastforce
  then have "length h = 32"
    using assms(2) by (auto simp: generateHash_def digest32_def split: prod.splits)
  moreover obtain txs g2 where t: "generate_txs r (nat k) g1 = (txs, g2)" by fastforce
  moreover have "length txs = nat k" "list_all load_tx txs"
    using generate_txs_ok [OF assms(1), of "nat k" g1] t by simp_all
  moreover from this(2) have "list_all wf_transaction txs" by (auto simp: list_all_iff load_tx_def)
  ultimately show ?thesis
    using h assms(3) by (simp add: GenerateBlock_def load_block_def wf_block_def)
qed

section \<open>What becomes of them\<close>

text \<open>An FFI client that refuses some blocks in every state: the engine above it can neither apply nor
  replay them.\<close>

definition has_value :: "block \<Rightarrow> bool" where
  "has_value b \<longleftrightarrow> list_ex (\<lambda>tx. 0 < u256_val (Value tx)) (Transactions b)"

locale refusing_client = ffi_client +
  fixes bad :: "block \<Rightarrow> bool"
  assumes client_refuses: "inv c \<Longrightarrow> ok blk \<Longrightarrow> bad blk \<Longrightarrow> isl (snd (client_ApplyBlock cl blk c))"
begin

lemma HandleReorg_refuses:
  assumes "inv (re_ffi re)" and "ok blk" and "bad blk"
  shows "isl (snd (HandleReorg cl clk fork blk re))"
proof -
  obtain c1 q1 where rb: "client_RollbackTo cl fork (re_ffi re) = (c1, q1)" by fastforce
  have "inv c1" using client_rollback [OF assms(1) rb] by simp
  then obtain c2 e where "client_ApplyBlock cl blk c1 = (c2, Inl e)"
    using client_refuses [OF _ assms(2,3)] by (metis isl_def prod.collapse)
  with rb show ?thesis
    by (cases clk; cases q1) (simp_all add: HandleReorg_def Rollback_def Let_def)
qed

lemma ProcessBlock_refuses:
  assumes "inv (re_ffi re)" and "ok blk" and "bad blk"
  shows "isl (snd (ProcessBlock cl sha256 clk blk re))"
proof (cases "DetectReorg sha256 blk re")
  case (Inr d)
  obtain isR fork where d: "d = (isR, fork)" by fastforce
  show ?thesis
  proof (cases isR)
    case True
    obtain re1 e where "HandleReorg cl clk fork blk re = (re1, Inl e)"
      using HandleReorg_refuses [OF assms] by (metis isl_def prod.collapse)
    with Inr d True show ?thesis by (simp add: ProcessBlock_def)
  next
    case False
    obtain c e where "client_ApplyBlock cl blk (re_ffi re) = (c, Inl e)"
      using client_refuses [OF assms] by (metis isl_def prod.collapse)
    with Inr d False show ?thesis by (simp add: ProcessBlock_def)
  qed
qed (simp add: ProcessBlock_def)

lemma run_keeps_inv:
  assumes "inv (re_ffi re)" and "no_nil (ringBuffer re)" and "list_all (\<lambda>cb. ok (snd cb)) cbs"
  shows "inv (re_ffi (fold (process_step cl sha256) cbs re)) \<and>
    no_nil (ringBuffer (fold (process_step cl sha256) cbs re))"
  using assms
proof (induction cbs arbitrary: re)
  case (Cons cb cbs)
  obtain re1 q where p: "ProcessBlock cl sha256 (fst cb) (snd cb) re = (re1, q)" by fastforce
  have "inv (re_ffi re1) \<and> no_nil (ringBuffer re1)"
    using ProcessBlock_contract [OF Cons.prems(1) _ Cons.prems(2) p] Cons.prems(3) by simp
  then show ?case using Cons.IH [of re1] Cons.prems(3) p
    by (cases cb) (simp add: process_step_def)
qed simp

end

text \<open>No account of the engine below the client holds anything.\<close>

definition unfunded :: "ffi_state \<Rightarrow> bool" where
  "unfunded f \<longleftrightarrow> (case engine f of None \<Rightarrow> False | Some e \<Rightarrow> funds 0 e)"

lemma ApplyBlock_unfunded:
  assumes "digest32 blake3" and "unfunded f" and "wf_block blk" and "ApplyBlock blake3 (Some blk) f = (f', r)"
  shows "unfunded f' \<and> (has_value blk \<longrightarrow> isl r)"
proof (cases "ValidateBlock (Some blk) (lastBlockNumber f)")
  case (Inl err)
  with assms show ?thesis by (auto simp: ApplyBlock_def)
next
  case (Inr u)
  obtain e where e: "engine f = Some e" "funds 0 e" using assms(2) by (auto simp: unfunded_def split: option.splits)
  have "ValidateBlock (Some blk) (lastBlockNumber f) = Inr ()" using Inr by simp
  note t = ApplyBlock_through [OF assms(1) e(1) assms(3) this]
  obtain e' q where ab: "apply_block blake3 blk e = (e', q)" by fastforce
  have f0: "funds 0 e'" using funds_apply_block [OF e(2) _ assms(3), of blake3] ab by simp
  have "isl q" if v: "has_value blk"
  proof -
    obtain tx where tx: "tx \<in> set (Transactions blk)" "0 < u256_val (Value tx)"
      using v by (auto simp: has_value_def list_ex_iff)
    obtain e1 r1 where s: "apply_transactions (Transactions blk) (push_snapshot e) = (e1, r1)" by fastforce
    have "r1 = Inl InsufficientBalance"
      using apply_transactions_zero [OF s _ _ _ tx] e(2) assms(3) by (simp add: funds_def wf_block_def)
    with s ab show ?thesis by (auto simp: apply_block_def split: if_splits)
  qed
  with t ab f0 e assms(2,4) show ?thesis
    by (cases q) (auto simp: unfunded_def split: if_splits)
qed

lemma RollbackTo_unfunded:
  assumes "unfunded f" and "RollbackTo n f = (f', r)"
  shows "unfunded f'"
proof -
  obtain e where e: "engine f = Some e" "funds 0 e" using assms(1) by (auto simp: unfunded_def split: option.splits)
  obtain e' q where "rollback_to n e = (e', q)" by fastforce
  moreover from this have "funds 0 e'" using funds_rollback_to [OF e(2), of n] by simp
  ultimately show ?thesis
    using e(1) assms(2) by (cases q) (auto simp: RollbackTo_def c_rollback_to_def unfunded_def)
qed

interpretation unfunded_client: refusing_client "go_ffi blake3" lastBlockNumber
  "\<lambda>f. digest32 blake3 \<and> synced f \<and> unfunded f" wf_block has_value
proof unfold_locales
  fix c blk c' and r :: "ffi_error + hash"
  assume "digest32 blake3 \<and> synced c \<and> unfunded c" "wf_block blk"
    "client_ApplyBlock (go_ffi blake3) blk c = (c', r)"
  then show "(digest32 blake3 \<and> synced c' \<and> unfunded c') \<and> (case r of
      Inr _ \<Rightarrow> lastBlockNumber c' = Number blk \<and> Number blk = lastBlockNumber c + 1
    | Inl _ \<Rightarrow> lastBlockNumber c' = lastBlockNumber c)"
    using go_client.client_apply [of blake3 c blk c' r] ApplyBlock_unfunded [of blake3 c blk c' r] by auto
next
  fix c c' n and q :: "ffi_error + unit"
  assume "digest32 blake3 \<and> synced c \<and> unfunded c" "client_RollbackTo (go_ffi blake3) n c = (c', q)"
  then show "(digest32 blake3 \<and> synced c' \<and> unfunded c') \<and>
      (case q of Inr _ \<Rightarrow> lastBlockNumber c' = n | Inl _ \<Rightarrow> lastBlockNumber c' = lastBlockNumber c)"
    using go_client.client_rollback [of blake3 c n c' q] RollbackTo_unfunded [of c n c' q] by auto
next
  fix c blk
  assume a: "digest32 blake3 \<and> synced c \<and> unfunded c" "wf_block blk" "has_value blk"
  obtain c' r where "ApplyBlock blake3 (Some blk) c = (c', r)" by fastforce
  with ApplyBlock_unfunded [of blake3 c blk c' r] a
  show "isl (snd (client_ApplyBlock (go_ffi blake3) blk c))" by simp
qed

lemma load_block_value: "load_block n k b \<Longrightarrow> 0 < k \<Longrightarrow> has_value b"
  by (cases "Transactions b")
    (auto simp: load_block_def has_value_def load_tx_def BigInt_def u256_val_def)

lemma fresh_unfunded: "unfunded fresh_ffi"
  by (simp add: unfunded_def fresh_ffi funds_engine_new)

text \<open>Generated blocks are proper blocks. For every seed, number and count that is not negative, the
  generator returns a block with that number and count whose arrays have the sizes of the Go types,
  whose transactions carry no data and move between 1 and 1000 ether each, and which the bridge's
  validator accepts on an engine that expects the number; a negative count panics.\<close>

theorem GenerateBlock_spec:
  assumes "rand_ok r" and "digest32 sha256"
  shows "if k < 0 then GenerateBlock sha256 r n k bg = None
    else \<exists>b. GenerateBlock sha256 r n k bg = Some b \<and> wf_block b \<and> Number b = n \<and>
      length (Transactions b) = nat k \<and>
      list_all (\<lambda>tx. Data tx = [] \<and> 10 ^ 18 \<le> BigInt (Value tx) \<and> BigInt (Value tx) \<le> 1000 * 10 ^ 18)
        (Transactions b) \<and>
      (ValidateBlock (Some b) lastN = Inr () \<longleftrightarrow> lastN = 0 \<or> n = lastN + 1)"
proof (cases "k < 0")
  case True
  then show ?thesis by (simp add: GenerateBlock_def split: prod.split)
next
  case False
  with GenerateBlock_ok [OF assms, of k n bg] obtain b where
    b: "GenerateBlock sha256 r n k bg = Some b" "load_block n (nat k) b" by auto
  have tx: "Data tx = [] \<and> 10 ^ 18 \<le> BigInt (Value tx) \<and> BigInt (Value tx) \<le> 1000 * 10 ^ 18"
    if "tx \<in> set (Transactions b)" for tx
    using b(2) that by (auto simp: load_block_def list_all_iff load_tx_def)
  have "ValidateBlock (Some b) lastN = Inr () \<longleftrightarrow> lastN = 0 \<or> n = lastN + 1"
    using b(2) tx by (auto simp: ValidateBlock_ok load_block_def wf_block_def list_all_iff small_tx_def)
  with False b tx show ?thesis
    by (auto simp: load_block_def list_all_iff)
qed

text \<open>A source that counts its calls.\<close>

definition counting_rand :: "nat rand_source" where
  "counting_rand = \<lparr>rand_New = unat, rand_Read = (\<lambda>n g. (replicate n (of_nat g), Suc g)),
     rand_Int63n = (\<lambda>n g. (int g mod n, Suc g))\<rparr>"

lemma rand_ok_counting: "rand_ok counting_rand"
  by (simp add: rand_ok_def counting_rand_def)

theorem GenerateBlock_spec_witness:
  "GenerateBlock (\<lambda>m. replicate 32 0) counting_rand 3 (- 1) (NewBlockGenerator 42) = None \<and>
   (\<exists>b. GenerateBlock (\<lambda>m. replicate 32 0) counting_rand 3 2 (NewBlockGenerator 42) = Some b \<and>
      length (Transactions b) = 2)"
  using GenerateBlock_spec [OF rand_ok_counting digest32_const, of "- 1" 3 "NewBlockGenerator 42"]
    GenerateBlock_spec [OF rand_ok_counting digest32_const, of 2 3 "NewBlockGenerator 42"]
  by auto

text \<open>C17: no load test ever reaches the Rust state. From a freshly initialised engine, whatever
  well-formed blocks the reorg engine processed before, live or generated, every generated block
  with at least one transaction is refused, because its sender has no balance and nothing in the
  engine creates any; the buffer, the reorg events and the counter stay as they were.\<close>

theorem load_test_blocks_refused:
  assumes "digest32 blake3" and "digest32 sha256" and "rand_ok r" and "1 \<le> k"
    and "list_all (\<lambda>cb. wf_block (snd cb)) cbs"
    and "re = fold (process_step (go_ffi blake3) sha256) cbs (NewReorgEngine fresh_ffi)"
  shows "\<exists>b. GenerateBlock sha256 r n k bg = Some b \<and>
    (case ProcessBlock (go_ffi blake3) sha256 clk b re of
       (re', q) \<Rightarrow> isl q \<and> ringBuffer re' = ringBuffer re \<and> reorgEvents re' = reorgEvents re \<and>
         reorgCount re' = reorgCount re)"
proof -
  from GenerateBlock_ok [OF assms(3,2), of k n bg] assms(4) obtain b where
    b: "GenerateBlock sha256 r n k bg = Some b" "load_block n (nat k) b" by auto
  have ok: "wf_block b" "has_value b"
    using b(2) load_block_value [OF b(2)] assms(4) by (simp_all add: load_block_def)
  have "digest32 blake3 \<and> synced (re_ffi (NewReorgEngine fresh_ffi)) \<and> unfunded (re_ffi (NewReorgEngine fresh_ffi))"
    "no_nil (ringBuffer (NewReorgEngine fresh_ffi))"
    using assms(1) synced_fresh fresh_unfunded by (simp_all add: NewReorgEngine_def)
  from unfunded_client.run_keeps_inv [OF this assms(5)]
  have inv: "digest32 blake3 \<and> synced (re_ffi re) \<and> unfunded (re_ffi re)" "no_nil (ringBuffer re)"
    by (simp_all add: assms(6))
  obtain re' q where p: "ProcessBlock (go_ffi blake3) sha256 clk b re = (re', q)" by fastforce
  have "isl q" using unfunded_client.ProcessBlock_refuses [OF inv(1) ok] p by (metis snd_conv)
  then obtain e where "q = Inl e" by (auto simp: isl_def)
  with unfunded_client.ProcessBlock_contract [OF inv(1) ok(1) inv(2) p] b p show ?thesis by simp
qed

theorem load_test_blocks_refused_witness:
  "\<exists>b. GenerateBlock (\<lambda>m. replicate 32 0) counting_rand 1 10 (NewBlockGenerator 42) = Some b \<and>
     isl (snd (ProcessBlock (go_ffi (\<lambda>m. replicate 32 0)) (\<lambda>m. replicate 32 0) (0, 0, 0) b
       (NewReorgEngine fresh_ffi)))"
  using load_test_blocks_refused [OF digest32_const digest32_const rand_ok_counting, of 10 "[]"
      "NewReorgEngine fresh_ffi" 1 "NewBlockGenerator 42" "(0, 0, 0)"]
  unfolding case_prod_unfold by auto

end
