(* ===== verification/Load_Tester.thy ===== *)
theory Load_Tester
  imports Load_Generator Trackers Go_Runtime
begin

text \<open>
  The load tester (\<^verbatim>\<open>internal/loadtest/metrics.go\<close>, \<^verbatim>\<open>tester.go\<close> and \<^verbatim>\<open>report.go\<close>). Clock readings and
  memory statistics are arguments, floating point numbers are rationals with rounding (\<open>rnd\<close>), and
  the worker pool is a state \<open>'p\<close> with the \<open>submit\<close> operation of the interface. The ticker, the
  snapshot goroutine and the context deliver a list of events to the loop.
\<close>

section \<open>Metrics\<close>

record MemorySnapshot =
  sn_Timestamp :: int
  AllocMB :: rat

record ReorgCost =
  rc_Depth :: int
  rc_Rollback :: rat
  rc_Replay :: rat

text \<open>The zero time is \<open>None\<close>.\<close>

record load_metrics =
  lm_latencies :: "rat list"
  gcPauseStartNs :: u64
  gcPauseEndNs :: u64
  gcCountStart :: u32
  gcCountEnd :: u32
  memoryStartMB :: rat
  memoryEndMB :: rat
  memorySnapshots :: "MemorySnapshot list"
  reorgRollbackCosts :: "ReorgCost list"
  lm_startTime :: "int option"
  lm_endTime :: "int option"

definition NewLoadTestMetrics :: load_metrics where
  "NewLoadTestMetrics = \<lparr>lm_latencies = [], gcPauseStartNs = 0, gcPauseEndNs = 0, gcCountStart = 0,
     gcCountEnd = 0, memoryStartMB = 0, memoryEndMB = 0, memorySnapshots = [], reorgRollbackCosts = [],
     lm_startTime = None, lm_endTime = None\<rparr>"

definition alloc_mb :: "(rat \<Rightarrow> rat) \<Rightarrow> mem_stats \<Rightarrow> rat" where
  "alloc_mb rnd mem = rnd (rnd (rnd (of_nat (unat (Alloc mem))) / 1024) / 1024)"

definition metrics_Start :: "(rat \<Rightarrow> rat) \<Rightarrow> int \<Rightarrow> mem_stats \<Rightarrow> load_metrics \<Rightarrow> load_metrics" where
  "metrics_Start rnd now mem m =
     (let mb = alloc_mb rnd mem
      in m\<lparr>lm_startTime := Some now, gcPauseStartNs := PauseTotalNs mem, gcCountStart := NumGC mem,
           memoryStartMB := mb,
           memorySnapshots := memorySnapshots m @ [\<lparr>sn_Timestamp = now, AllocMB = mb\<rparr>]\<rparr>)"

definition metrics_Stop :: "(rat \<Rightarrow> rat) \<Rightarrow> int \<Rightarrow> mem_stats \<Rightarrow> load_metrics \<Rightarrow> load_metrics" where
  "metrics_Stop rnd now mem m =
     (let mb = alloc_mb rnd mem
      in m\<lparr>lm_endTime := Some now, gcPauseEndNs := PauseTotalNs mem, gcCountEnd := NumGC mem,
           memoryEndMB := mb,
           memorySnapshots := memorySnapshots m @ [\<lparr>sn_Timestamp = now, AllocMB = mb\<rparr>]\<rparr>)"

definition RecordLatency :: "rat \<Rightarrow> load_metrics \<Rightarrow> load_metrics" where
  "RecordLatency x m = m\<lparr>lm_latencies := lm_latencies m @ [x]\<rparr>"

definition RecordMemorySnapshot :: "(rat \<Rightarrow> rat) \<Rightarrow> int \<Rightarrow> mem_stats \<Rightarrow> load_metrics \<Rightarrow> load_metrics" where
  "RecordMemorySnapshot rnd now mem m =
     m\<lparr>memorySnapshots := memorySnapshots m @ [\<lparr>sn_Timestamp = now, AllocMB = alloc_mb rnd mem\<rparr>]\<rparr>"

definition RecordReorgCost :: "int \<Rightarrow> rat \<Rightarrow> rat \<Rightarrow> load_metrics \<Rightarrow> load_metrics" where
  "RecordReorgCost d rollbackMs replayMs m = m\<lparr>reorgRollbackCosts :=
     reorgRollbackCosts m @ [\<lparr>rc_Depth = d, rc_Rollback = rollbackMs, rc_Replay = replayMs\<rparr>]\<rparr>"

definition GetGCPauseTimeMs :: "(rat \<Rightarrow> rat) \<Rightarrow> load_metrics \<Rightarrow> rat" where
  "GetGCPauseTimeMs rnd m = rnd (rnd (of_nat (unat (gcPauseEndNs m - gcPauseStartNs m))) / 1000000)"

definition GetGCCount :: "load_metrics \<Rightarrow> u32" where
  "GetGCCount m = gcCountEnd m - gcCountStart m"

text \<open>The maximum is taken over the pauses that are read when the method runs.\<close>

definition GetMaxGCPauseMs :: "(rat \<Rightarrow> rat) \<Rightarrow> mem_stats \<Rightarrow> load_metrics \<Rightarrow> rat" where
  "GetMaxGCPauseMs rnd mem m =
     (let gcCount = gcCountEnd m - gcCountStart m;
          n = (if gcCount > 256 then 256 else gcCount);
          maxPause = foldl (\<lambda>mx i. let p = PauseNs mem ! unat ((NumGC mem - of_nat i + 255) mod 256)
                                   in if p > mx then p else mx) 0 [0..<unat n]
      in rnd (rnd (of_nat (unat maxPause)) / 1000000))"

text \<open>\<open>Time.Sub\<close> saturates; \<open>Duration.Seconds\<close> adds the rounded parts.\<close>

definition time_sub :: "int \<Rightarrow> int \<Rightarrow> int" where
  "time_sub a b = max (- (2 ^ 63)) (min (2 ^ 63 - 1) (a - b))"

definition duration_seconds :: "(rat \<Rightarrow> rat) \<Rightarrow> int \<Rightarrow> rat" where
  "duration_seconds rnd d =
     rnd (rnd (of_int (go_quot d 1000000000)) + rnd (rnd (of_int (go_rem d 1000000000)) / 1000000000))"

definition GetMemoryGrowthRateMBPerSec :: "(rat \<Rightarrow> rat) \<Rightarrow> load_metrics \<Rightarrow> rat" where
  "GetMemoryGrowthRateMBPerSec rnd m =
     (case (lm_endTime m, lm_startTime m) of
        (Some e, Some s) \<Rightarrow>
          (let durationSec = duration_seconds rnd (time_sub e s)
           in if durationSec = 0 then 0 else rnd (rnd (memoryEndMB m - memoryStartMB m) / durationSec))
      | _ \<Rightarrow> 0)"

definition GetReorgRollbackCost :: "(rat \<Rightarrow> rat) \<Rightarrow> int \<Rightarrow> load_metrics \<Rightarrow> rat \<times> rat \<times> bool" where
  "GetReorgRollbackCost rnd d m =
     (let (n, rb, rp) = foldl (\<lambda>(n, rb, rp) c. if rc_Depth c = d
              then (n + 1, rnd (rb + rc_Rollback c), rnd (rp + rc_Replay c)) else (n, rb, rp))
            (0 :: int, 0, 0) (reorgRollbackCosts m)
      in if n = 0 then (0, 0, False) else (rnd (rb / rnd (of_int n)), rnd (rp / rnd (of_int n)), True))"

section \<open>The test loop\<close>

record LoadTestConfig =
  TPS :: int
  DurationSeconds :: int
  TransactionsPerBlock :: int

text \<open>A throughput that is not a finite number is \<open>None\<close>.\<close>

record LoadTestResult =
  P50LatencyMs :: rat
  P99LatencyMs :: rat
  ThroughputTPS :: "rat option"
  ErrorCount :: int
  BlocksProcessed :: int
  GCPauseTimeMs :: rat
  GCCount :: u32
  MaxGCPauseMs :: rat
  MemoryStartMB :: rat
  MemoryEndMB :: rat
  MemoryGrowthRateMBPS :: rat

record load_tester_state =
  generator :: block_generator
  tester_metrics :: load_metrics
  tester_latencies :: "rat list"

definition NewLoadTester :: "i64 \<Rightarrow> load_tester_state" where
  "NewLoadTester s = \<lparr>generator = NewBlockGenerator s, tester_metrics = NewLoadTestMetrics, tester_latencies = []\<rparr>"

text \<open>A tick carries the reading that is compared with the deadline and the two readings around
  \<open>Submit\<close>.\<close>

datatype lt_event =
    Tick int int int
  | SnapshotTick int mem_stats
  | CtxDone string

record 'p lt_loop_state =
  lp_metrics :: load_metrics
  lp_block :: u64
  lp_errors :: int
  lp_blocks :: int
  lp_pool :: 'p

datatype 'p lt_loop_result =
    LoopDone "'p lt_loop_state"
  | LoopCancelled string "'p lt_loop_state"
  | LoopPanicked
  | LoopWaiting "'p lt_loop_state"

type_synonym 'p submitter = "block \<Rightarrow> 'p \<Rightarrow> 'p \<times> string option"

definition submit_tick ::
  "(rat \<Rightarrow> rat) \<Rightarrow> 'p submitter \<Rightarrow> int \<Rightarrow> int \<Rightarrow> block \<Rightarrow> 'p lt_loop_state \<Rightarrow> 'p lt_loop_state" where
  "submit_tick rnd submit submitStart since b st =
     (let st1 = st\<lparr>lp_block := lp_block st + 1\<rparr>
      in case submit b (lp_pool st) of
           (p, Some e) \<Rightarrow> st1\<lparr>lp_pool := p, lp_errors := lp_errors st + 1\<rparr>
         | (p, None) \<Rightarrow> st1\<lparr>lp_pool := p, lp_blocks := lp_blocks st + 1,
             lp_metrics := RecordLatency (rnd (of_int (go_quot (time_sub since submitStart) 1000000))) (lp_metrics st)\<rparr>)"

fun lt_loop ::
  "(rat \<Rightarrow> rat) \<Rightarrow> (u64 \<Rightarrow> block option) \<Rightarrow> 'p submitter \<Rightarrow> int \<Rightarrow> lt_event list \<Rightarrow>
   'p lt_loop_state \<Rightarrow> 'p lt_loop_result" where
  "lt_loop rnd gen submit endTime [] st = LoopWaiting st"
| "lt_loop rnd gen submit endTime (CtxDone e # es) st = LoopCancelled e st"
| "lt_loop rnd gen submit endTime (SnapshotTick now mem # es) st =
     lt_loop rnd gen submit endTime es (st\<lparr>lp_metrics := RecordMemorySnapshot rnd now mem (lp_metrics st)\<rparr>)"
| "lt_loop rnd gen submit endTime (Tick now submitStart since # es) st =
     (if now > endTime then LoopDone st
      else (case gen (lp_block st) of
          None \<Rightarrow> LoopPanicked
        | Some b \<Rightarrow> lt_loop rnd gen submit endTime es (submit_tick rnd submit submitStart since b st)))"

section \<open>The run\<close>

text \<open>The readings the run takes in order: at the start of the metrics, for the deadline, at their stop,
  for the duration, and the statistics read for the largest pause.\<close>

record readings =
  rd_metrics_start :: int
  rd_mem_start :: mem_stats
  rd_start :: int
  rd_metrics_stop :: int
  rd_mem_stop :: mem_stats
  rd_end :: int
  rd_mem_max :: mem_stats

text \<open>The ticker's interval; \<open>None\<close> when \<open>NewTicker\<close> panics. A division by zero gives an infinity or
  NaN, which become 0 or the least integer.\<close>

definition ticker_interval :: "(rat \<Rightarrow> rat) \<Rightarrow> LoadTestConfig \<Rightarrow> int option" where
  "ticker_interval rnd cfg =
     (if TPS cfg = 0 \<or> TransactionsPerBlock cfg = 0 then None
      else (let blocksPerSecond = rnd (rnd (of_int (TPS cfg)) / rnd (of_int (TransactionsPerBlock cfg)));
                intervalNs = float_to_int (rnd (1000000000 / blocksPerSecond))
            in if intervalNs \<le> 0 then None else Some intervalNs))"

definition wrap64 :: "int \<Rightarrow> int" where
  "wrap64 z = sint (of_int z :: i64)"

definition test_result ::
  "(rat \<Rightarrow> rat) \<Rightarrow> mem_stats \<Rightarrow> rat \<times> rat \<times> rat option \<Rightarrow> 'p lt_loop_state \<Rightarrow> load_metrics \<Rightarrow> LoadTestResult" where
  "test_result rnd mem q st m =
     \<lparr>P50LatencyMs = fst q, P99LatencyMs = fst (snd q), ThroughputTPS = snd (snd q),
      ErrorCount = lp_errors st, BlocksProcessed = lp_blocks st, GCPauseTimeMs = GetGCPauseTimeMs rnd m,
      GCCount = GetGCCount m, MaxGCPauseMs = GetMaxGCPauseMs rnd mem m, MemoryStartMB = memoryStartMB m,
      MemoryEndMB = memoryEndMB m, MemoryGrowthRateMBPS = GetMemoryGrowthRateMBPerSec rnd m\<rparr>"

datatype 'p run_outcome =
    RunResult load_tester_state 'p LoadTestResult
  | RunCancelled load_tester_state 'p string
  | RunPanicked
  | RunWaiting

text \<open>What follows the label \<open>done\<close>.\<close>

definition finish_test ::
  "(rat \<Rightarrow> rat) \<Rightarrow> readings \<Rightarrow> LoadTestConfig \<Rightarrow> load_tester_state \<Rightarrow> 'p lt_loop_state \<Rightarrow> 'p run_outcome" where
  "finish_test rnd rd cfg lt st =
     (let m = metrics_Stop rnd (rd_metrics_stop rd) (rd_mem_stop rd) (lp_metrics st);
          duration = time_sub (rd_end rd) (rd_start rd);
          lats = lm_latencies m;
          lt1 = lt\<lparr>tester_metrics := m\<rparr>
      in if lats = [] then RunResult lt1 (lp_pool st) (test_result rnd (rd_mem_max rd) (0, 0, Some 0) st m)
         else (let sorted = sort lats; n = int (length sorted)
               in case (at_index sorted (percentile_index rnd n (50 / 100)),
                        at_index sorted (percentile_index rnd n (99 / 100))) of
                    (Some p50, Some p99) \<Rightarrow>
                      (let secs = duration_seconds rnd duration;
                           processed = rnd (of_int (wrap64 (lp_blocks st * TransactionsPerBlock cfg)));
                           actualTPS = (if secs = 0 then None else Some (rnd (processed / secs)))
                       in RunResult (lt1\<lparr>tester_latencies := lats\<rparr>) (lp_pool st)
                            (test_result rnd (rd_mem_max rd) (p50, p99, actualTPS) st m))
                  | _ \<Rightarrow> RunPanicked))"

definition RunLoadTest ::
  "(rat \<Rightarrow> rat) \<Rightarrow> (byte list \<Rightarrow> hash) \<Rightarrow> 'g rand_source \<Rightarrow> 'p submitter \<Rightarrow> readings \<Rightarrow> lt_event list \<Rightarrow>
   LoadTestConfig \<Rightarrow> load_tester_state \<Rightarrow> 'p \<Rightarrow> 'p run_outcome" where
  "RunLoadTest rnd sha256 r submit rd es cfg lt pl =
     (let m0 = metrics_Start rnd (rd_metrics_start rd) (rd_mem_start rd) NewLoadTestMetrics
      in case ticker_interval rnd cfg of
           None \<Rightarrow> RunPanicked
         | Some i \<Rightarrow>
             (let endTime = rd_start rd + wrap64 (DurationSeconds cfg * 1000000000);
                  gen = (\<lambda>n. GenerateBlock sha256 r n (TransactionsPerBlock cfg) (generator lt));
                  st0 = \<lparr>lp_metrics = m0, lp_block = 1, lp_errors = 0, lp_blocks = 0, lp_pool = pl\<rparr>
              in case lt_loop rnd gen submit endTime es st0 of
                   LoopDone st \<Rightarrow> finish_test rnd rd cfg lt st
                 | LoopCancelled e st \<Rightarrow> RunCancelled (lt\<lparr>tester_metrics := lp_metrics st\<rparr>) (lp_pool st) e
                 | LoopPanicked \<Rightarrow> RunPanicked
                 | LoopWaiting st \<Rightarrow> RunWaiting))"

text \<open>\<open>Run\<close>, the interface of the MCP tools: ten transactions per block. The deadline of its context
  shows as a \<open>CtxDone\<close> event.\<close>

definition run_config :: "(rat \<Rightarrow> rat) \<Rightarrow> int \<Rightarrow> int \<Rightarrow> LoadTestConfig" where
  "run_config rnd tps duration =
     (let durationSeconds = float_to_int (duration_seconds rnd duration)
      in \<lparr>TPS = tps, DurationSeconds = (if durationSeconds < 1 then 1 else durationSeconds),
          TransactionsPerBlock = 10\<rparr>)"

definition tester_Run ::
  "(rat \<Rightarrow> rat) \<Rightarrow> (byte list \<Rightarrow> hash) \<Rightarrow> 'g rand_source \<Rightarrow> 'p submitter \<Rightarrow> readings \<Rightarrow> lt_event list \<Rightarrow>
   int \<Rightarrow> int \<Rightarrow> load_tester_state \<Rightarrow> 'p \<Rightarrow> 'p run_outcome" where
  "tester_Run rnd sha256 r submit rd es tps duration lt pl =
     RunLoadTest rnd sha256 r submit rd es (run_config rnd tps duration) lt pl"

definition tester_GetLatencies :: "load_tester_state \<Rightarrow> rat list" where
  "tester_GetLatencies lt = lm_latencies (tester_metrics lt)"

section \<open>Report\<close>

record MemoryDataPoint =
  TimestampSec :: rat
  dp_AllocMB :: rat

record BenchmarkReport =
  br_Config :: "int \<times> int \<times> int \<times> int"
  br_Results :: "rat \<times> rat \<times> rat option \<times> int"
  br_GCMetrics :: "rat \<times> rat \<times> u32"
  br_RustMetrics :: "rat \<times> rat"
  br_Memory :: "rat \<times> rat \<times> rat \<times> MemoryDataPoint list"
  br_ReorgCost :: "rat \<times> rat"

definition convertMemorySnapshots :: "(rat \<Rightarrow> rat) \<Rightarrow> MemorySnapshot list \<Rightarrow> int \<Rightarrow> MemoryDataPoint list" where
  "convertMemorySnapshots rnd sns startTime =
     map (\<lambda>sn. \<lparr>TimestampSec = duration_seconds rnd (time_sub (sn_Timestamp sn) startTime), dp_AllocMB = AllocMB sn\<rparr>) sns"

text \<open>The report \<open>ExportBenchmarkReport\<close> builds, without its time stamp; writing it as JSON into a file is
  left out. The zero start time is far enough back to saturate every difference.\<close>

definition benchmark_report ::
  "(rat \<Rightarrow> rat) \<Rightarrow> LoadTestResult \<Rightarrow> load_metrics \<Rightarrow> LoadTestConfig \<Rightarrow> int \<Rightarrow> rat \<Rightarrow> rat \<Rightarrow> BenchmarkReport" where
  "benchmark_report rnd res m cfg workerCount rustMean rustVariance =
     (let start = (case lm_startTime m of Some s \<Rightarrow> s | None \<Rightarrow> - (2 ^ 64));
          cost = (case GetReorgRollbackCost rnd 10 m of
                    (rb, rp, True) \<Rightarrow> (rb, rp) | (rb, rp, False) \<Rightarrow> (0, 0))
      in \<lparr>br_Config = (TPS cfg, DurationSeconds cfg, workerCount, TransactionsPerBlock cfg),
          br_Results = (P50LatencyMs res, P99LatencyMs res, ThroughputTPS res, ErrorCount res),
          br_GCMetrics = (GCPauseTimeMs res, MaxGCPauseMs res, GCCount res),
          br_RustMetrics = (rustMean, rustVariance),
          br_Memory = (MemoryStartMB res, MemoryEndMB res, MemoryGrowthRateMBPS res,
            convertMemorySnapshots rnd (memorySnapshots m) start),
          br_ReorgCost = cost\<rparr>)"

text \<open>Exporting and loading it: the JSON encoder and the file system (its state \<open>'fs\<close>, reading and
  writing files of \<open>'d\<close>) are arguments, and so is the time stamp the report begins with.\<close>

datatype report_error = MarshalFailed | WriteFailed | ReadFileFailed | UnmarshalFailed

definition ExportBenchmarkReport ::
  "(string \<times> BenchmarkReport \<Rightarrow> 'd option) \<Rightarrow> (string \<Rightarrow> 'd \<Rightarrow> 'fs \<Rightarrow> 'fs \<times> bool) \<Rightarrow> (rat \<Rightarrow> rat) \<Rightarrow> string \<Rightarrow>
   LoadTestResult \<Rightarrow> load_metrics \<Rightarrow> LoadTestConfig \<Rightarrow> int \<Rightarrow> rat \<Rightarrow> rat \<Rightarrow> string \<Rightarrow> 'fs \<Rightarrow> 'fs \<times> (report_error + unit)" where
  "ExportBenchmarkReport marshal write rnd now res m cfg workerCount rustMean rustVariance filename fs =
     (case marshal (now, benchmark_report rnd res m cfg workerCount rustMean rustVariance) of
        None \<Rightarrow> (fs, Inl MarshalFailed)
      | Some data \<Rightarrow> (case write filename data fs of
          (fs', False) \<Rightarrow> (fs', Inl WriteFailed)
        | (fs', True) \<Rightarrow> (fs', Inr ())))"

definition LoadBenchmarkReport ::
  "('d \<Rightarrow> (string \<times> BenchmarkReport) option) \<Rightarrow> (string \<Rightarrow> 'fs \<Rightarrow> 'd option) \<Rightarrow> string \<Rightarrow> 'fs \<Rightarrow>
   report_error + string \<times> BenchmarkReport" where
  "LoadBenchmarkReport unmarshal read filename fs =
     (case read filename fs of
        None \<Rightarrow> Inl ReadFileFailed
      | Some data \<Rightarrow> (case unmarshal data of None \<Rightarrow> Inl UnmarshalFailed | Some r \<Rightarrow> Inr r))"

lemma exported_report_loads:
  assumes "\<And>r d. marshal r = Some d \<Longrightarrow> unmarshal d = Some r"
    and "\<And>d fs fs'. write f d fs = (fs', True) \<Longrightarrow> read f fs' = Some d"
    and "ExportBenchmarkReport marshal write rnd now res m cfg w mean var f fs = (fs', Inr ())"
  shows "LoadBenchmarkReport unmarshal read f fs' = Inr (now, benchmark_report rnd res m cfg w mean var)"
  using assms(3) assms(1) assms(2)
  by (auto simp: ExportBenchmarkReport_def LoadBenchmarkReport_def split: option.splits prod.splits bool.splits)

section \<open>The loop against its specification\<close>

text \<open>Submitting blocks one after the other, with the answers.\<close>

fun submit_run :: "'p submitter \<Rightarrow> block list \<Rightarrow> 'p \<Rightarrow> 'p \<times> bool list" where
  "submit_run submit [] p = (p, [])"
| "submit_run submit (b # bs) p =
     (case submit b p of (p1, e) \<Rightarrow> (case submit_run submit bs p1 of (p2, rs) \<Rightarrow> (p2, (e = None) # rs)))"

fun blocks_from :: "(u64 \<Rightarrow> block option) \<Rightarrow> u64 \<Rightarrow> nat \<Rightarrow> block list" where
  "blocks_from gen n 0 = []"
| "blocks_from gen n (Suc k) = the (gen n) # blocks_from gen (n + 1) k"

fun stops :: "int \<Rightarrow> lt_event \<Rightarrow> bool" where
  "stops endTime (Tick now a b) \<longleftrightarrow> now > endTime"
| "stops endTime (SnapshotTick now mem) \<longleftrightarrow> False"
| "stops endTime (CtxDone e) \<longleftrightarrow> True"

fun is_tick :: "lt_event \<Rightarrow> bool" where
  "is_tick (Tick now a b) \<longleftrightarrow> True"
| "is_tick e \<longleftrightarrow> False"

definition due :: "int \<Rightarrow> lt_event list \<Rightarrow> nat" where
  "due endTime es = length (filter is_tick (takeWhile (\<lambda>e. \<not> stops endTime e) es))"

definition kept :: "load_metrics \<Rightarrow> load_metrics \<Rightarrow> bool" where
  "kept m m' \<longleftrightarrow> reorgRollbackCosts m' = reorgRollbackCosts m \<and> lm_startTime m' = lm_startTime m"

lemma lt_loop_done:
  assumes "\<forall>n. gen n \<noteq> None" and "lt_loop rnd gen submit endTime es st = LoopDone st'"
  shows "\<exists>rs. submit_run submit (blocks_from gen (lp_block st) (due endTime es)) (lp_pool st) = (lp_pool st', rs) \<and>
    lp_blocks st' = lp_blocks st + int (length (filter (\<lambda>ok. ok) rs)) \<and>
    lp_errors st' = lp_errors st + int (length (filter Not rs)) \<and>
    length (lm_latencies (lp_metrics st')) = length (lm_latencies (lp_metrics st)) + length (filter (\<lambda>ok. ok) rs) \<and>
    kept (lp_metrics st) (lp_metrics st')"
  using assms
proof (induction rnd gen submit endTime es st rule: lt_loop.induct)
  case (3 rnd gen submit endTime now mem es st)
  then show ?case by (simp add: due_def RecordMemorySnapshot_def kept_def)
next
  case (4 rnd gen submit endTime now submitStart since es st)
  show ?case
  proof (cases "now > endTime")
    case True
    with "4.prems" show ?thesis by (simp add: due_def kept_def)
  next
    case False
    obtain b where b: "gen (lp_block st) = Some b" using "4.prems"(1) by blast
    let ?st1 = "submit_tick rnd submit submitStart since b st"
    from False b "4.prems" have "lt_loop rnd gen submit endTime es ?st1 = LoopDone st'" by simp
    from "4.IH" [OF False b "4.prems"(1) this] obtain rs where
      rs: "submit_run submit (blocks_from gen (lp_block ?st1) (due endTime es)) (lp_pool ?st1) = (lp_pool st', rs)"
      "lp_blocks st' = lp_blocks ?st1 + int (length (filter (\<lambda>ok. ok) rs))"
      "lp_errors st' = lp_errors ?st1 + int (length (filter Not rs))"
      "length (lm_latencies (lp_metrics st')) = length (lm_latencies (lp_metrics ?st1)) + length (filter (\<lambda>ok. ok) rs)"
      "kept (lp_metrics ?st1) (lp_metrics st')" by blast
    have d: "due endTime (Tick now submitStart since # es) = Suc (due endTime es)"
      using False by (simp add: due_def)
    obtain p e where s: "submit b (lp_pool st) = (p, e)" by fastforce
    show ?thesis
      using rs s b by (cases e) (auto simp: d submit_tick_def RecordLatency_def kept_def)
  qed
qed (simp_all add: due_def kept_def)

lemma lt_loop_returns:
  assumes "\<forall>n. gen n \<noteq> None" and "\<exists>e\<in>set es. stops endTime e"
  shows "\<exists>st'. lt_loop rnd gen submit endTime es st = LoopDone st' \<or>
    (\<exists>e. lt_loop rnd gen submit endTime es st = LoopCancelled e st')"
  using assms
proof (induction rnd gen submit endTime es st rule: lt_loop.induct)
  case (4 rnd gen submit endTime now submitStart since es st)
  obtain b where b: "gen (lp_block st) = Some b" using "4.prems"(1) by blast
  show ?case
  proof (cases "now > endTime")
    case False
    with "4.prems"(2) have "\<exists>e\<in>set es. stops endTime e" by auto
    from "4.IH" [OF False b "4.prems"(1) this] False b show ?thesis by simp
  qed simp
qed simp_all

section \<open>Percentiles and the interval\<close>

lemma sort_percentiles:
  assumes "ieee rnd" and "xs \<noteq> []" and "int (length xs) \<le> 2 ^ 53"
  shows "\<exists>a c. at_index (sort xs) (percentile_index rnd (int (length xs)) (50 / 100)) = Some a \<and>
    at_index (sort xs) (percentile_index rnd (int (length xs)) (99 / 100)) = Some c \<and> a \<le> c \<and>
    a \<in> set xs \<and> c \<in> set xs"
proof -
  let ?n = "int (length xs)"
  have n: "1 \<le> ?n" using assms(2) by (cases xs) simp_all
  have q: "(1/2 :: rat) \<le> 50/100" "(50/100 :: rat) \<le> 99/100" "(1/2 :: rat) \<le> 99/100" by simp_all
  have b50: "0 \<le> percentile_index rnd ?n (50 / 100)" "percentile_index rnd ?n (50 / 100) < ?n"
    using percentile_index_bounds [OF assms(1) n assms(3) q(1,2)] by blast+
  have b99: "0 \<le> percentile_index rnd ?n (99 / 100)" "percentile_index rnd ?n (99 / 100) < ?n"
    using percentile_index_bounds [OF assms(1) n assms(3) q(3) order_refl] by blast+
  note m = percentile_index_mono [OF assms(1) n assms(3) q(1,2) order_refl]
  let ?i = "nat (percentile_index rnd ?n (50 / 100))" and ?j = "nat (percentile_index rnd ?n (99 / 100))"
  have ij: "?i \<le> ?j" "?j < length (sort xs)"
    using b50 b99 m by (simp_all only: length_sort nat_mono)
  then have "sort xs ! ?i \<le> sort xs ! ?j" by (intro sorted_nth_mono) simp_all
  moreover have "sort xs ! ?i \<in> set xs" "sort xs ! ?j \<in> set xs"
    using ij nth_mem [of ?i "sort xs"] nth_mem [of ?j "sort xs"] by simp_all
  ultimately show ?thesis using b50 b99 by (simp add: at_index_def)
qed

lemma ieee_int: "ieee rnd \<Longrightarrow> \<bar>z\<bar> \<le> 2 ^ 53 \<Longrightarrow> rnd (of_int z) = of_int z"
  by (simp add: ieee_def)

lemma ticker_interval_ok:
  assumes "ieee rnd" and "1 \<le> TPS cfg" and "TPS cfg \<le> 10000" and "TransactionsPerBlock cfg = 10"
  shows "\<exists>i. ticker_interval rnd cfg = Some i \<and> 1000000 \<le> i"
proof -
  let ?t = "of_int (TPS cfg) :: rat"
  have m: "mono rnd" using assms(1) by (simp add: ieee_def)
  have t: "1 \<le> ?t" "?t \<le> 10000" using assms(2,3) by simp_all
  have rt: "rnd ?t = ?t" "rnd 10 = 10" using ieee_int [OF assms(1), of "TPS cfg"] ieee_int [OF assms(1), of 10] assms(2,3)
    by simp_all
  let ?b = "rnd (?t / 10)"
  have "?b \<le> rnd 1000" using t by (intro monoD [OF m]) simp
  then have b1: "?b \<le> 1000" using ieee_int [OF assms(1), of 1000] by simp
  have b0: "1 / 20 \<le> ?b"
  proof -
    have "(1 :: rat) / 2 ^ 1000 \<le> 1 / 10" by (simp add: divide_simps)
    also have "(1 :: rat) / 10 \<le> \<bar>?t / 10\<bar>" using t by simp
    finally have lo: "1 / 2 ^ 1000 \<le> \<bar>?t / 10\<bar>" .
    have "\<bar>?t / 10\<bar> \<le> 2 ^ 10" using t by simp
    also have "(2 :: rat) ^ 10 \<le> 2 ^ 1000" by (rule power_increasing) simp_all
    finally have hi: "\<bar>?t / 10\<bar> \<le> 2 ^ 1000" .
    have "\<bar>?b - ?t / 10\<bar> \<le> \<bar>?t / 10\<bar> / 2 ^ 53" using assms(1) lo hi unfolding ieee_def by blast
    moreover have "\<bar>?t / 10\<bar> = ?t / 10" using t by simp
    ultimately have "?t / 10 - ?b \<le> ?t / 10 / 2 ^ 53" by linarith
    then show ?thesis using t by (simp add: divide_simps)
  qed
  have "rnd 1000000 \<le> rnd (1000000000 / ?b)" "rnd (1000000000 / ?b) \<le> rnd 20000000000"
    using b0 b1 by (auto intro!: monoD [OF m] simp: divide_simps)
  then have i: "1000000 \<le> rnd (1000000000 / ?b)" "rnd (1000000000 / ?b) \<le> 20000000000"
    using ieee_int [OF assms(1), of 1000000] ieee_int [OF assms(1), of 20000000000] by simp_all
  then have f: "1000000 \<le> \<lfloor>rnd (1000000000 / ?b)\<rfloor>" "\<lfloor>rnd (1000000000 / ?b)\<rfloor> \<le> 20000000000"
    by (simp_all add: le_floor_iff floor_le_iff)
  then have "float_to_int (rnd (1000000000 / ?b)) = \<lfloor>rnd (1000000000 / ?b)\<rfloor>"
    using i by (simp add: float_to_int_def Let_def)
  with f show ?thesis using assms(2,4) rt by (simp add: ticker_interval_def Let_def)
qed

lemma run_config_ok:
  assumes "ieee rnd" and "1 \<le> secs" and "secs \<le> 300"
  shows "run_config rnd tps (secs * 1000000000) = \<lparr>TPS = tps, DurationSeconds = secs, TransactionsPerBlock = 10\<rparr>"
proof -
  have z: "rnd 0 = 0" using ieee_int [OF assms(1), of 0] by simp
  have s: "rnd (of_int secs) = of_int secs" using ieee_int [OF assms(1), of secs] assms(2,3) by simp
  have "go_quot (secs * 1000000000) 1000000000 = secs" "go_rem (secs * 1000000000) 1000000000 = 0"
    using assms(2) by (simp_all add: go_quot_def go_rem_def sgn_mult)
  then have "duration_seconds rnd (secs * 1000000000) = of_int secs"
    by (simp add: duration_seconds_def z s)
  then show ?thesis using assms(2,3) by (simp add: run_config_def float_to_int_def Let_def)
qed

section \<open>What a run reports\<close>

lemma blocks_from_ok:
  assumes "\<forall>n. gen n \<noteq> None"
  shows "length (blocks_from gen n j) = j \<and> (\<forall>i<j. gen (n + of_nat i) = Some (blocks_from gen n j ! i))"
proof (induction j arbitrary: n)
  case (Suc j)
  show ?case
  proof (intro conjI allI impI)
    fix i assume "i < Suc j"
    then show "gen (n + of_nat i) = Some (blocks_from gen n (Suc j) ! i)"
      using Suc [of "n + 1"] assms by (cases i) (simp_all add: ac_simps)
  qed (use Suc in simp)
qed simp

lemma finish_test_result:
  assumes "ieee rnd" and "int (length (lm_latencies (lp_metrics st))) \<le> 2 ^ 53"
  shows "\<exists>lt' res. finish_test rnd rd cfg lt st = RunResult lt' (lp_pool st) res \<and>
    ErrorCount res = lp_errors st \<and> BlocksProcessed res = lp_blocks st \<and>
    tester_GetLatencies lt' = lm_latencies (lp_metrics st) \<and>
    kept (lp_metrics st) (tester_metrics lt') \<and> P50LatencyMs res \<le> P99LatencyMs res \<and>
    (lm_latencies (lp_metrics st) \<noteq> [] \<longrightarrow>
       {P50LatencyMs res, P99LatencyMs res} \<subseteq> set (lm_latencies (lp_metrics st)))"
proof (cases "lm_latencies (lp_metrics st) = []")
  case True
  then show ?thesis
    by (simp add: finish_test_def metrics_Stop_def Let_def test_result_def tester_GetLatencies_def kept_def)
next
  case False
  from sort_percentiles [OF assms(1) False assms(2)] False show ?thesis
    by (auto simp: finish_test_def metrics_Stop_def Let_def test_result_def tester_GetLatencies_def kept_def)
qed

lemma due_le: "due endTime es \<le> length es"
  unfolding due_def by (meson length_filter_le length_takeWhile_le order_trans)

lemma submit_run_length: "length (snd (submit_run submit bs p)) = length bs"
  by (induction submit bs p rule: submit_run.induct) (auto split: prod.splits)

text \<open>C22: what a finished load test did. The tester submitted exactly the generated blocks with the
  numbers 1, 2, 3 and so on, one for each tick before the deadline, to the pool; \<open>BlocksProcessed\<close>
  counts the accepted ones and \<open>ErrorCount\<close> the others, and there is one latency per accepted block.
  The percentiles are ordered and, unless nothing was accepted, are two of these latencies. No cost
  of a reorganisation is ever recorded, so the report of every run says 0 for both costs.\<close>

theorem load_test_result:
  assumes "ieee rnd" and "rand_ok r" and "digest32 sha256" and "0 \<le> TransactionsPerBlock cfg"
    and "int (length es) \<le> 2 ^ 53"
    and "RunLoadTest rnd sha256 r submit rd es cfg lt pl = RunResult lt' pl' res"
  shows "\<exists>bs rs. submit_run submit bs pl = (pl', rs) \<and>
    length bs = due (rd_start rd + wrap64 (DurationSeconds cfg * 1000000000)) es \<and>
    (\<forall>i<length bs. Number (bs ! i) = of_nat (i + 1) \<and>
       GenerateBlock sha256 r (of_nat (i + 1)) (TransactionsPerBlock cfg) (generator lt) = Some (bs ! i)) \<and>
    BlocksProcessed res = int (length (filter (\<lambda>ok. ok) rs)) \<and>
    ErrorCount res = int (length (filter Not rs)) \<and>
    length (tester_GetLatencies lt') = length (filter (\<lambda>ok. ok) rs) \<and>
    P50LatencyMs res \<le> P99LatencyMs res \<and>
    (tester_GetLatencies lt' \<noteq> [] \<longrightarrow> {P50LatencyMs res, P99LatencyMs res} \<subseteq> set (tester_GetLatencies lt')) \<and>
    br_ReorgCost (benchmark_report rnd res (tester_metrics lt') cfg w mean var) = (0, 0)"
proof -
  let ?k = "TransactionsPerBlock cfg"
  let ?gen = "\<lambda>n. GenerateBlock sha256 r n ?k (generator lt)"
  let ?e = "rd_start rd + wrap64 (DurationSeconds cfg * 1000000000)"
  let ?m0 = "metrics_Start rnd (rd_metrics_start rd) (rd_mem_start rd) NewLoadTestMetrics"
  let ?st0 = "\<lparr>lp_metrics = ?m0, lp_block = 1, lp_errors = 0, lp_blocks = 0, lp_pool = pl\<rparr>"
  have gen: "\<exists>b. ?gen n = Some b \<and> load_block n (nat ?k) b" for n
    by (rule GenerateBlock_ok [OF assms(2,3,4)])
  then have tot: "\<forall>n. ?gen n \<noteq> None" by (metis option.distinct(1))
  from assms(6) obtain st where st: "lt_loop rnd ?gen submit ?e es ?st0 = LoopDone st"
    "finish_test rnd rd cfg lt st = RunResult lt' pl' res"
    by (auto simp: RunLoadTest_def Let_def split: option.splits lt_loop_result.splits)
  let ?bs = "blocks_from ?gen 1 (due ?e es)"
  from lt_loop_done [OF tot st(1)] obtain rs where rs:
    "submit_run submit ?bs pl = (lp_pool st, rs)" "lp_blocks st = int (length (filter (\<lambda>ok. ok) rs))"
    "lp_errors st = int (length (filter Not rs))"
    "length (lm_latencies (lp_metrics st)) = length (filter (\<lambda>ok. ok) rs)" "kept ?m0 (lp_metrics st)"
    by (auto simp: metrics_Start_def NewLoadTestMetrics_def Let_def)
  have len: "length ?bs = due ?e es" using blocks_from_ok [OF tot] by blast
  have "length rs = due ?e es" using submit_run_length [of submit ?bs pl] rs(1) len by simp
  then have "length (lm_latencies (lp_metrics st)) \<le> length es"
    using rs(4) length_filter_le [of "\<lambda>ok. ok" rs] due_le [of ?e es] by linarith
  then have "int (length (lm_latencies (lp_metrics st))) \<le> 2 ^ 53" using assms(5) by linarith
  from finish_test_result [OF assms(1) this, of rd cfg lt] st(2) have f:
    "pl' = lp_pool st" "ErrorCount res = lp_errors st" "BlocksProcessed res = lp_blocks st"
    "tester_GetLatencies lt' = lm_latencies (lp_metrics st)" "kept (lp_metrics st) (tester_metrics lt')"
    "P50LatencyMs res \<le> P99LatencyMs res" "lm_latencies (lp_metrics st) \<noteq> [] \<longrightarrow>
       {P50LatencyMs res, P99LatencyMs res} \<subseteq> set (lm_latencies (lp_metrics st))" by auto
  have num: "Number (?bs ! i) = of_nat (i + 1) \<and> ?gen (of_nat (i + 1)) = Some (?bs ! i)" if "i < length ?bs" for i
  proof -
    have g: "?gen (of_nat (i + 1)) = Some (?bs ! i)"
      using blocks_from_ok [OF tot, of 1 "due ?e es"] that len by (simp add: ac_simps)
    with gen [of "of_nat (i + 1)"] show ?thesis by (auto simp: load_block_def)
  qed
  have "reorgRollbackCosts (tester_metrics lt') = []"
    using rs(5) f(5) by (simp add: kept_def metrics_Start_def NewLoadTestMetrics_def Let_def)
  then have c: "br_ReorgCost (benchmark_report rnd res (tester_metrics lt') cfg w mean var) = (0, 0)"
    by (simp add: benchmark_report_def GetReorgRollbackCost_def Let_def)
  show ?thesis
    by (rule exI [of _ ?bs], rule exI [of _ rs]) (use rs f num len c in simp)
qed

section \<open>A run ends\<close>

lemma lt_loop_cancelled: "lt_loop rnd gen submit endTime es st = LoopCancelled e st' \<Longrightarrow> CtxDone e \<in> set es"
  by (induction rnd gen submit endTime es st rule: lt_loop.induct) (auto split: if_splits option.splits)

lemma lt_loop_latencies:
  "lt_loop rnd gen submit endTime es st = LoopDone st' \<Longrightarrow>
     length (lm_latencies (lp_metrics st')) \<le> length (lm_latencies (lp_metrics st)) + length es"
proof (induction rnd gen submit endTime es st rule: lt_loop.induct)
  case (4 rnd gen submit endTime now submitStart since es st)
  then show ?case
    by (auto simp: submit_tick_def RecordLatency_def Let_def split: if_splits option.splits prod.splits)
qed (auto simp: RecordMemorySnapshot_def)

lemma RunLoadTest_outcome:
  assumes "ieee rnd" and "rand_ok r" and "digest32 sha256" and "0 \<le> TransactionsPerBlock cfg"
    and "int (length es) \<le> 2 ^ 53" and "ticker_interval rnd cfg \<noteq> None"
    and "\<exists>e\<in>set es. stops (rd_start rd + wrap64 (DurationSeconds cfg * 1000000000)) e"
  shows "(\<exists>lt' pl' res. RunLoadTest rnd sha256 r submit rd es cfg lt pl = RunResult lt' pl' res) \<or>
    (\<exists>lt' pl' e. RunLoadTest rnd sha256 r submit rd es cfg lt pl = RunCancelled lt' pl' e \<and> CtxDone e \<in> set es)"
proof -
  let ?gen = "\<lambda>n. GenerateBlock sha256 r n (TransactionsPerBlock cfg) (generator lt)"
  let ?e = "rd_start rd + wrap64 (DurationSeconds cfg * 1000000000)"
  let ?m0 = "metrics_Start rnd (rd_metrics_start rd) (rd_mem_start rd) NewLoadTestMetrics"
  let ?st0 = "\<lparr>lp_metrics = ?m0, lp_block = 1, lp_errors = 0, lp_blocks = 0, lp_pool = pl\<rparr>"
  have "\<forall>n. ?gen n \<noteq> None" using GenerateBlock_ok [OF assms(2,3,4)] by (metis option.distinct(1))
  from lt_loop_returns [OF this assms(7), of rnd submit ?st0] obtain st where
    "lt_loop rnd ?gen submit ?e es ?st0 = LoopDone st \<or> (\<exists>e. lt_loop rnd ?gen submit ?e es ?st0 = LoopCancelled e st)"
    by blast
  then show ?thesis
  proof (elim disjE exE)
    assume l: "lt_loop rnd ?gen submit ?e es ?st0 = LoopDone st"
    have "int (length (lm_latencies (lp_metrics st))) \<le> 2 ^ 53"
      using lt_loop_latencies [OF l] assms(5) by (simp add: metrics_Start_def NewLoadTestMetrics_def Let_def)
    from finish_test_result [OF assms(1) this, of rd cfg lt] l assms(6) show ?thesis
      by (auto simp: RunLoadTest_def Let_def)
  next
    fix e assume l: "lt_loop rnd ?gen submit ?e es ?st0 = LoopCancelled e st"
    from lt_loop_cancelled [OF l] l assms(6) show ?thesis
      by (auto simp: RunLoadTest_def Let_def)
  qed
qed

lemma wrap64_small: "- (2 ^ 63) \<le> z \<Longrightarrow> z < 2 ^ 63 \<Longrightarrow> wrap64 z = z"
  using signed_take_bit_int_eq_self [of 63 z] by (simp add: wrap64_def signed_of_int)

text \<open>C36: a load test ends. For the rates and durations the MCP tool admits, the ticker starts with an
  interval of at least a millisecond, and as soon as a tick comes after the requested seconds, or
  the context is done, the run returns: with a result, or cancelled with the context's error. It
  never panics, whatever the pool answers.\<close>

theorem tester_Run_returns:
  assumes "ieee rnd" and "rand_ok r" and "digest32 sha256" and "int (length es) \<le> 2 ^ 53"
    and "1 \<le> tps" and "tps \<le> 10000" and "1 \<le> secs" and "secs \<le> 300"
    and "\<exists>e\<in>set es. stops (rd_start rd + secs * 1000000000) e"
  shows "\<exists>i lt' pl'. ticker_interval rnd (run_config rnd tps (secs * 1000000000)) = Some i \<and> 1000000 \<le> i \<and>
    ((\<exists>res. tester_Run rnd sha256 r submit rd es tps (secs * 1000000000) lt pl = RunResult lt' pl' res) \<or>
     (\<exists>e. tester_Run rnd sha256 r submit rd es tps (secs * 1000000000) lt pl = RunCancelled lt' pl' e \<and>
        CtxDone e \<in> set es))"
proof -
  let ?cfg = "run_config rnd tps (secs * 1000000000)"
  have cfg: "?cfg = \<lparr>TPS = tps, DurationSeconds = secs, TransactionsPerBlock = 10\<rparr>"
    by (rule run_config_ok [OF assms(1,7,8)])
  obtain i where i: "ticker_interval rnd ?cfg = Some i" "1000000 \<le> i"
    using ticker_interval_ok [OF assms(1), of ?cfg] assms(5,6) cfg by auto
  have "wrap64 (secs * 1000000000) = secs * 1000000000"
    using assms(7,8) by (intro wrap64_small) simp_all
  with assms(9) cfg have "\<exists>e\<in>set es. stops (rd_start rd + wrap64 (DurationSeconds ?cfg * 1000000000)) e" by simp
  from RunLoadTest_outcome [OF assms(1-3) _ assms(4) _ this, of submit lt pl] i cfg show ?thesis
    unfolding tester_Run_def by fastforce
qed

text \<open>A pool that is full for the first block, and a run with two ticks in time.\<close>

definition half_pool :: "nat submitter" where
  "half_pool b p = (Suc p, if p = 0 then Some ''full'' else None)"

definition sample_readings :: readings where
  "sample_readings = \<lparr>rd_metrics_start = 0, rd_mem_start = sample_mem, rd_start = 0, rd_metrics_stop = 1000000001,
     rd_mem_stop = sample_mem, rd_end = 1000000002, rd_mem_max = sample_mem\<rparr>"

definition sample_ticks :: "lt_event list" where
  "sample_ticks = [Tick 400000000 400000000 400000001, Tick 800000000 800000000 803000000, Tick 1000000001 0 0]"

theorem tester_Run_returns_witness:
  "\<exists>lt' pl' res. tester_Run (\<lambda>x. x) (\<lambda>m. replicate 32 0) counting_rand half_pool sample_readings sample_ticks
     25 1000000000 (NewLoadTester 42) 0 = RunResult lt' pl' res"
  using tester_Run_returns [OF ieee_id rand_ok_counting digest32_const, of sample_ticks 25 1 sample_readings
      half_pool "NewLoadTester 42" 0]
  by (auto simp: sample_ticks_def sample_readings_def)

theorem load_test_result_witness:
  "\<exists>lt' pl' res. RunLoadTest (\<lambda>x. x) (\<lambda>m. replicate 32 0) counting_rand half_pool sample_readings sample_ticks
     \<lparr>TPS = 25, DurationSeconds = 1, TransactionsPerBlock = 10\<rparr> (NewLoadTester 42) 0 = RunResult lt' pl' res \<and>
     BlocksProcessed res = 1 \<and> ErrorCount res = 1 \<and> length (tester_GetLatencies lt') = 1"
proof -
  let ?cfg = "\<lparr>TPS = 25, DurationSeconds = 1, TransactionsPerBlock = 10\<rparr>"
  let ?run = "RunLoadTest (\<lambda>x. x) (\<lambda>m. replicate 32 0) counting_rand half_pool sample_readings sample_ticks
     ?cfg (NewLoadTester 42) 0"
  have w: "wrap64 1000000000 = 1000000000" by (rule wrap64_small) simp_all
  have "ticker_interval (\<lambda>x. x) ?cfg \<noteq> None"
    using ticker_interval_ok [OF ieee_id, of ?cfg] by auto
  with RunLoadTest_outcome [OF ieee_id rand_ok_counting digest32_const, of ?cfg sample_ticks sample_readings
      half_pool "NewLoadTester 42" 0]
  obtain lt' pl' res where run: "?run = RunResult lt' pl' res"
    by (auto simp: sample_ticks_def sample_readings_def w)
  have sz: "0 \<le> TransactionsPerBlock ?cfg" "int (length sample_ticks) \<le> 2 ^ 53" by (simp_all add: sample_ticks_def)
  from load_test_result [OF ieee_id rand_ok_counting digest32_const sz run]
  obtain bs rs where bs: "submit_run half_pool bs 0 = (pl', rs)"
    "length bs = due (rd_start sample_readings + wrap64 (DurationSeconds ?cfg * 1000000000)) sample_ticks"
    "BlocksProcessed res = int (length (filter (\<lambda>ok. ok) rs))" "ErrorCount res = int (length (filter Not rs))"
    "length (tester_GetLatencies lt') = length (filter (\<lambda>ok. ok) rs)" by blast
  from bs(2) have "length bs = 2" by (simp add: sample_ticks_def sample_readings_def w due_def)
  then obtain b1 b2 where "bs = [b1, b2]" by (auto simp: numeral_2_eq_2 length_Suc_conv)
  with bs have "rs = [False, True]" by (auto simp: half_pool_def)
  with bs run show ?thesis by auto
qed

end
