(* ===== verification/Metrics.thy ===== *)
theory Metrics
  imports Mcp_Tools Worker_Pool Load_Tester
begin

text \<open>
  The metrics collector (\<^verbatim>\<open>internal/metrics/collector.go\<close>) and its adapters
  (\<^verbatim>\<open>interfaces.go\<close>, \<^verbatim>\<open>adapters_impl.go\<close>). The Prometheus client is a library, so an
  operation of the collector is the list of calls it makes on the client's metrics. The registered
  components are read through functions of the program state \<open>'s\<close>; the HTTP server is left out, its
  handlers are here.
\<close>

section \<open>Interfaces and adapters\<close>

record WorkerStats =
  ws_NumWorkers :: int
  ws_ActiveWorkers :: int
  ws_ProcessedBlocks :: int
  ws_PanicCount :: int
  ws_QueueDepth :: int

record adapter_event =
  ae_ForkPoint :: u64
  ae_Depth :: int
  ae_RollbackDurationMs :: int

record adapter_reorg_stats =
  rs_ReorgCount :: i64
  rs_BufferSize :: int
  rs_RecentReorgs :: "adapter_event list"

text \<open>\<open>RustStats\<close> has the fields of the bridge's statistics, and the adapter copies them.\<close>

record 's rust_core =
  rc_GetStats :: "'s \<Rightarrow> ffi_error + ffi_stats"
  rc_GetStateRoot :: "'s \<Rightarrow> ffi_error + hash"

definition WorkerPoolAdapter_GetStats :: "'b pool \<Rightarrow> WorkerStats" where
  "WorkerPoolAdapter_GetStats p =
     (let st = pool_GetStats p
      in \<lparr>ws_NumWorkers = NumWorkers st, ws_ActiveWorkers = ActiveWorkers st,
          ws_ProcessedBlocks = ProcessedBlocks st, ws_PanicCount = PanicCount st,
          ws_QueueDepth = QueueDepth st\<rparr>)"

definition ReorgEngineAdapter_GetStats :: "'c ReorgEngine \<Rightarrow> adapter_reorg_stats" where
  "ReorgEngineAdapter_GetStats re =
     (let st = Reorg_GetStats re
      in \<lparr>rs_ReorgCount = ReorgCount st, rs_BufferSize = BufferSize st,
          rs_RecentReorgs = map (\<lambda>e. \<lparr>ae_ForkPoint = ForkPoint e, ae_Depth = Depth e,
             ae_RollbackDurationMs = RollbackDurationMs e\<rparr>) (RecentReorgs st)\<rparr>)"

definition RustCoreAdapter :: "nat \<Rightarrow> nat \<Rightarrow> ('s \<Rightarrow> ffi_state) \<Rightarrow> 's rust_core" where
  "RustCoreAdapter sz_account sz_snapshot f =
     \<lparr>rc_GetStats = (\<lambda>s. case GetStats sz_account sz_snapshot (f s) of
         Inl e \<Rightarrow> Inl e
       | Inr st \<Rightarrow> Inr \<lparr>BlockNumber = BlockNumber st, StateSize = StateSize st,
                         HistoryLength = HistoryLength st, MemoryUsageBytes = MemoryUsageBytes st\<rparr>),
      rc_GetStateRoot = (\<lambda>s. GetStateRoot (f s))\<rparr>"

text \<open>The adapter through which the runtime tools see the bridge, and what two of them answer over it.\<close>

record 's ffi_interface =
  fi_GetStateRoot :: "'s \<Rightarrow> ffi_error + hash"
  fi_GetStats :: "'s \<Rightarrow> ffi_error + ffi_stats"

definition MCPFFIAdapter :: "nat \<Rightarrow> nat \<Rightarrow> ('s \<Rightarrow> ffi_state) \<Rightarrow> 's ffi_interface" where
  "MCPFFIAdapter sz_account sz_snapshot f =
     \<lparr>fi_GetStateRoot = (\<lambda>s. GetStateRoot (f s)),
      fi_GetStats = (\<lambda>s. case GetStats sz_account sz_snapshot (f s) of
         Inl e \<Rightarrow> Inl e
       | Inr st \<Rightarrow> Inr \<lparr>BlockNumber = BlockNumber st, StateSize = StateSize st,
                         HistoryLength = HistoryLength st, MemoryUsageBytes = MemoryUsageBytes st\<rparr>)\<rparr>"

lemma tools_over_adapter:
  fixes rt :: "'w runtime" and pf :: platform
  defines "a \<equiv> MCPFFIAdapter (pf_account pf) (pf_snapshot pf) (\<lambda>rt :: 'w runtime. re_ffi (pg_reorg (rt_program rt)))"
  shows "tool_GetStateRoot pf ps rt = (rt, case fi_GetStateRoot a rt of Inl e \<Rightarrow> Inl (StateRootFailed e)
      | Inr sr \<Rightarrow> (case fi_GetStats a rt of Inl e \<Rightarrow> Inl (CoreStatsFailed e)
         | Inr st \<Rightarrow> Inr (StateRoot sr (BlockNumber st))))"
    and "tool_GetStateSize pf ps rt = (rt, case fi_GetStats a rt of Inl e \<Rightarrow> Inl (CoreStatsFailed e)
      | Inr st \<Rightarrow> Inr (StateSizeResult (StateSize st) (MemoryUsageBytes st)))"
  unfolding a_def by (simp_all add: tool_GetStateRoot_def tool_GetStateSize_def MCPFFIAdapter_def split: sum.split)

section \<open>The collector\<close>

datatype buckets = ExponentialBuckets rat rat nat | Buckets "rat list"

datatype metric_kind = Gauge | Counter | Histogram buckets

text \<open>The fields of the collector that hold metrics, and the calls made through them.\<close>

datatype metric_field =
    GcPauseSeconds | MemoryAllocBytes | GoroutineCount
  | WorkerActiveCount | WorkerQueueDepth | WorkerUtilization | WorkerPanicTotal
  | RustApplyBlockDuration | RustStateSizeEntries | RustMemoryUsageBytes
  | ReorgTotal | ReorgDepthBlocks | ReorgRollbackDuration
  | BlocksProcessedTotal | BlockProcessingDuration

datatype metric_call =
    GaugeSet metric_field rat
  | CounterInc metric_field
  | Observe metric_field rat

type_synonym metric = "string \<times> metric_kind"

record 's collector =
  c_metrics :: "metric_field \<Rightarrow> metric option"
  registry :: "metric list"
  c_workerPool :: "('s \<Rightarrow> WorkerStats) option"
  c_reorgEngine :: "('s \<Rightarrow> adapter_reorg_stats) option"
  c_rustCore :: "'s rust_core option"
  c_blockStreamer :: "('s \<Rightarrow> bool) option"
  c_workerPoolHealth :: "('s \<Rightarrow> int) option"
  stopCh_closed :: bool

text \<open>The assignments of \<open>initMetrics\<close>; the fields it leaves out stay nil.\<close>

definition initMetrics :: "(metric_field \<Rightarrow> metric option) \<Rightarrow> metric_field \<Rightarrow> metric option" where
  "initMetrics m = m
    (GcPauseSeconds \<mapsto> (''gc_pause_seconds'', Histogram (ExponentialBuckets (1 / 10000) 2 15)),
     MemoryAllocBytes \<mapsto> (''memory_alloc_bytes'', Gauge),
     GoroutineCount \<mapsto> (''goroutine_count'', Gauge),
     WorkerActiveCount \<mapsto> (''worker_active_count'', Gauge),
     WorkerQueueDepth \<mapsto> (''worker_queue_depth'', Gauge),
     WorkerUtilization \<mapsto> (''worker_utilization_percent'', Gauge),
     WorkerPanicTotal \<mapsto> (''worker_panic_total'', Counter),
     RustApplyBlockDuration \<mapsto> (''rust_apply_block_duration_seconds'', Histogram (ExponentialBuckets (1 / 10000) 2 15)),
     RustStateSizeEntries \<mapsto> (''rust_state_size_entries'', Gauge),
     RustMemoryUsageBytes \<mapsto> (''rust_memory_usage_bytes'', Gauge),
     ReorgTotal \<mapsto> (''reorg_total'', Counter),
     ReorgDepthBlocks \<mapsto> (''reorg_depth_blocks'', Histogram (Buckets [1, 2, 3, 4, 5, 6, 7, 8, 9, 10])),
     ReorgRollbackDuration \<mapsto> (''reorg_rollback_duration_seconds'', Histogram (ExponentialBuckets (1 / 1000) 2 12)),
     BlocksProcessedTotal \<mapsto> (''blocks_processed_total'', Counter),
     BlockProcessingDuration \<mapsto> (''block_processing_duration_seconds'', Histogram (ExponentialBuckets (1 / 10000) 2 15)))"

text \<open>\<open>MustRegister\<close> panics (\<open>None\<close>) on a nil metric and on a name that is registered already. The
  constructors of histograms also panic on buckets that do not increase, which those above do.\<close>

definition MustRegister :: "metric option \<Rightarrow> metric list \<Rightarrow> metric list option" where
  "MustRegister m reg =
     (case m of None \<Rightarrow> None | Some (n, k) \<Rightarrow> if n \<in> set (map fst reg) then None else Some (reg @ [(n, k)]))"

fun register_fields :: "(metric_field \<Rightarrow> metric option) \<Rightarrow> metric_field list \<Rightarrow> metric list \<Rightarrow> metric list option" where
  "register_fields c [] reg = Some reg"
| "register_fields c (f # fs) reg =
     (case MustRegister (c f) reg of None \<Rightarrow> None | Some reg' \<Rightarrow> register_fields c fs reg')"

definition registerMetrics :: "(metric_field \<Rightarrow> metric option) \<Rightarrow> metric list \<Rightarrow> metric list option" where
  "registerMetrics c = register_fields c
     [GcPauseSeconds, MemoryAllocBytes, GoroutineCount,
      WorkerActiveCount, WorkerQueueDepth, WorkerUtilization, WorkerPanicTotal,
      RustApplyBlockDuration, RustStateSizeEntries, RustMemoryUsageBytes,
      ReorgTotal, ReorgDepthBlocks, ReorgRollbackDuration,
      BlocksProcessedTotal, BlockProcessingDuration]"

definition NewCollector :: "'s collector option" where
  "NewCollector =
     (let c = initMetrics (\<lambda>f. None)
      in case registerMetrics c [] of
        None \<Rightarrow> None
      | Some reg \<Rightarrow> Some \<lparr>c_metrics = c, registry = reg, c_workerPool = None, c_reorgEngine = None, c_rustCore = None,
          c_blockStreamer = None, c_workerPoolHealth = None, stopCh_closed = False\<rparr>)"

definition RegisterWorkerPool :: "('s \<Rightarrow> WorkerStats) \<Rightarrow> 's collector \<Rightarrow> 's collector" where
  "RegisterWorkerPool wp c = c\<lparr>c_workerPool := Some wp\<rparr>"

definition RegisterReorgEngine :: "('s \<Rightarrow> adapter_reorg_stats) \<Rightarrow> 's collector \<Rightarrow> 's collector" where
  "RegisterReorgEngine re c = c\<lparr>c_reorgEngine := Some re\<rparr>"

definition RegisterRustCore :: "'s rust_core \<Rightarrow> 's collector \<Rightarrow> 's collector" where
  "RegisterRustCore rc c = c\<lparr>c_rustCore := Some rc\<rparr>"

definition RegisterBlockStreamer :: "('s \<Rightarrow> bool) \<Rightarrow> 's collector \<Rightarrow> 's collector" where
  "RegisterBlockStreamer bs c = c\<lparr>c_blockStreamer := Some bs\<rparr>"

definition RegisterWorkerPoolHealth :: "('s \<Rightarrow> int) \<Rightarrow> 's collector \<Rightarrow> 's collector" where
  "RegisterWorkerPoolHealth wp c = c\<lparr>c_workerPoolHealth := Some wp\<rparr>"

section \<open>Recording\<close>

definition RecordBlockProcessed :: "(rat \<Rightarrow> rat) \<Rightarrow> int \<Rightarrow> metric_call list" where
  "RecordBlockProcessed rnd d = [CounterInc BlocksProcessedTotal,
     Observe BlockProcessingDuration (duration_seconds rnd d)]"

definition RecordRustApplyBlock :: "(rat \<Rightarrow> rat) \<Rightarrow> int \<Rightarrow> metric_call list" where
  "RecordRustApplyBlock rnd d = [Observe RustApplyBlockDuration (duration_seconds rnd d)]"

definition RecordReorg :: "(rat \<Rightarrow> rat) \<Rightarrow> int \<Rightarrow> int \<Rightarrow> metric_call list" where
  "RecordReorg rnd depth d = [CounterInc ReorgTotal, Observe ReorgDepthBlocks (rnd (of_int depth)),
     Observe ReorgRollbackDuration (duration_seconds rnd d)]"

definition RecordWorkerPanic :: "metric_call list" where
  "RecordWorkerPanic = [CounterInc WorkerPanicTotal]"

definition UpdateWorkerStats :: "(rat \<Rightarrow> rat) \<Rightarrow> int \<Rightarrow> int \<Rightarrow> int \<Rightarrow> metric_call list" where
  "UpdateWorkerStats rnd active queued totalWorkers =
     [GaugeSet WorkerActiveCount (rnd (of_int active)), GaugeSet WorkerQueueDepth (rnd (of_int queued))] @
     (if totalWorkers > 0
      then [GaugeSet WorkerUtilization (rnd (rnd (rnd (of_int active) / rnd (of_int totalWorkers)) * 100))]
      else [])"

definition UpdateRustStats :: "(rat \<Rightarrow> rat) \<Rightarrow> int \<Rightarrow> int \<Rightarrow> metric_call list" where
  "UpdateRustStats rnd stateSize memoryUsage =
     [GaugeSet RustStateSizeEntries (rnd (of_int stateSize)),
      GaugeSet RustMemoryUsageBytes (rnd (of_int memoryUsage))]"

definition collectRuntimeMetrics :: "(rat \<Rightarrow> rat) \<Rightarrow> mem_stats \<Rightarrow> int \<Rightarrow> metric_call list" where
  "collectRuntimeMetrics rnd m goroutines =
     [GaugeSet MemoryAllocBytes (rnd (of_nat (unat (Alloc m)))),
      GaugeSet GoroutineCount (rnd (of_int goroutines))] @
     (if NumGC m > 0
      then (let pauseNs = PauseNs m ! unat ((NumGC m + 255) mod 256)
            in [Observe GcPauseSeconds (rnd (rnd (of_nat (unat pauseNs)) / 1000000000))])
      else [])"

definition collectComponentMetrics :: "(rat \<Rightarrow> rat) \<Rightarrow> 's \<Rightarrow> 's collector \<Rightarrow> metric_call list" where
  "collectComponentMetrics rnd s c =
     (case c_workerPool c of
        None \<Rightarrow> []
      | Some wp \<Rightarrow>
          (let stats = wp s
           in [GaugeSet WorkerActiveCount (rnd (of_int (ws_ActiveWorkers stats))),
               GaugeSet WorkerQueueDepth (rnd (of_int (ws_QueueDepth stats)))] @
              (if ws_NumWorkers stats > 0
               then [GaugeSet WorkerUtilization
                 (rnd (rnd (rnd (of_int (ws_ActiveWorkers stats)) / rnd (of_int (ws_NumWorkers stats))) * 100))]
               else []))) @
     (case c_rustCore c of
        None \<Rightarrow> []
      | Some rc \<Rightarrow>
          (case rc_GetStats rc s of
             Inl e \<Rightarrow> []
           | Inr stats \<Rightarrow> [GaugeSet RustStateSizeEntries (rnd (of_int (StateSize stats))),
               GaugeSet RustMemoryUsageBytes (rnd (of_int (MemoryUsageBytes stats)))]))"

text \<open>The periodic loop over the events its select receives; the second component says whether the
  goroutine has returned. A tick carries the state and the runtime statistics it finds.\<close>

datatype 's collect_event = CollectTick 's mem_stats int | ContextDone | StopSignal

fun collectPeriodically :: "(rat \<Rightarrow> rat) \<Rightarrow> 's collector \<Rightarrow> 's collect_event list \<Rightarrow> metric_call list \<times> bool" where
  "collectPeriodically rnd c [] = ([], False)"
| "collectPeriodically rnd c (ContextDone # es) = ([], True)"
| "collectPeriodically rnd c (StopSignal # es) = ([], True)"
| "collectPeriodically rnd c (CollectTick s m g # es) =
     (case collectPeriodically rnd c es of (calls, ret) \<Rightarrow>
        (collectRuntimeMetrics rnd m g @ collectComponentMetrics rnd s c @ calls, ret))"

text \<open>\<open>Stop\<close>, with the result of the HTTP server's shutdown (\<open>None\<close> when it was never started or shut
  down in time). Closing the channel again panics.\<close>

definition collector_Stop :: "string option \<Rightarrow> 's collector \<Rightarrow> ('s collector \<times> string option) option" where
  "collector_Stop shutdown_err c =
     (if stopCh_closed c then None else Some (c\<lparr>stopCh_closed := True\<rparr>, shutdown_err))"

section \<open>HTTP handlers\<close>

datatype probe_text = StreamerNotConnected | NoActiveWorkers | OKText

definition handleHealth :: "'s \<Rightarrow> 's collector \<Rightarrow> int \<times> probe_text" where
  "handleHealth s c =
     (if (case c_blockStreamer c of None \<Rightarrow> True | Some bs \<Rightarrow> \<not> bs s) then (503, StreamerNotConnected)
      else if (case c_workerPoolHealth c of None \<Rightarrow> True | Some wp \<Rightarrow> wp s = 0) then (503, NoActiveWorkers)
      else (200, OKText))"

definition handleLivez :: "'s \<Rightarrow> 's collector \<Rightarrow> int \<times> probe_text" where
  "handleLivez s c =
     (if (case c_workerPoolHealth c of None \<Rightarrow> False | Some wp \<Rightarrow> wp s \<ge> 0) then (200, OKText)
      else (200, OKText))"

definition handleReadyz :: "'s \<Rightarrow> 's collector \<Rightarrow> int \<times> probe_text" where
  "handleReadyz s c =
     (if (case c_workerPoolHealth c of None \<Rightarrow> True | Some wp \<Rightarrow> wp s = 0) then (503, NoActiveWorkers)
      else if (case c_blockStreamer c of None \<Rightarrow> True | Some bs \<Rightarrow> \<not> bs s) then (503, StreamerNotConnected)
      else (200, OKText))"

text \<open>The loop of \<open>handleDebugGC\<close>, and its reply; the time of the last collection is \<open>None\<close> for "never".\<close>

definition debug_gc_pauses :: "mem_stats \<Rightarrow> u64 list" where
  "debug_gc_pauses m =
     (if NumGC m > 0 then
        (let numPauses = (if NumGC m > 256 then 256 else NumGC m)
         in map (\<lambda>i. PauseNs m ! unat ((NumGC m - 1 - of_nat i + 256) mod 256)) [0..<unat numPauses])
      else [])"

definition handleDebugGC :: "mem_stats \<Rightarrow> u32 \<times> u64 \<times> u64 list \<times> u64 option" where
  "handleDebugGC m = (NumGC m, PauseTotalNs m, debug_gc_pauses m, if LastGC m = 0 then None else Some (LastGC m))"

datatype state_reply =
    RustCoreNotAvailable
  | DebugRootFailed ffi_error
  | DebugStatsFailed ffi_error
  | DebugState hash int u64

fun reply_status :: "state_reply \<Rightarrow> int" where
  "reply_status RustCoreNotAvailable = 503"
| "reply_status (DebugRootFailed e) = 500"
| "reply_status (DebugStatsFailed e) = 500"
| "reply_status (DebugState r n b) = 200"

definition handleDebugState :: "'s \<Rightarrow> 's collector \<Rightarrow> state_reply" where
  "handleDebugState s c =
     (case c_rustCore c of
        None \<Rightarrow> RustCoreNotAvailable
      | Some rc \<Rightarrow>
          (case rc_GetStateRoot rc s of
             Inl e \<Rightarrow> DebugRootFailed e
           | Inr stateRoot \<Rightarrow>
               (case rc_GetStats rc s of
                  Inl e \<Rightarrow> DebugStatsFailed e
                | Inr stats \<Rightarrow> DebugState stateRoot (StateSize stats) (BlockNumber stats))))"

section \<open>Metrics are used as they are registered\<close>

text \<open>A call shows on \<open>/metrics\<close>: its field holds a metric of the kind used, and that one is registered.\<close>

definition exported :: "'s collector \<Rightarrow> metric_field \<Rightarrow> metric_kind \<Rightarrow> bool" where
  "exported c f k \<longleftrightarrow> (case c_metrics c f of None \<Rightarrow> False | Some (n, k') \<Rightarrow> k' = k \<and> (n, k) \<in> set (registry c))"

fun call_ok :: "'s collector \<Rightarrow> metric_call \<Rightarrow> bool" where
  "call_ok c (GaugeSet f x) \<longleftrightarrow> exported c f Gauge"
| "call_ok c (CounterInc f) \<longleftrightarrow> exported c f Counter"
| "call_ok c (Observe f x) \<longleftrightarrow> (\<exists>b. exported c f (Histogram b))"

fun counter_call :: "metric_call \<Rightarrow> bool" where
  "counter_call (CounterInc n) \<longleftrightarrow> True"
| "counter_call c \<longleftrightarrow> False"

lemma NewCollector_Some: "NewCollector \<noteq> None"
  by (simp add: NewCollector_def registerMetrics_def MustRegister_def initMetrics_def Let_def)

lemmas metric_defs = RecordBlockProcessed_def RecordRustApplyBlock_def RecordReorg_def RecordWorkerPanic_def
  UpdateWorkerStats_def UpdateRustStats_def collectRuntimeMetrics_def collectComponentMetrics_def

lemma new_exports:
  assumes "NewCollector = Some c"
  shows "exported c f (snd (the (initMetrics (\<lambda>f. None) f)))"
  using assms
  by (cases f) (auto simp: NewCollector_def registerMetrics_def MustRegister_def initMetrics_def Let_def exported_def)

text \<open>Every call that any operation of a new collector makes shows on the metrics page, as a call of the
  metric's kind; and the periodic collection never moves a counter.\<close>

lemma collector_calls_typed:
  assumes "NewCollector = Some (c :: 's collector)"
  shows "list_all (call_ok c) (fst (collectPeriodically rnd (c' :: 's collector) es)) \<and>
     \<not> list_ex counter_call (fst (collectPeriodically rnd c' es)) \<and>
     list_all (call_ok c) (RecordBlockProcessed rnd d @ RecordRustApplyBlock rnd d @ RecordReorg rnd depth d @
       RecordWorkerPanic @ UpdateWorkerStats rnd active queued totalWorkers @ UpdateRustStats rnd n k)"
proof -
  have e: "exported c GcPauseSeconds (Histogram (ExponentialBuckets (1 / 10000) 2 15))" "exported c MemoryAllocBytes Gauge"
    "exported c GoroutineCount Gauge" "exported c WorkerActiveCount Gauge" "exported c WorkerQueueDepth Gauge"
    "exported c WorkerUtilization Gauge" "exported c WorkerPanicTotal Counter"
    "exported c RustApplyBlockDuration (Histogram (ExponentialBuckets (1 / 10000) 2 15))"
    "exported c RustStateSizeEntries Gauge" "exported c RustMemoryUsageBytes Gauge" "exported c ReorgTotal Counter"
    "exported c ReorgDepthBlocks (Histogram (Buckets [1, 2, 3, 4, 5, 6, 7, 8, 9, 10]))"
    "exported c ReorgRollbackDuration (Histogram (ExponentialBuckets (1 / 1000) 2 12))"
    "exported c BlocksProcessedTotal Counter"
    "exported c BlockProcessingDuration (Histogram (ExponentialBuckets (1 / 10000) 2 15))"
    using new_exports [OF assms, of GcPauseSeconds] new_exports [OF assms, of MemoryAllocBytes]
      new_exports [OF assms, of GoroutineCount] new_exports [OF assms, of WorkerActiveCount]
      new_exports [OF assms, of WorkerQueueDepth] new_exports [OF assms, of WorkerUtilization]
      new_exports [OF assms, of WorkerPanicTotal] new_exports [OF assms, of RustApplyBlockDuration]
      new_exports [OF assms, of RustStateSizeEntries] new_exports [OF assms, of RustMemoryUsageBytes]
      new_exports [OF assms, of ReorgTotal] new_exports [OF assms, of ReorgDepthBlocks]
      new_exports [OF assms, of ReorgRollbackDuration] new_exports [OF assms, of BlocksProcessedTotal]
      new_exports [OF assms, of BlockProcessingDuration]
    by (simp_all add: initMetrics_def)
  have r: "list_all (call_ok c) (collectRuntimeMetrics rnd m g)" "\<not> list_ex counter_call (collectRuntimeMetrics rnd m g)" for m g
    using e by (auto simp: collectRuntimeMetrics_def Let_def)
  have k: "list_all (call_ok c) (collectComponentMetrics rnd s c')" "\<not> list_ex counter_call (collectComponentMetrics rnd s c')" for s
    using e by (auto simp: collectComponentMetrics_def Let_def split: option.split sum.split)
  have "list_all (call_ok c) (fst (collectPeriodically rnd c' es)) \<and> \<not> list_ex counter_call (fst (collectPeriodically rnd c' es))"
    using r k by (induction rnd c' es rule: collectPeriodically.induct) (simp_all add: case_prod_unfold)
  then show ?thesis using e by (auto simp: metric_defs)
qed

section \<open>Probes\<close>

text \<open>The collector as the server wires it, over a state that holds the pool, the bridge and whether the
  streamer is connected.\<close>

definition wired :: "nat \<Rightarrow> nat \<Rightarrow> ('s \<Rightarrow> 'b pool) \<Rightarrow> ('s \<Rightarrow> ffi_state ReorgEngine) \<Rightarrow> ('s \<Rightarrow> bool) \<Rightarrow>
    's collector \<Rightarrow> 's collector" where
  "wired sz_account sz_snapshot pl re conn c =
     RegisterWorkerPoolHealth (\<lambda>s. pool_ActiveWorkers (pl s)) (RegisterBlockStreamer conn
       (RegisterReorgEngine (\<lambda>s. ReorgEngineAdapter_GetStats (re s))
         (RegisterRustCore (RustCoreAdapter sz_account sz_snapshot (\<lambda>s. re_ffi (re s)))
           (RegisterWorkerPool (\<lambda>s. WorkerPoolAdapter_GetStats (pl s)) c))))"

lemma wired_simps [simp]:
  "c_workerPool (wired sa ss pl re conn c) = Some (\<lambda>s. WorkerPoolAdapter_GetStats (pl s))"
  "c_rustCore (wired sa ss pl re conn c) = Some (RustCoreAdapter sa ss (\<lambda>s. re_ffi (re s)))"
  "c_blockStreamer (wired sa ss pl re conn c) = Some conn"
  "c_workerPoolHealth (wired sa ss pl re conn c) = Some (\<lambda>s. pool_ActiveWorkers (pl s))"
  by (simp_all add: wired_def RegisterWorkerPoolHealth_def RegisterBlockStreamer_def RegisterReorgEngine_def
      RegisterRustCore_def RegisterWorkerPool_def)

text \<open>A worker goroutine that is running, idle or busy.\<close>

definition running :: "'b worker_pc \<Rightarrow> bool" where
  "running w \<longleftrightarrow> w \<noteq> Fresh \<and> w \<noteq> Exited"

lemma active_pos: "0 < pcs pc_active p \<longleftrightarrow> list_ex running (workers p)"
proof -
  have "0 \<le> sum_list (map pc_active ws) \<and> (0 < sum_list (map pc_active ws) \<longleftrightarrow> list_ex running ws)"
    for ws :: "'a worker_pc list"
  proof (induction ws)
    case (Cons w ws)
    then show ?case by (cases w) (auto simp: running_def)
  qed simp
  then show ?thesis by (simp add: pcs_def)
qed

text \<open>C37: what the probes mean. On the collector as the server wires it, in every reachable state of the
  worker pool, \<open>/readyz\<close> and \<open>/health\<close> answer 200 exactly when the streamer is connected and at least
  one worker goroutine is running, idle ones included, and 503 otherwise; they differ only in which
  of two missing conditions they name. \<open>/livez\<close> always answers 200.\<close>

theorem probes_spec:
  assumes "pool_run NewPool es (pl s)"
  shows "(fst (handleReadyz s (wired sa ss pl re conn c)) = 200 \<longleftrightarrow> conn s \<and> list_ex running (workers (pl s))) \<and>
    fst (handleHealth s (wired sa ss pl re conn c)) = fst (handleReadyz s (wired sa ss pl re conn c)) \<and>
    fst (handleReadyz s (wired sa ss pl re conn c)) \<in> {200, 503} \<and>
    (handleReadyz s (wired sa ss pl re conn c) \<noteq> handleHealth s (wired sa ss pl re conn c) \<longleftrightarrow>
       \<not> conn s \<and> \<not> list_ex running (workers (pl s))) \<and>
    handleLivez s (wired sa ss pl re conn c) = (200, OKText)"
proof -
  have "activeWorkers (pl s) = pcs pc_active (pl s)"
    using pool_inv_run [OF assms refl] by (simp add: pool_inv_def worker_inv_def)
  moreover have "0 \<le> pcs pc_active (pl s)" by (rule pcs_bounds)
  ultimately have "pool_ActiveWorkers (pl s) = 0 \<longleftrightarrow> \<not> list_ex running (workers (pl s))"
    using active_pos [of "pl s"] by (auto simp: pool_ActiveWorkers_def)
  then show ?thesis
    by (auto simp: handleReadyz_def handleHealth_def handleLivez_def)
qed

theorem probes_spec_witness:
  "\<exists>p :: nat pool. pool_run NewPool [PoolStarted 1, WorkerStarted 0, Submitted 7, Received 0 7, Began 0 7,
       Panicked 0 7] p \<and>
     fst (handleReadyz () (wired 0 0 (\<lambda>s. p) (\<lambda>s. NewReorgEngine fresh_ffi) (\<lambda>s. True) (the NewCollector))) = 200"
proof -
  from panic_run obtain p where p: "pool_run NewPool [PoolStarted 1, WorkerStarted 0, Submitted 7, Received 0 7,
      Began 0 7, Panicked 0 (7 :: nat)] p" "workers p = [Waiting]" by blast
  let ?c = "wired 0 0 (\<lambda>s. p) (\<lambda>s. NewReorgEngine fresh_ffi) (\<lambda>s. True) (the NewCollector :: unit collector)"
  have "fst (handleReadyz () ?c) = 200 \<longleftrightarrow> True \<and> list_ex running (workers p)"
    using probes_spec [where pl = "\<lambda>s. p" and s = "()" and conn = "\<lambda>s. True", OF p(1)] by blast
  then have "fst (handleReadyz () ?c) = 200" using p(2) by (simp add: running_def)
  with p(1) show ?thesis by blast
qed

text \<open>The worker gauges stay in range. In every reachable state of the pool, with any rounding that
  behaves like IEEE 754 doubles, a collection sets the utilization to a value from 0 to 100 and the
  number of active workers to at most the 256 the configuration allows.\<close>

theorem worker_gauges_bounded:
  assumes "ieee rnd" and "pool_run NewPool es (pl s)"
    and "GaugeSet n x \<in> set (collectComponentMetrics rnd s (wired sa ss pl re conn c))"
  shows "(n = WorkerUtilization \<longrightarrow> 0 \<le> x \<and> x \<le> 100) \<and>
    (n = WorkerActiveCount \<longrightarrow> 0 \<le> x \<and> x \<le> 256)"
proof -
  let ?a = "of_int (activeWorkers (pl s)) :: rat" and ?w = "of_int (numWorkers (pl s)) :: rat"
  note inv = pool_inv_run [OF assms(2) refl]
  have b: "0 \<le> activeWorkers (pl s)" "activeWorkers (pl s) \<le> numWorkers (pl s)" "numWorkers (pl s) \<le> 256"
    using inv pcs_bounds [of "pl s"] by (auto simp: pool_inv_def worker_inv_def flag_inv_def)
  have m: "mono rnd" using assms(1) by (simp add: ieee_def)
  have r: "rnd ?a = ?a" "rnd ?w = ?w" "rnd 0 = 0" "rnd 1 = 1" "rnd 100 = 100"
    using ieee_int [OF assms(1), of "activeWorkers (pl s)"] ieee_int [OF assms(1), of "numWorkers (pl s)"]
      ieee_int [OF assms(1), of 0] ieee_int [OF assms(1), of 1] ieee_int [OF assms(1), of 100] b by simp_all
  have u: "0 \<le> rnd (rnd (?a / ?w) * 100) \<and> rnd (rnd (?a / ?w) * 100) \<le> 100" if "0 < numWorkers (pl s)"
  proof -
    have "0 \<le> ?a / ?w" "?a / ?w \<le> 1" using b that by (simp_all add: divide_le_eq_1)
    then have "rnd 0 \<le> rnd (?a / ?w)" "rnd (?a / ?w) \<le> rnd 1" by (auto intro: monoD [OF m])
    then have "0 \<le> rnd (?a / ?w) * 100" "rnd (?a / ?w) * 100 \<le> 100" using r by simp_all
    then have "rnd 0 \<le> rnd (rnd (?a / ?w) * 100)" "rnd (rnd (?a / ?w) * 100) \<le> rnd 100"
      by (auto intro: monoD [OF m])
    with r show ?thesis by simp
  qed
  show ?thesis
    using assms(3) b r u
    by (auto simp: collectComponentMetrics_def WorkerPoolAdapter_GetStats_def pool_GetStats_def
        pool_ActiveWorkers_def Let_def split: if_splits sum.splits)
qed

theorem worker_gauges_bounded_witness:
  "\<exists>p :: nat pool. pool_run NewPool [PoolStarted 1, WorkerStarted 0, Submitted 7, Received 0 7, Began 0 7,
       Panicked 0 7] p \<and>
     (\<exists>x. GaugeSet WorkerActiveCount x \<in> set (collectComponentMetrics (\<lambda>x. x) ()
        (wired 0 0 (\<lambda>s. p) (\<lambda>s. NewReorgEngine fresh_ffi) (\<lambda>s. True) (the NewCollector))) \<and> 0 \<le> x \<and> x \<le> 256)"
proof -
  from panic_run obtain p where p: "pool_run NewPool [PoolStarted 1, WorkerStarted 0, Submitted 7, Received 0 7,
      Began 0 7, Panicked 0 (7 :: nat)] p" "workers p = [Waiting]" by blast
  let ?c = "wired 0 0 (\<lambda>s. p) (\<lambda>s. NewReorgEngine fresh_ffi) (\<lambda>s. True) (the NewCollector :: unit collector)"
  have g: "GaugeSet WorkerActiveCount (of_int (activeWorkers p)) \<in> set (collectComponentMetrics (\<lambda>x. x) () ?c)"
    by (simp add: collectComponentMetrics_def WorkerPoolAdapter_GetStats_def pool_GetStats_def
        pool_ActiveWorkers_def Let_def)
  from worker_gauges_bounded [where pl = "\<lambda>s. p" and s = "()", OF ieee_id p(1) g] p g show ?thesis by blast
qed

section \<open>Pause history\<close>

lemma foldl_max:
  fixes xs :: "'a :: linorder list"
  shows "foldl (\<lambda>mx x. if x > mx then x else mx) a xs = Max (set (a # xs))"
proof -
  have "(\<lambda>mx x. if x > mx then x else mx) = (max :: 'a \<Rightarrow> 'a \<Rightarrow> 'a)"
    by (auto simp: fun_eq_iff max_def not_less)
  moreover have "foldl max a xs = fold max xs a" by (simp add: foldl_conv_fold max.commute)
  ultimately show ?thesis by (simp only: Max.set_eq_fold)
qed

lemma max_pause_list:
  "GetMaxGCPauseMs rnd mem m =
     rnd (rnd (of_nat (unat (Max (set (0 # map (\<lambda>i. PauseNs mem ! unat ((NumGC mem - of_nat i + 255) mod 256))
       [0..<min 256 (unat (GetGCCount m))]))))) / 1000000)"
proof -
  have n: "unat (if GetGCCount m > 256 then 256 else GetGCCount m) = min 256 (unat (GetGCCount m))"
    by (simp add: word_less_nat_alt min_def)
  have "foldl (\<lambda>mx i. let p = PauseNs mem ! unat ((NumGC mem - of_nat i + 255) mod 256)
                    in if p > mx then p else mx) 0 is =
      foldl (\<lambda>mx x. if x > mx then x else mx) 0 (map (\<lambda>i. PauseNs mem ! unat ((NumGC mem - of_nat i + 255) mod 256)) is)"
    for "is" by (simp add: foldl_map Let_def)
  then show ?thesis
    unfolding GetMaxGCPauseMs_def GetGCCount_def [symmetric] Let_def n foldl_max [symmetric] by (simp add: Let_def)
qed

text \<open>C40: the pause ring is read correctly in all four places. If the runtime recorded the pauses \<open>h\<close> in its
  ring, \<open>get_gc_stats\<close> and \<open>/debug/gc\<close> both list the last 256 of them, most recent first, although
  they compute the ring index differently on unsigned 32-bit integers; the periodic collection
  observes the last one; and the largest pause of a load test in which at most that many collections
  ran is the largest of that many most recent pauses, of which at most 256 are looked at.\<close>

theorem gc_pause_history:
  assumes "records_pauses h m"
  shows "gc_pauses m = rev (last_n 256 h) \<and> debug_gc_pauses m = rev (last_n 256 h) \<and>
    (h \<noteq> [] \<longrightarrow> Observe GcPauseSeconds (rnd (rnd (of_nat (unat (last h))) / 1000000000))
       \<in> set (collectRuntimeMetrics rnd m g)) \<and>
    (unat (GetGCCount lm) \<le> length h \<longrightarrow> GetMaxGCPauseMs rnd m lm =
       rnd (rnd (of_nat (unat (Max (insert 0 (set (last_n (min 256 (unat (GetGCCount lm))) h)))))) / 1000000))"
proof (intro conjI impI)
  let ?n = "length h"
  note n = records_NumGC [OF assms]
  show gc: "gc_pauses m = rev (last_n 256 h)"
    using recorded_pauses [OF assms, of "min 256 ?n"]
    by (simp add: gc_pauses_def n(3) last_n_def) (simp add: min_def)
  have "debug_gc_pauses m = gc_pauses m"
  proof (cases "?n = 0")
    case True
    then show ?thesis by (simp add: debug_gc_pauses_def gc_pauses_def n(2))
  next
    case False
    then have "NumGC m > 0" by (simp add: word_gt_0_no n(3) word_less_nat_alt)
    moreover have "unat (if NumGC m > 256 then 256 else NumGC m) = min 256 ?n"
      using n(3) by (simp add: word_less_nat_alt min_def)
    moreover have "NumGC m - 1 - of_nat i + 256 = NumGC m - of_nat i + 255" for i by simp
    ultimately show ?thesis by (simp only: debug_gc_pauses_def gc_pauses_def Let_def n(3) if_True)
  qed
  with gc show "debug_gc_pauses m = rev (last_n 256 h)" by simp
  show "Observe GcPauseSeconds (rnd (rnd (of_nat (unat (last h))) / 1000000000)) \<in> set (collectRuntimeMetrics rnd m g)"
    if "h \<noteq> []"
  proof -
    have "NumGC m > 0" using that n(3) by (simp add: word_less_nat_alt)
    moreover have "PauseNs m ! unat ((NumGC m + 255) mod 256) = last h"
      using recorded_pause [OF assms, of 0] that by (simp add: last_conv_nth)
    ultimately show ?thesis by (simp add: collectRuntimeMetrics_def Let_def)
  qed
  show "GetMaxGCPauseMs rnd m lm =
      rnd (rnd (of_nat (unat (Max (insert 0 (set (last_n (min 256 (unat (GetGCCount lm))) h)))))) / 1000000)"
    if "unat (GetGCCount lm) \<le> ?n"
  proof -
    have "min 256 (unat (GetGCCount lm)) \<le> ?n" using that by simp
    from recorded_pauses [OF assms this] show ?thesis unfolding max_pause_list by simp
  qed
qed

theorem gc_pause_history_witness:
  "gc_pauses sample_mem = [30, 20, 10] \<and> debug_gc_pauses sample_mem = [30, 20, 10] \<and>
   GetMaxGCPauseMs (\<lambda>x. x) sample_mem (NewLoadTestMetrics\<lparr>gcCountEnd := 2\<rparr>) = 30 / 1000000"
  using gc_pause_history [OF sample_mem_records, of "\<lambda>x. x" 0 "NewLoadTestMetrics\<lparr>gcCountEnd := 2\<rparr>"]
  by (simp add: last_n_def GetGCCount_def NewLoadTestMetrics_def)

end
