(* ===== verification/Config.thy ===== *)
theory Config
  imports Go_Strings
begin

text \<open>
  Loading and validating the configuration (\<^verbatim>\<open>internal/config/config.go\<close>). The environment maps
  variable names to values; \<open>os.Getenv\<close> returns the empty string for an unset one. \<open>Atoi\<close> and
  \<open>ParseBool\<close> are the functions of \<open>strconv\<close>.
\<close>

record config =
  ETHRPCURL :: string
  WorkerCount :: int
  MetricsPort :: int
  MCPPort :: int
  LoadTestEnabled :: bool

datatype config_error =
    URLRequired
  | NotAnInteger string
  | NotABoolean
  | URLEmpty
  | WorkerCountRange int
  | MetricsPortRange int
  | MCPPortRange int
  | HardcodedSecret

type_synonym environ = "string \<Rightarrow> string option"

definition Getenv :: "environ \<Rightarrow> string \<Rightarrow> string" where
  "Getenv env k = (case env k of Some v \<Rightarrow> v | None \<Rightarrow> [])"

section \<open>Number and truth value syntax\<close>

definition is_digit :: "char \<Rightarrow> bool" where
  "is_digit c \<longleftrightarrow> 48 \<le> (of_char c :: nat) \<and> (of_char c :: nat) \<le> 57"

fun digits_val :: "nat \<Rightarrow> string \<Rightarrow> nat option" where
  "digits_val n [] = Some n"
| "digits_val n (c # cs) = (if is_digit c then digits_val (10 * n + (of_char c - 48)) cs else None)"

text \<open>\<open>strconv.Atoi\<close>: an optional sign, at least one digit, and a value that fits an int.\<close>

definition Atoi :: "string \<Rightarrow> int option" where
  "Atoi s =
     (let neg = (s \<noteq> [] \<and> hd s = CHR ''-'');
          ds = (if s \<noteq> [] \<and> (hd s = CHR ''-'' \<or> hd s = CHR ''+'') then tl s else s)
      in if ds = [] then None
         else (case digits_val 0 ds of None \<Rightarrow> None
           | Some n \<Rightarrow> (let v = (if neg then - int n else int n)
                        in if - (2 ^ 63) \<le> v \<and> v < 2 ^ 63 then Some v else None)))"

definition ParseBool :: "string \<Rightarrow> bool option" where
  "ParseBool s =
     (if s \<in> {''1'', ''t'', ''T'', ''TRUE'', ''true'', ''True''} then Some True
      else if s \<in> {''0'', ''f'', ''F'', ''FALSE'', ''false'', ''False''} then Some False
      else None)"

section \<open>The secret check\<close>

text \<open>The loop of \<open>splitOnSlashes\<close> over the runes, with \<open>current\<close> and \<open>parts\<close>.\<close>

fun split_loop :: "nat list \<Rightarrow> string \<Rightarrow> string list \<Rightarrow> string list" where
  "split_loop [] cur parts = (if cur \<noteq> [] then parts @ [cur] else parts)"
| "split_loop (r # rs) cur parts =
     (if r = 47 then split_loop rs [] (if cur \<noteq> [] then parts @ [cur] else parts)
      else split_loop rs (cur @ encode_rune r) parts)"

definition splitOnSlashes :: "string \<Rightarrow> string list" where
  "splitOnSlashes s = split_loop (runes s) [] []"

definition hex_rune :: "nat \<Rightarrow> bool" where
  "hex_rune r \<longleftrightarrow> (48 \<le> r \<and> r \<le> 57) \<or> (97 \<le> r \<and> r \<le> 102) \<or> (65 \<le> r \<and> r \<le> 70)"

definition isHexString :: "string \<Rightarrow> bool" where
  "isHexString s \<longleftrightarrow> list_all hex_rune (runes s)"

definition containsHardcodedSecret :: "string \<Rightarrow> bool" where
  "containsHardcodedSecret s \<longleftrightarrow>
     list_ex (\<lambda>part. length part \<ge> 32 \<and> isHexString part) (splitOnSlashes s)"

section \<open>Loading\<close>

definition config_Validate :: "config \<Rightarrow> config_error option" where
  "config_Validate c =
     (if ETHRPCURL c = [] then Some URLEmpty
      else if WorkerCount c < 1 \<or> WorkerCount c > 256 then Some (WorkerCountRange (WorkerCount c))
      else if MetricsPort c < 1 \<or> MetricsPort c > 65535 then Some (MetricsPortRange (MetricsPort c))
      else if MCPPort c < 1 \<or> MCPPort c > 65535 then Some (MCPPortRange (MCPPort c))
      else if containsHardcodedSecret (ETHRPCURL c) then Some HardcodedSecret
      else None)"

definition int_setting :: "environ \<Rightarrow> string \<Rightarrow> int \<Rightarrow> config_error + int" where
  "int_setting env k d =
     (if Getenv env k = [] then Inr d
      else (case Atoi (Getenv env k) of None \<Rightarrow> Inl (NotAnInteger k) | Some n \<Rightarrow> Inr n))"

definition bool_setting :: "environ \<Rightarrow> string \<Rightarrow> config_error + bool" where
  "bool_setting env k =
     (if Getenv env k = [] then Inr False
      else (case ParseBool (Getenv env k) of None \<Rightarrow> Inl NotABoolean | Some b \<Rightarrow> Inr b))"

definition Load :: "environ \<Rightarrow> config_error + config" where
  "Load env =
     (let url = Getenv env ''ETH_RPC_URL'' in
      if url = [] then Inl URLRequired
      else (case int_setting env ''WORKER_COUNT'' 4 of Inl e \<Rightarrow> Inl e | Inr wc \<Rightarrow>
           (case int_setting env ''METRICS_PORT'' 9090 of Inl e \<Rightarrow> Inl e | Inr mp \<Rightarrow>
           (case int_setting env ''MCP_PORT'' 8080 of Inl e \<Rightarrow> Inl e | Inr cp \<Rightarrow>
           (case bool_setting env ''LOAD_TEST_ENABLED'' of Inl e \<Rightarrow> Inl e | Inr lt \<Rightarrow>
              (let cfg = \<lparr>ETHRPCURL = url, WorkerCount = wc, MetricsPort = mp, MCPPort = cp,
                          LoadTestEnabled = lt\<rparr>
               in (case config_Validate cfg of Some e \<Rightarrow> Inl e | None \<Rightarrow> Inr cfg)))))))"

section \<open>The secret check on bytes\<close>

definition hex_char :: "char \<Rightarrow> bool" where
  "hex_char c \<longleftrightarrow> hex_rune (of_char c)"

definition key_like :: "string \<Rightarrow> bool" where
  "key_like s \<longleftrightarrow> 32 \<le> length s \<and> list_all hex_char s"

lemma hex_char_ascii: "hex_char c \<Longrightarrow> of_char c < (0x80 :: nat)"
  by (auto simp: hex_char_def hex_rune_def)

lemma isHexString_bytes: "isHexString s \<longleftrightarrow> list_all hex_char s"
proof (induction s rule: rune_induct)
  case (ascii c s)
  then show ?case by (simp add: isHexString_def runes_ascii hex_char_def)
next
  case (high blk s r)
  then obtain c cs where "blk = c # cs" by (cases blk) auto
  moreover from this high have "\<not> hex_char c" "\<not> hex_rune r"
    by (auto simp: hex_char_def hex_rune_def)
  ultimately show ?case using high by (simp add: isHexString_def)
qed (simp add: isHexString_def)

text \<open>The scan of the bytes: \<open>cur\<close> is the segment read so far.\<close>

fun scan :: "string \<Rightarrow> string \<Rightarrow> bool" where
  "scan cur [] = key_like cur"
| "scan cur (c # s) = (if c = CHR ''/'' then key_like cur \<or> scan [] s else scan (cur @ [c]) s)"

lemma scan_bad:
  "\<not> list_all hex_char x \<Longrightarrow> \<not> list_all hex_char y \<Longrightarrow> scan (x @ z) s = scan (y @ z) s"
  by (induction s arbitrary: z) (auto simp: key_like_def)

lemma scan_block:
  "CHR ''/'' \<notin> set blk \<Longrightarrow> scan cur (blk @ s) = scan (cur @ blk) s"
  by (induction blk arbitrary: cur) auto

lemma split_loop_scan:
  "list_ex (\<lambda>p. length p \<ge> 32 \<and> isHexString p) (split_loop (runes s) cur parts) \<longleftrightarrow>
     list_ex (\<lambda>p. length p \<ge> 32 \<and> isHexString p) parts \<or> scan cur s"
proof (induction s arbitrary: cur parts rule: rune_induct)
  case Nil
  then show ?case by (auto simp: isHexString_bytes key_like_def)
next
  case (ascii c s)
  have "(of_char (CHR ''/'') :: nat) = 47" by simp
  then have "of_char c = (47 :: nat) \<longleftrightarrow> c = CHR ''/''" by (metis of_char_eq_iff)
  with ascii show ?case
    by (auto simp: runes_ascii encode_rune_ascii isHexString_bytes key_like_def)
next
  case (high blk s r)
  have slash: "CHR ''/'' \<notin> set blk" using high(2) by force
  obtain c cs where blk: "blk = c # cs" using high(1) by (cases blk) auto
  have "\<not> list_all hex_char (cur @ blk)" using high(2) blk hex_char_ascii [of c] by auto
  moreover have "\<not> list_all hex_char (cur @ encode_rune r)"
    using encode_rune_high [OF high(3)] hex_char_ascii [of "hd (encode_rune r)"]
    by (cases "encode_rune r") auto
  ultimately have "scan (cur @ blk) s = scan (cur @ encode_rune r) s"
    using scan_bad [of "cur @ blk" "cur @ encode_rune r" "[]"] by simp
  with high(3-5) show ?case by (simp add: scan_block [OF slash])
qed

lemma key_like_no_slash: "key_like s \<Longrightarrow> CHR ''/'' \<notin> set s"
  by (auto simp: key_like_def list_all_iff hex_char_def hex_rune_def)

text \<open>Segments: maximal slash-free substrings.\<close>

definition segment_of :: "string \<Rightarrow> string \<Rightarrow> bool" where
  "segment_of seg s \<longleftrightarrow> CHR ''/'' \<notin> set seg \<and>
     (\<exists>pre post. s = pre @ seg @ post \<and> (pre = [] \<or> last pre = CHR ''/'') \<and>
       (post = [] \<or> hd post = CHR ''/''))"

lemma segment_first:
  "s = seg @ post \<Longrightarrow> key_like seg \<Longrightarrow> post = [] \<or> hd post = CHR ''/'' \<Longrightarrow> segment_of seg s"
  using key_like_no_slash [of seg] unfolding segment_of_def by (metis append_Nil)

lemma segment_later:
  assumes "s = pre @ CHR ''/'' # seg @ post" and "key_like seg" and "post = [] \<or> hd post = CHR ''/''"
  shows "segment_of seg s"
proof -
  have "s = (pre @ ''/'') @ seg @ post" "last (pre @ ''/'') = CHR ''/''" using assms(1) by simp_all
  with assms(2,3) key_like_no_slash [of seg] show ?thesis unfolding segment_of_def by blast
qed

lemma scan_first: "CHR ''/'' \<notin> set seg \<Longrightarrow> post = [] \<or> hd post = CHR ''/'' \<Longrightarrow>
    key_like (cur @ seg) \<Longrightarrow> scan cur (seg @ post)"
  using scan_block [of seg cur "[]"] by (cases post) (auto simp: scan_block)

lemma scan_later: "CHR ''/'' \<notin> set seg \<Longrightarrow> post = [] \<or> hd post = CHR ''/'' \<Longrightarrow> key_like seg \<Longrightarrow>
    scan cur (pre @ CHR ''/'' # seg @ post)"
  by (induction pre arbitrary: cur) (auto intro: scan_first)

lemma scan_cases:
  "scan cur s \<Longrightarrow> (\<exists>seg post. s = seg @ post \<and> key_like (cur @ seg) \<and> (post = [] \<or> hd post = CHR ''/'')) \<or>
     (\<exists>pre seg post. s = pre @ CHR ''/'' # seg @ post \<and> key_like seg \<and> (post = [] \<or> hd post = CHR ''/''))"
    (is "_ \<Longrightarrow> ?first cur s \<or> ?later s")
proof (induction cur s rule: scan.induct)
  case (1 cur)
  then show ?case by auto
next
  case (2 cur c s)
  have later: "?later s \<Longrightarrow> ?later (c # s)" by (metis append_Cons)
  show ?case
  proof (cases "c = CHR ''/''")
    case True
    have "?first [] s \<Longrightarrow> ?later (c # s)" using True by (metis append_Nil)
    moreover have "key_like cur \<Longrightarrow> ?first cur (c # s)"
      using True by (metis append_Nil append_Nil2 list.sel(1))
    moreover have "key_like cur \<or> scan [] s" using "2.prems" True by simp
    ultimately show ?thesis using "2.IH"(1) [OF True] later by blast
  next
    case False
    have "?first (cur @ [c]) s \<Longrightarrow> ?first cur (c # s)" by (metis append_Cons append_Nil append_assoc)
    moreover have "scan (cur @ [c]) s" using "2.prems" False by simp
    ultimately show ?thesis using "2.IH"(2) [OF False] later by blast
  qed
qed

text \<open>The secret check, on every byte string. A URL counts as containing a secret exactly when
  one of its slash-separated segments has at least 32 bytes and consists of hexadecimal digits
  only; UTF-8 decoding, and the replacement of invalid bytes, make no difference.\<close>

theorem containsHardcodedSecret_iff:
  "containsHardcodedSecret s \<longleftrightarrow> (\<exists>seg. segment_of seg s \<and> 32 \<le> length seg \<and> list_all hex_char seg)"
proof -
  have "containsHardcodedSecret s \<longleftrightarrow> scan [] s"
    by (simp add: containsHardcodedSecret_def splitOnSlashes_def split_loop_scan)
  also have "\<dots> \<longleftrightarrow> (\<exists>seg. segment_of seg s \<and> key_like seg)"
  proof
    assume "scan [] s"
    from scan_cases [OF this] show "\<exists>seg. segment_of seg s \<and> key_like seg"
      using segment_first segment_later by (simp only: append_Nil) blast
  next
    assume "\<exists>seg. segment_of seg s \<and> key_like seg"
    then obtain seg pre post where s: "s = pre @ seg @ post" "pre = [] \<or> last pre = CHR ''/''"
      "post = [] \<or> hd post = CHR ''/''" "key_like seg" "CHR ''/'' \<notin> set seg"
      by (auto simp: segment_of_def)
    show "scan [] s"
    proof (cases pre rule: rev_cases)
      case Nil
      with s scan_first [of seg post "[]"] show ?thesis by simp
    next
      case (snoc ys y)
      with s scan_later [of seg post "[]" ys] show ?thesis by simp
    qed
  qed
  finally show ?thesis by (simp add: key_like_def)
qed

section \<open>What the settings mean\<close>

definition digit_char :: "nat \<Rightarrow> char" where
  "digit_char n = char_of (48 + n)"

text \<open>A string that spells an int: an optional sign and decimal digits, with a value of 64 bits. A setting
  that is unset or empty has its default.\<close>

definition spells_int :: "string \<Rightarrow> int \<Rightarrow> bool" where
  "spells_int s v \<longleftrightarrow> (\<exists>sign ns. s = sign @ map digit_char ns \<and> sign \<in> {[], ''+'', ''-''} \<and>
     ns \<noteq> [] \<and> (\<forall>n\<in>set ns. n < (10 :: nat)) \<and>
     v = (if sign = ''-'' then -1 else 1) * int (\<Sum>i<length ns. rev ns ! i * 10 ^ i) \<and> - (2 ^ 63) \<le> v \<and> v < 2 ^ 63)"

definition spells_bool :: "string \<Rightarrow> bool \<Rightarrow> bool" where
  "spells_bool s b \<longleftrightarrow> s \<in> (if b then {''1'', ''t'', ''T'', ''TRUE'', ''true'', ''True''}
     else {''0'', ''f'', ''F'', ''FALSE'', ''false'', ''False''})"

definition unset :: "environ \<Rightarrow> string \<Rightarrow> bool" where
  "unset env k \<longleftrightarrow> env k = None \<or> env k = Some []"

definition number_from :: "environ \<Rightarrow> string \<Rightarrow> int \<Rightarrow> int \<Rightarrow> bool" where
  "number_from env k d v \<longleftrightarrow> (if unset env k then v = d else spells_int (the (env k)) v)"

definition flag_from :: "environ \<Rightarrow> string \<Rightarrow> bool \<Rightarrow> bool" where
  "flag_from env k b \<longleftrightarrow> (if unset env k then \<not> b else spells_bool (the (env k)) b)"

definition holds_key :: "string \<Rightarrow> bool" where
  "holds_key url \<longleftrightarrow> (\<exists>seg. segment_of seg url \<and> 32 \<le> length seg \<and> set seg \<subseteq> set ''0123456789abcdefABCDEF'')"

text \<open>What each error accuses the environment of.\<close>

fun justified :: "environ \<Rightarrow> config_error \<Rightarrow> bool" where
  "justified env URLRequired \<longleftrightarrow> unset env ''ETH_RPC_URL''"
| "justified env (NotAnInteger k) \<longleftrightarrow> k \<in> {''WORKER_COUNT'', ''METRICS_PORT'', ''MCP_PORT''} \<and> \<not> unset env k \<and>
     (\<nexists>v. spells_int (the (env k)) v)"
| "justified env NotABoolean \<longleftrightarrow> \<not> unset env ''LOAD_TEST_ENABLED'' \<and> (\<nexists>b. spells_bool (the (env ''LOAD_TEST_ENABLED'')) b)"
| "justified env URLEmpty \<longleftrightarrow> False"
| "justified env (WorkerCountRange n) \<longleftrightarrow> number_from env ''WORKER_COUNT'' 4 n \<and> \<not> (1 \<le> n \<and> n \<le> 256)"
| "justified env (MetricsPortRange p) \<longleftrightarrow> number_from env ''METRICS_PORT'' 9090 p \<and> \<not> (1 \<le> p \<and> p \<le> 65535)"
| "justified env (MCPPortRange p) \<longleftrightarrow> number_from env ''MCP_PORT'' 8080 p \<and> \<not> (1 \<le> p \<and> p \<le> 65535)"
| "justified env HardcodedSecret \<longleftrightarrow> \<not> unset env ''ETH_RPC_URL'' \<and> holds_key (the (env ''ETH_RPC_URL''))"

lemma digit_char_code: "n < 10 \<Longrightarrow> of_char (digit_char n) = 48 + n"
  by (simp add: digit_char_def)

lemma digit_char_cases: "is_digit c \<Longrightarrow> \<exists>n<10. c = digit_char n"
  unfolding is_digit_def digit_char_def
  by (rule exI [of _ "of_char c - 48"], rule conjI, arith) (simp add: le_add_diff_inverse)

lemma digits_val_digits:
  "\<forall>n\<in>set ns. n < 10 \<Longrightarrow> digits_val a (map digit_char ns) = Some (a * 10 ^ length ns + (\<Sum>i<length ns. rev ns ! i * 10 ^ i))"
proof (induction ns arbitrary: a)
  case (Cons n ns)
  have "(\<Sum>i<length ns. rev (n # ns) ! i * 10 ^ i) = (\<Sum>i<length ns. rev ns ! i * 10 ^ i)"
    by (rule sum.cong) (simp_all add: nth_append)
  moreover have "rev (n # ns) ! length ns = n" by (simp add: nth_append)
  ultimately have "(\<Sum>i<length (n # ns). rev (n # ns) ! i * 10 ^ i) = (\<Sum>i<length ns. rev ns ! i * 10 ^ i) + n * 10 ^ length ns"
    by (simp only: list.size sum.lessThan_Suc add_Suc_right add_0_right)
  moreover have "digits_val a (map digit_char (n # ns)) = digits_val (10 * a + n) (map digit_char ns)"
    using Cons.prems digit_char_code [of n] by (simp add: is_digit_def)
  ultimately show ?case using Cons by (simp add: algebra_simps)
qed simp

lemma digits_val_Some:
  "digits_val a ds = Some m \<Longrightarrow> \<exists>ns. ds = map digit_char ns \<and> (\<forall>n\<in>set ns. n < 10)"
proof (induction ds arbitrary: a)
  case (Cons c cs)
  from Cons.prems have d: "is_digit c" "digits_val (10 * a + (of_char c - 48)) cs = Some m" by (simp_all split: if_splits)
  from digit_char_cases [OF d(1)] obtain n where "n < 10" "c = digit_char n" by blast
  moreover from Cons.IH [OF d(2)] obtain ns where "cs = map digit_char ns" "\<forall>n\<in>set ns. n < 10" by blast
  ultimately show ?case by (intro exI [of _ "n # ns"]) simp
qed simp

lemma no_sign: "n < 10 \<Longrightarrow> digit_char n \<noteq> CHR ''-'' \<and> digit_char n \<noteq> CHR ''+''"
  using digit_char_code [of n] by auto

lemma hex_char_set: "hex_char c \<longleftrightarrow> c \<in> set ''0123456789abcdefABCDEF''"
proof -
  have "map of_char ''0123456789abcdefABCDEF'' = [48..<58] @ [97..<103] @ [65..<71 :: nat]"
    by (simp add: upt_rec)
  then have "of_char ` set ''0123456789abcdefABCDEF'' = set ([48..<58] @ [97..<103] @ [65..<71 :: nat])"
    unfolding list.set_map [symmetric] by (rule arg_cong)
  moreover have "hex_char c \<longleftrightarrow> of_char c \<in> set ([48..<58] @ [97..<103] @ [65..<71 :: nat])"
    unfolding hex_char_def hex_rune_def set_append set_upt Un_iff atLeastLessThan_iff by linarith
  moreover have "(of_char c :: nat) \<in> of_char ` A \<longleftrightarrow> c \<in> A" for A
    by (auto simp: of_char_eq_iff)
  ultimately show ?thesis by metis
qed

lemma holds_key_iff: "containsHardcodedSecret url \<longleftrightarrow> holds_key url"
  unfolding containsHardcodedSecret_iff holds_key_def list_all_iff hex_char_set by (simp only: subset_iff Ball_def)

lemma Atoi_unsigned:
  assumes "ns \<noteq> []" and "\<forall>n\<in>set ns. n < 10" and "sign \<in> {[], ''+'', ''-''}"
  shows "Atoi (sign @ map digit_char ns) =
    (let v = (if sign = ''-'' then -1 else 1) * int (\<Sum>i<length ns. rev ns ! i * 10 ^ i)
     in if - (2 ^ 63) \<le> v \<and> v < 2 ^ 63 then Some v else None)"
proof -
  define ds where "ds = map digit_char ns"
  have v: "digits_val 0 ds = Some (\<Sum>i<length ns. rev ns ! i * 10 ^ i)"
    unfolding ds_def digits_val_digits [OF assms(2)] by simp
  define w where "w = (\<Sum>i<length ns. rev ns ! i * 10 ^ i)"
  have ne: "ds \<noteq> []" using assms(1) by (simp add: ds_def)
  have hd: "hd ds \<noteq> CHR ''-''" "hd ds \<noteq> CHR ''+''"
    using assms(1,2) no_sign by (cases ns; simp add: ds_def)+
  from assms(3) consider "sign = []" | "sign = ''+''" | "sign = ''-''" by auto
  then show ?thesis unfolding ds_def [symmetric] w_def [symmetric]
    by cases (simp_all add: Atoi_def Let_def v [folded w_def] ne hd)
qed

lemma Atoi_iff: "Atoi s = Some v \<longleftrightarrow> spells_int s v"
proof
  assume a: "Atoi s = Some v"
  define ds where "ds = (if s \<noteq> [] \<and> (hd s = CHR ''-'' \<or> hd s = CHR ''+'') then tl s else s)"
  have "\<exists>sign. s = sign @ ds \<and> sign \<in> {[], ''+'', ''-''}"
  proof (cases "s \<noteq> [] \<and> (hd s = CHR ''-'' \<or> hd s = CHR ''+'')")
    case True
    then show ?thesis by (intro exI [of _ "[hd s]"]) (auto simp: ds_def)
  next
    case False
    then show ?thesis by (intro exI [of _ "[]"]) (simp only: ds_def if_False append_Nil insertI1 simp_thms)
  qed
  then obtain sign where s: "s = sign @ ds" "sign \<in> {[], ''+'', ''-''}" by blast
  have ne: "ds \<noteq> []" and "digits_val 0 ds \<noteq> None"
    using a unfolding Atoi_def Let_def ds_def [symmetric] by (simp_all split: if_splits option.splits)
  then obtain ns where ns: "ds = map digit_char ns" "\<forall>n\<in>set ns. n < 10"
    using digits_val_Some by blast
  have "ns \<noteq> []" using ne ns(1) by simp
  from Atoi_unsigned [OF this ns(2) s(2)] a
  have "v = (if sign = ''-'' then -1 else 1) * int (\<Sum>i<length ns. rev ns ! i * 10 ^ i) \<and> - (2 ^ 63) \<le> v \<and> v < 2 ^ 63"
    unfolding s(1) ns(1) Let_def by (metis option.distinct(1) option.inject)
  with s ns \<open>ns \<noteq> []\<close> show "spells_int s v" unfolding spells_int_def by blast
next
  assume "spells_int s v"
  then obtain sign ns where s: "s = sign @ map digit_char ns" "sign \<in> {[], ''+'', ''-''}" "ns \<noteq> []" "\<forall>n\<in>set ns. n < 10"
    and v: "v = (if sign = ''-'' then -1 else 1) * int (\<Sum>i<length ns. rev ns ! i * 10 ^ i)" "- (2 ^ 63) \<le> v" "v < 2 ^ 63"
    unfolding spells_int_def by blast
  show "Atoi s = Some v"
    unfolding s(1) Atoi_unsigned [OF s(3,4,2)] Let_def v(1) [symmetric] using v(2,3) by (simp only: simp_thms if_True)
qed

lemma ParseBool_iff: "ParseBool s = Some b \<longleftrightarrow> spells_bool s b"
  by (cases b) (auto simp: ParseBool_def spells_bool_def)

lemma Getenv_unset: "Getenv env k = [] \<longleftrightarrow> unset env k" "\<not> unset env k \<Longrightarrow> Getenv env k = the (env k)"
  by (auto simp: Getenv_def unset_def split: option.splits)

lemma setting_Inr:
  "int_setting env k d = Inr v \<longleftrightarrow> number_from env k d v"
  "bool_setting env k = Inr b \<longleftrightarrow> flag_from env k b"
  by (auto simp: int_setting_def bool_setting_def number_from_def flag_from_def Getenv_unset
      simp flip: Atoi_iff ParseBool_iff split: option.splits)

lemma setting_Inl:
  "int_setting env k d = Inl e \<longleftrightarrow> e = NotAnInteger k \<and> \<not> unset env k \<and> (\<nexists>v. spells_int (the (env k)) v)"
  "bool_setting env k = Inl e \<longleftrightarrow> e = NotABoolean \<and> \<not> unset env k \<and> (\<nexists>b. spells_bool (the (env k)) b)"
  by (auto simp: int_setting_def bool_setting_def Getenv_unset simp flip: Atoi_iff ParseBool_iff split: option.splits)

section \<open>What Load accepts\<close>

text \<open>C30: what \<open>Load\<close> accepts, returns and reports. It succeeds exactly when the URL is set and has no
  slash-separated segment of 32 or more hexadecimal digits, every number that is set spells an int of
  64 bits, all numbers lie in their ranges, and the flag, if set, is a Go boolean; it then returns
  these values, with 4 workers, ports 9090 and 8080 and no load test for what is unset or empty. And
  an error always names a requirement that the environment violates, with the value that does.\<close>

theorem Load_spec:
  "(Load env = Inr c \<longleftrightarrow>
     \<not> unset env ''ETH_RPC_URL'' \<and> ETHRPCURL c = the (env ''ETH_RPC_URL'') \<and> \<not> holds_key (ETHRPCURL c) \<and>
     number_from env ''WORKER_COUNT'' 4 (WorkerCount c) \<and> 1 \<le> WorkerCount c \<and> WorkerCount c \<le> 256 \<and>
     number_from env ''METRICS_PORT'' 9090 (MetricsPort c) \<and> 1 \<le> MetricsPort c \<and> MetricsPort c \<le> 65535 \<and>
     number_from env ''MCP_PORT'' 8080 (MCPPort c) \<and> 1 \<le> MCPPort c \<and> MCPPort c \<le> 65535 \<and>
     flag_from env ''LOAD_TEST_ENABLED'' (LoadTestEnabled c)) \<and>
   (case Load env of Inr cfg \<Rightarrow> True | Inl e \<Rightarrow> justified env e)"
proof
  show "Load env = Inr c \<longleftrightarrow>
     \<not> unset env ''ETH_RPC_URL'' \<and> ETHRPCURL c = the (env ''ETH_RPC_URL'') \<and> \<not> holds_key (ETHRPCURL c) \<and>
     number_from env ''WORKER_COUNT'' 4 (WorkerCount c) \<and> 1 \<le> WorkerCount c \<and> WorkerCount c \<le> 256 \<and>
     number_from env ''METRICS_PORT'' 9090 (MetricsPort c) \<and> 1 \<le> MetricsPort c \<and> MetricsPort c \<le> 65535 \<and>
     number_from env ''MCP_PORT'' 8080 (MCPPort c) \<and> 1 \<le> MCPPort c \<and> MCPPort c \<le> 65535 \<and>
     flag_from env ''LOAD_TEST_ENABLED'' (LoadTestEnabled c)"
    unfolding setting_Inr [symmetric] holds_key_iff [symmetric] Getenv_unset(1) [symmetric]
    by (auto simp: Load_def Let_def config_Validate_def Getenv_def split: sum.splits option.splits if_splits)
  show "case Load env of Inr cfg \<Rightarrow> True | Inl e \<Rightarrow> justified env e"
    by (auto simp: Load_def Let_def config_Validate_def Getenv_unset setting_Inr setting_Inl holds_key_iff
        split: sum.splits option.splits if_splits)
qed

end
