(* ===== verification/Shutdown.thy ===== *)
theory Shutdown
  imports Prelude
begin

text \<open>
  The shutdown manager (\<^verbatim>\<open>internal/shutdown/shutdown.go\<close>) and the order in which
  \<^verbatim>\<open>cmd/server/main.go\<close> registers the components. A shutdown function acts on the program state
  \<open>'s\<close> and may fail; its context is represented by the deadline all functions share. The signal
  channel has room for one signal; a signal that finds it full is dropped, as \<open>signal.Notify\<close> documents.
\<close>

type_synonym ('s, 'e) shutdown_fn = "int \<Rightarrow> 's \<Rightarrow> 's \<times> 'e option"

datatype os_signal = SIGTERM | SIGINT

record ('s, 'e) manager =
  shutdownFns :: "('s, 'e) shutdown_fn list"
  sig_closed :: bool
  sig_notified :: bool
  sig_pending :: "os_signal option"

definition NewManager :: "('s, 'e) manager" where
  "NewManager = \<lparr>shutdownFns = [], sig_closed = False, sig_notified = False, sig_pending = None\<rparr>"

definition RegisterShutdownFunc :: "('s, 'e) shutdown_fn \<Rightarrow> ('s, 'e) manager \<Rightarrow> ('s, 'e) manager" where
  "RegisterShutdownFunc fn m = m\<lparr>shutdownFns := shutdownFns m @ [fn]\<rparr>"

text \<open>The loop runs down from the last index; the argument is one above \<open>i\<close>.\<close>

fun shutdown_loop :: "('s, 'e) shutdown_fn list \<Rightarrow> int \<Rightarrow> nat \<Rightarrow> 's \<Rightarrow> 's \<times> 'e option" where
  "shutdown_loop fns deadline 0 s = (s, None)"
| "shutdown_loop fns deadline (Suc i) s =
     (case (fns ! i) deadline s of
        (s', Some e) \<Rightarrow> (s', Some e)
      | (s', None) \<Rightarrow> shutdown_loop fns deadline i s')"

definition Shutdown :: "int \<Rightarrow> int \<Rightarrow> ('s, 'e) manager \<Rightarrow> 's \<Rightarrow> 's \<times> 'e option" where
  "Shutdown now timeout m s =
     shutdown_loop (shutdownFns m) (now + timeout) (length (shutdownFns m)) s"

text \<open>Closing the signal channel a second time panics (\<open>None\<close>).\<close>

definition manager_Stop :: "('s, 'e) manager \<Rightarrow> ('s, 'e) manager option" where
  "manager_Stop m = (if sig_closed m then None else Some (m\<lparr>sig_closed := True, sig_notified := False\<rparr>))"

text \<open>A signal arrives: without a channel registered for it, it ends the process (\<open>None\<close>).\<close>

definition deliver :: "os_signal \<Rightarrow> ('s, 'e) manager \<Rightarrow> ('s, 'e) manager option" where
  "deliver sg m =
     (if \<not> sig_notified m then None
      else Some (if sig_pending m = None then m\<lparr>sig_pending := Some sg\<rparr> else m))"

text \<open>\<open>WaitForShutdown\<close>, with the signals that arrive while it waits. A closed channel yields a nil
  signal, on which calling \<open>String\<close> panics.\<close>

datatype ('s, 'e) waiting = Got os_signal "('s, 'e) manager" | StillWaiting "('s, 'e) manager" | NilSignal

definition receive :: "os_signal list \<Rightarrow> ('s, 'e) manager \<Rightarrow> ('s, 'e) waiting" where
  "receive sgs m =
     (case sig_pending m of
        Some sg \<Rightarrow> Got sg (m\<lparr>sig_pending := None\<rparr>)
      | None \<Rightarrow>
          if sig_closed m then NilSignal
          else (case sgs of [] \<Rightarrow> StillWaiting m | sg # rest \<Rightarrow> Got sg m))"

definition WaitForShutdown :: "os_signal list \<Rightarrow> ('s, 'e) manager \<Rightarrow> ('s, 'e) waiting" where
  "WaitForShutdown sgs m = receive sgs (m\<lparr>sig_notified := True\<rparr>)"

text \<open>Waiting ends with the first signal; the signals after it do not end the process, and leave the
  registered functions alone.\<close>

lemma signals_swallowed:
  assumes "WaitForShutdown (sg # sgs) m = Got sg' m'"
  shows "shutdownFns m' = shutdownFns m \<and>
    (\<exists>m''. deliver sg2 m' = Some m'' \<and> shutdownFns m'' = shutdownFns m \<and>
       (\<exists>m3. deliver sg3 m'' = Some m3 \<and> sig_pending m3 = sig_pending m''))"
  using assms by (auto simp: WaitForShutdown_def receive_def deliver_def split: option.splits if_splits)

lemma registering_keeps_signals:
  "sig_pending (fold RegisterShutdownFunc fs m) = sig_pending m"
  "sig_closed (fold RegisterShutdownFunc fs m) = sig_closed m"
  by (induction fs arbitrary: m) (simp_all add: RegisterShutdownFunc_def)

lemma new_signals: "sig_pending NewManager = None" "\<not> sig_closed NewManager"
  by (simp_all add: NewManager_def)

lemma first_signal:
  "WaitForShutdown sgs (fold RegisterShutdownFunc fs NewManager) =
     (let m = (fold RegisterShutdownFunc fs NewManager)\<lparr>sig_notified := True\<rparr>
      in case sgs of [] \<Rightarrow> StillWaiting m | sg # rest \<Rightarrow> Got sg m)"
  by (simp add: WaitForShutdown_def receive_def registering_keeps_signals new_signals Let_def)

section \<open>Order\<close>

text \<open>Calling functions one after the other until one fails.\<close>

fun run_fns :: "int \<Rightarrow> ('s, 'e) shutdown_fn list \<Rightarrow> 's \<Rightarrow> 's \<times> 'e option" where
  "run_fns d [] s = (s, None)"
| "run_fns d (f # fs) s = (case f d s of (s', Some e) \<Rightarrow> (s', Some e) | (s', None) \<Rightarrow> run_fns d fs s')"

lemma shutdown_loop_run: "n \<le> length fns \<Longrightarrow> shutdown_loop fns d n s = run_fns d (rev (take n fns)) s"
  by (induction n arbitrary: s) (auto simp: take_Suc_conv_app_nth split: prod.split option.split)

lemma run_fns_append:
  "run_fns d (fs @ gs) s = (case run_fns d fs s of (s', Some e) \<Rightarrow> (s', Some e) | (s', None) \<Rightarrow> run_fns d gs s')"
  by (induction fs arbitrary: s) (auto split: prod.split option.split)

lemma registered: "shutdownFns (fold RegisterShutdownFunc fs m) = shutdownFns m @ fs"
  by (induction fs arbitrary: m) (simp_all add: RegisterShutdownFunc_def)

text \<open>Shutdown is last in, first out, and stops at the first failure. All functions get the
  same deadline. If the functions registered after \<open>f\<close> succeed and \<open>f\<close> fails, \<open>Shutdown\<close> returns its
  error with the state it left, and the functions registered before \<open>f\<close> are never called; if none
  fails, all have run in reverse order of registration.\<close>

theorem Shutdown_lifo:
  "Shutdown now timeout (fold RegisterShutdownFunc (before @ f # after) NewManager) s =
     (case run_fns (now + timeout) (rev after) s of
        (s1, Some e) \<Rightarrow> (s1, Some e)
      | (s1, None) \<Rightarrow>
          (case f (now + timeout) s1 of
             (s2, Some e) \<Rightarrow> (s2, Some e)
           | (s2, None) \<Rightarrow> run_fns (now + timeout) (rev before) s2))"
proof -
  have fns: "shutdownFns (fold RegisterShutdownFunc (before @ f # after) NewManager) = before @ f # after"
    by (simp only: registered) (simp add: NewManager_def)
  have "Shutdown now timeout (fold RegisterShutdownFunc (before @ f # after) NewManager) s =
      run_fns (now + timeout) (rev after @ f # rev before) s"
    unfolding Shutdown_def fns by (subst shutdown_loop_run) simp_all
  also have "\<dots> = (case run_fns (now + timeout) (rev after) s of (s1, Some e) \<Rightarrow> (s1, Some e)
      | (s1, None) \<Rightarrow> run_fns (now + timeout) (f # rev before) s1)" by (rule run_fns_append)
  finally show ?thesis unfolding run_fns.simps .
qed

end
