(* ===== verification/Streamer.thy ===== *)
theory Streamer
  imports Json Ffi_Types "HOL-Library.Sublist"
begin

text \<open>
  The block streamer (\<^verbatim>\<open>internal/streamer/streamer.go\<close>): decoding of headers and transactions, the
  message loop, and the connection loops. The websocket library is not part of the repository, so
  its results are arguments: the frames a connection delivers, already decoded by
  \<open>encoding/json\<close> into the fields the code reads, and the outcomes of the dial attempts.
\<close>

section \<open>Hexadecimal text\<close>

definition hex_digit :: "char \<Rightarrow> nat option" where
  "hex_digit c =
     (let n = of_char c in
      if 48 \<le> n \<and> n \<le> 57 then Some (n - 48)
      else if 97 \<le> n \<and> n \<le> 102 then Some (n - 87)
      else if 65 \<le> n \<and> n \<le> 70 then Some (n - 55)
      else None)"

text \<open>\<open>hex.DecodeString\<close> of a string of even length.\<close>

fun hex_decode :: "string \<Rightarrow> byte list option" where
  "hex_decode [] = Some []"
| "hex_decode [c] = None"
| "hex_decode (c # d # cs) =
     (case (hex_digit c, hex_digit d, hex_decode cs) of
        (Some x, Some y, Some bs) \<Rightarrow> Some (of_nat (16 * x + y) # bs)
      | _ \<Rightarrow> None)"

text \<open>\<open>nil\<close> and the empty slice have the same length, which is all the callers look at.\<close>

definition hexToBytes :: "string \<Rightarrow> byte list" where
  "hexToBytes s =
     (let s' = (if length s mod 2 \<noteq> 0 then CHR ''0'' # s else s)
      in (case hex_decode s' of None \<Rightarrow> [] | Some b \<Rightarrow> b))"

text \<open>
  \<open>z.SetString(s, 16)\<close> on a fresh \<open>big.Int\<close>. The callers ignore whether it failed: a value that is not
  a number leaves what had been scanned, the value of the longest prefix of hexadecimal digits
  behind an optional sign, and the sign only counts when there was a digit.
\<close>

fun hex_prefix :: "nat \<Rightarrow> string \<Rightarrow> nat" where
  "hex_prefix n [] = n"
| "hex_prefix n (c # cs) = (case hex_digit c of None \<Rightarrow> n | Some d \<Rightarrow> hex_prefix (16 * n + d) cs)"

definition big_SetString16 :: "string \<Rightarrow> int" where
  "big_SetString16 s =
     (case s of [] \<Rightarrow> 0
      | c # cs \<Rightarrow> if c = CHR ''-'' then - int (hex_prefix 0 cs)
                  else if c = CHR ''+'' then int (hex_prefix 0 cs)
                  else int (hex_prefix 0 s))"

text \<open>\<open>Uint64\<close> takes the low 64 bits of the absolute value.\<close>

definition big_Uint64 :: "int \<Rightarrow> u64" where
  "big_Uint64 z = of_nat (nat \<bar>z\<bar>)"

section \<open>Headers\<close>

text \<open>The string fields of \<open>params.result\<close>; a missing field is the empty string.\<close>

record header_text =
  ht_number :: string
  ht_parentHash :: string
  ht_timestamp :: string

definition zero_hash :: hash where
  "zero_hash = replicate 32 0"

definition quantity :: "string \<Rightarrow> u64" where
  "quantity s = big_Uint64 (if length s > 2 then big_SetString16 (drop 2 s) else 0)"

definition fixed_bytes :: "nat \<Rightarrow> string \<Rightarrow> byte list" where
  "fixed_bytes n s =
     (if length s \<ge> 2 then
        (let bs = hexToBytes (drop 2 s) in if length bs = n then bs else replicate n 0)
      else replicate n 0)"

text \<open>\<open>None\<close> is an unmarshalling error.\<close>

definition parseBlockHeader :: "header_text option \<Rightarrow> (u64 \<times> hash \<times> u64) option" where
  "parseBlockHeader msg =
     (case msg of None \<Rightarrow> None
      | Some h \<Rightarrow>
          if ht_number h = [] then Some (0, zero_hash, 0)
          else Some (quantity (ht_number h), fixed_bytes 32 (ht_parentHash h), quantity (ht_timestamp h)))"

definition parseBlockMessage :: "header_text option \<Rightarrow> block option option" where
  "parseBlockMessage msg =
     (case parseBlockHeader msg of None \<Rightarrow> None
      | Some (n, ph, ts) \<Rightarrow>
          if n = 0 then Some None
          else Some (Some \<lparr>Number = n, ParentHash = ph, Timestamp = ts, Transactions = []\<rparr>))"

section \<open>Transactions\<close>

definition parse_tx :: "(string \<times> json) list \<Rightarrow> transaction" where
  "parse_tx m =
     \<lparr>From = (case as_string (member m ''from'') of Some s \<Rightarrow> fixed_bytes 20 s | None \<Rightarrow> replicate 20 0),
      To = (case as_string (member m ''to'') of Some s \<Rightarrow> fixed_bytes 20 s | None \<Rightarrow> replicate 20 0),
      Value = (case as_string (member m ''value'') of
                 Some s \<Rightarrow> if length s \<ge> 2 then NewU256FromBigInt (big_SetString16 (drop 2 s))
                           else NewU256FromUint64 0
               | None \<Rightarrow> NewU256FromUint64 0),
      Data = (case as_string (member m ''input'') of
                Some s \<Rightarrow> if length s > 2 then hexToBytes (drop 2 s) else []
              | None \<Rightarrow> [])\<rparr>"

definition parseTransactions :: "json list \<Rightarrow> transaction list" where
  "parseTransactions raw =
     concat (map (\<lambda>v. case as_object v of Some m \<Rightarrow> [parse_tx m] | None \<Rightarrow> []) raw)"

section \<open>The message loop\<close>

text \<open>
  A frame as the two \<open>json.Unmarshal\<close> calls see it: the header fields, and the fields of a response,
  each \<open>None\<close> when the frame does not fit the struct.
\<close>

record response_text =
  rs_id :: json
  rs_result :: "json list option"
  rs_error :: bool

record frame =
  fr_header :: "header_text option"
  fr_response :: "response_text option"

datatype fetch_error = ReadFailed | RPCError | NullResult

text \<open>The read loop of \<open>fetchFullBlock\<close>, after the request was written. An empty list of frames is
  the read error or the deadline. What is read on the way is gone; the rest is returned.\<close>

fun fetch_loop :: "frame list \<Rightarrow> (fetch_error + transaction list) \<times> frame list" where
  "fetch_loop [] = (Inl ReadFailed, [])"
| "fetch_loop (f # fs) =
     (case fr_response f of
        None \<Rightarrow> fetch_loop fs
      | Some r \<Rightarrow>
          if as_number (Some (rs_id r)) \<noteq> Some 2 then fetch_loop fs
          else if rs_error r then (Inl RPCError, fs)
          else (case rs_result r of
              None \<Rightarrow> (Inl NullResult, fs)
            | Some raw \<Rightarrow> (Inr (parseTransactions raw), fs)))"

definition fetchFullBlock ::
  "u64 \<Rightarrow> hash \<Rightarrow> u64 \<Rightarrow> frame list \<Rightarrow> (fetch_error + block) \<times> frame list" where
  "fetchFullBlock n ph ts fs =
     (case fetch_loop fs of
        (Inl e, rest) \<Rightarrow> (Inl e, rest)
      | (Inr txs, rest) \<Rightarrow>
          (Inr \<lparr>Number = n, ParentHash = ph, Timestamp = ts, Transactions = txs\<rparr>, rest))"

definition streamer_validateBlock :: "block \<Rightarrow> bool" where
  "streamer_validateBlock b =
     (if Number b = 0 then False else if length (ParentHash b) \<noteq> 32 then False else True)"

lemma fetch_loop_shorter: "length (snd (fetch_loop fs)) \<le> length fs"
  by (induction fs) (auto split: option.splits)

lemma fetchFullBlock_shorter: "fetchFullBlock n ph ts fs = (r, rest) \<Longrightarrow> length rest \<le> length fs"
  using fetch_loop_shorter [of fs] by (auto simp: fetchFullBlock_def split: prod.splits sum.splits)

text \<open>The loop of \<open>streamBlocks\<close> over the frames of one connection, without cancellation: the
  blocks it forwards, in order.\<close>

function stream_loop :: "frame list \<Rightarrow> block list" where
  "stream_loop [] = []"
| "stream_loop (f # fs) =
     (case parseBlockHeader (fr_header f) of
        None \<Rightarrow> stream_loop fs
      | Some (n, ph, ts) \<Rightarrow>
          if n = 0 then stream_loop fs
          else (let (r, rest) = fetchFullBlock n ph ts fs;
                    b = (case r of Inr b \<Rightarrow> b
                         | Inl e \<Rightarrow> \<lparr>Number = n, ParentHash = ph, Timestamp = ts, Transactions = []\<rparr>)
                in if streamer_validateBlock b then b # stream_loop rest else stream_loop rest))"
  by pat_completeness auto
termination
  by (relation "measure length") (auto simp: less_Suc_eq_le dest!: fetchFullBlock_shorter [OF sym])

section \<open>Connecting\<close>

definition second :: int where
  "second = 1000000000"

text \<open>How a wait between two attempts ends.\<close>

datatype wait = Elapsed | WaitCtxDone | WaitStopped

datatype connect_error = ContextError | StoppedDuringRetry | MaxAttemptsExceeded

definition maxAttempts :: nat where
  "maxAttempts = 5"

text \<open>The loop of \<open>connectWithRetry\<close>: \<open>dial a\<close> tells whether attempt \<open>a\<close> succeeds, \<open>wt a\<close> how the wait
  after it ends, the first argument counts the attempts left. The waits begun are returned too.\<close>

fun connect_loop ::
  "nat \<Rightarrow> (nat \<Rightarrow> bool) \<Rightarrow> (nat \<Rightarrow> wait) \<Rightarrow> nat \<Rightarrow> int \<Rightarrow> (connect_error + unit) \<times> int list" where
  "connect_loop 0 dial wt attempt backoff = (Inl MaxAttemptsExceeded, [])"
| "connect_loop (Suc k) dial wt attempt backoff =
     (if dial attempt then (Inr (), [])
      else if attempt < maxAttempts then
        (case wt attempt of
           WaitCtxDone \<Rightarrow> (Inl ContextError, [backoff])
         | WaitStopped \<Rightarrow> (Inl StoppedDuringRetry, [backoff])
         | Elapsed \<Rightarrow> (case connect_loop k dial wt (attempt + 1) (backoff * 2) of
                         (r, ws) \<Rightarrow> (r, backoff # ws)))
      else connect_loop k dial wt (attempt + 1) backoff)"

definition connectWithRetry :: "(nat \<Rightarrow> bool) \<Rightarrow> (nat \<Rightarrow> wait) \<Rightarrow> (connect_error + unit) \<times> int list" where
  "connectWithRetry dial wt = connect_loop maxAttempts dial wt 1 second"

datatype reconnect = Reconnected | GaveUp | StillTrying

text \<open>The inner loop of \<open>streamWithReconnect\<close>: each round waits and then calls \<open>connectWithRetry\<close>,
  whose success is the second component.\<close>

fun reconnect_loop :: "(wait \<times> bool) list \<Rightarrow> int \<Rightarrow> reconnect \<times> int list" where
  "reconnect_loop [] backoff = (StillTrying, [])"
| "reconnect_loop ((w, ok) # rounds) backoff =
     (if w \<noteq> Elapsed then (GaveUp, [backoff])
      else if ok then (Reconnected, [backoff])
      else (let b = backoff * 2;
                b' = (if b > 60 * second then 60 * second else b)
            in (case reconnect_loop rounds b' of (r, ws) \<Rightarrow> (r, backoff # ws))))"

definition reconnect_from :: "(wait \<times> bool) list \<Rightarrow> reconnect \<times> int list" where
  "reconnect_from rounds = reconnect_loop rounds (2 * second)"

section \<open>Forwarded blocks\<close>

lemma length_fixed_bytes [simp]: "length (fixed_bytes n s) = n"
  by (simp add: fixed_bytes_def Let_def)

lemma wf_parse_tx: "wf_transaction (parse_tx m)"
  by (simp add: wf_transaction_def parse_tx_def wf_simps split: option.split)

lemma wf_parseTransactions: "list_all wf_transaction (parseTransactions raw)"
  by (induction raw) (simp_all add: parseTransactions_def wf_parse_tx split: option.split)

lemma fetch_loop_wf: "fetch_loop fs = (Inr txs, rest) \<Longrightarrow> list_all wf_transaction txs"
  by (induction fs rule: fetch_loop.induct)
    (auto simp: wf_parseTransactions split: option.splits if_splits)

lemma fetch_loop_suffix: "suffix (snd (fetch_loop fs)) fs"
  by (induction fs rule: fetch_loop.induct) (auto split: option.split intro: suffix_ConsI)

definition header_of :: "block \<Rightarrow> u64 \<times> hash \<times> u64" where
  "header_of b = (Number b, ParentHash b, Timestamp b)"

definition headers_in :: "frame list \<Rightarrow> (u64 \<times> hash \<times> u64) list" where
  "headers_in fs = concat (map (\<lambda>f. case parseBlockHeader (fr_header f) of
     None \<Rightarrow> [] | Some (n, ph, ts) \<Rightarrow> if n = 0 then [] else [(n, ph, ts)]) fs)"

lemma headers_in_suffix: "suffix gs fs \<Longrightarrow> subseq (headers_in gs) (headers_in fs)"
  by (auto simp: suffix_def headers_in_def)

lemma parse_hash_32: "parseBlockHeader h = Some (n, ph, ts) \<Longrightarrow> length ph = 32"
  by (auto simp: parseBlockHeader_def zero_hash_def split: option.splits if_splits)

lemma stream_loop_blocks:
  "list_all (\<lambda>b. wf_block b \<and> Number b \<noteq> 0) (stream_loop fs) \<and>
   subseq (map header_of (stream_loop fs)) (headers_in fs)"
proof (induction fs rule: stream_loop.induct)
  case 1
  then show ?case by (simp add: headers_in_def)
next
  case (2 f fs)
  show ?case
  proof (cases "parseBlockHeader (fr_header f)")
    case None
    with 2(1) show ?thesis by (simp add: headers_in_def)
  next
    case (Some h)
    obtain n ph ts where h: "h = (n, ph, ts)" by (cases h) auto
    show ?thesis
    proof (cases "n = 0")
      case True
      with 2(2) Some h show ?thesis by (simp add: headers_in_def)
    next
      case False
      obtain r rest where f: "fetchFullBlock n ph ts fs = (r, rest)" by fastforce
      let ?b = "case r of Inr b \<Rightarrow> b | Inl e \<Rightarrow> \<lparr>Number = n, ParentHash = ph, Timestamp = ts, Transactions = []\<rparr>"
      have b: "wf_block ?b" "header_of ?b = (n, ph, ts)"
        using f fetch_loop_wf [of fs] parse_hash_32 [OF Some [unfolded h]]
        by (auto simp: fetchFullBlock_def wf_block_def header_of_def split: prod.splits sum.splits)
      then have v: "streamer_validateBlock ?b" "Number ?b = n"
        using False by (auto simp: streamer_validateBlock_def header_of_def wf_block_def)
      have step: "stream_loop (f # fs) = ?b # stream_loop rest"
        using Some h False f v by simp
      have hd: "headers_in (f # fs) = (n, ph, ts) # headers_in fs"
        using Some h False by (simp add: headers_in_def)
      have "suffix rest fs"
        using f fetch_loop_suffix [of fs] by (auto simp: fetchFullBlock_def split: prod.splits sum.splits)
      then have sub: "subseq (headers_in rest) (headers_in fs)" by (rule headers_in_suffix)
      have IH: "list_all (\<lambda>b. wf_block b \<and> Number b \<noteq> 0) (stream_loop rest) \<and>
          subseq (map header_of (stream_loop rest)) (headers_in rest)"
        by (rule 2(3) [OF Some h [symmetric] refl False f [symmetric] refl refl v(1)])
      from IH sub b v False show ?thesis
        unfolding step hd by (auto intro: subseq_order.trans)
    qed
  qed
qed

text \<open>C31: what the streamer forwards. Whatever frames a connection delivers, every block it forwards
  has a non-zero number and the array sizes that the bridge relies on, and the headers of the
  forwarded blocks are, in order, among the header notifications received: nothing is made up,
  reordered or forwarded twice.\<close>

theorem streamed_blocks:
  "list_all (\<lambda>b. wf_block b \<and> Number b \<noteq> 0) (stream_loop fs) \<and>
   subseq (map header_of (stream_loop fs)) (headers_in fs)"
  by (rule stream_loop_blocks)

definition answers_fetch :: "frame \<Rightarrow> bool" where
  "answers_fetch f = (case fr_response f of None \<Rightarrow> False | Some r \<Rightarrow> as_number (Some (rs_id r)) = Some 2)"

lemma fetch_loop_skip: "list_all (\<lambda>f. \<not> answers_fetch f) gs \<Longrightarrow> fetch_loop (gs @ fs) = fetch_loop fs"
  by (induction gs) (auto simp: answers_fetch_def split: option.splits)

text \<open>C32: headers that arrive while a block is being fetched are lost. After a header notification
  the streamer reads on until the answer to its own request; every frame in between, header
  notifications included, is discarded, so the blocks they announce are never forwarded.\<close>

theorem headers_during_fetch_lost:
  assumes "parseBlockHeader (fr_header f) = Some (n, ph, ts)" and "n \<noteq> 0"
    and "list_all (\<lambda>g. \<not> answers_fetch g) between"
    and "answers_fetch reply" and "fr_response reply = Some r" and "\<not> rs_error r" and "rs_result r = Some raw"
  shows "stream_loop (f # between @ reply # fs) =
    \<lparr>Number = n, ParentHash = ph, Timestamp = ts, Transactions = parseTransactions raw\<rparr> # stream_loop fs"
proof -
  have "fetchFullBlock n ph ts (between @ reply # fs) =
      (Inr \<lparr>Number = n, ParentHash = ph, Timestamp = ts, Transactions = parseTransactions raw\<rparr>, fs)"
    using assms(4-7) by (simp add: fetchFullBlock_def fetch_loop_skip [OF assms(3)] answers_fetch_def)
  with assms(1,2) parse_hash_32 [OF assms(1)] show ?thesis
    by (simp add: streamer_validateBlock_def)
qed

definition head_frame :: "string \<Rightarrow> frame" where
  "head_frame n = \<lparr>fr_header = Some \<lparr>ht_number = n, ht_parentHash = ''0x'', ht_timestamp = ''0x1''\<rparr>,
     fr_response = Some \<lparr>rs_id = JNull, rs_result = None, rs_error = False\<rparr>\<rparr>"

definition reply_frame :: frame where
  "reply_frame = \<lparr>fr_header = Some \<lparr>ht_number = [], ht_parentHash = [], ht_timestamp = []\<rparr>,
     fr_response = Some \<lparr>rs_id = JNum 2, rs_result = Some [], rs_error = False\<rparr>\<rparr>"

theorem headers_during_fetch_lost_witness:
  "map Number (stream_loop [head_frame ''0x10'', head_frame ''0x11'', reply_frame]) = [16]"
proof -
  have p: "parseBlockHeader (fr_header (head_frame ''0x10'')) = Some (16, replicate 32 0, 1)"
    by (simp add: parseBlockHeader_def head_frame_def quantity_def big_Uint64_def big_SetString16_def
        hex_digit_def fixed_bytes_def hexToBytes_def)
  show ?thesis
    using headers_during_fetch_lost [OF p, of "[head_frame ''0x11'']" reply_frame _ "[]" "[]"]
    by (simp add: answers_fetch_def reply_frame_def head_frame_def)
qed

section \<open>Round trips\<close>

text \<open>Hexadecimal printing, as the RPC server and \<open>fmt.Sprintf("0x%x")\<close> do it.\<close>

definition hex_char_of :: "nat \<Rightarrow> char" where
  "hex_char_of d = (if d < 10 then char_of (48 + d) else char_of (87 + d))"

fun hex_nat :: "nat \<Rightarrow> string" where
  "hex_nat n = (if n < 16 then [hex_char_of n] else hex_nat (n div 16) @ [hex_char_of (n mod 16)])"

declare hex_nat.simps [simp del]

definition hex_bytes :: "byte list \<Rightarrow> string" where
  "hex_bytes bs = concat (map (\<lambda>b. [hex_char_of (unat b div 16), hex_char_of (unat b mod 16)]) bs)"

lemma hex_digit_char_of: "d < 16 \<Longrightarrow> hex_digit (hex_char_of d) = Some d"
  by (auto simp: hex_digit_def hex_char_of_def Let_def)

lemma hex_prefix_append:
  "list_all (\<lambda>c. hex_digit c \<noteq> None) s \<Longrightarrow> hex_prefix a (s @ t) = hex_prefix (hex_prefix a s) t"
  by (induction s arbitrary: a) (auto split: option.split)

lemma hex_nat_digits: "list_all (\<lambda>c. hex_digit c \<noteq> None) (hex_nat n)"
  by (induction n rule: hex_nat.induct) (subst hex_nat.simps, simp add: hex_digit_char_of)

lemma hex_prefix_hex_nat: "hex_prefix 0 (hex_nat n) = n"
proof (induction n rule: hex_nat.induct)
  case (1 n)
  show ?case
  proof (cases "n < 16")
    case True
    then show ?thesis by (subst hex_nat.simps) (simp add: hex_digit_char_of)
  next
    case False
    with 1 show ?thesis
      by (subst hex_nat.simps) (simp add: hex_prefix_append [OF hex_nat_digits] hex_digit_char_of)
  qed
qed

lemma hex_nat_hd: "hex_nat n \<noteq> [] \<and> hex_digit (hd (hex_nat n)) \<noteq> None"
proof -
  have "hex_nat n \<noteq> []" by (subst hex_nat.simps) simp
  with hex_nat_digits [of n] show ?thesis by (cases "hex_nat n") auto
qed

lemma big_SetString16_hex: "big_SetString16 (hex_nat n) = int n"
proof -
  obtain c cs where h: "hex_nat n = c # cs" "hex_digit c \<noteq> None"
    using hex_nat_hd [of n] by (cases "hex_nat n") auto
  then have "c \<noteq> CHR ''-''" "c \<noteq> CHR ''+''" by (auto simp: hex_digit_def Let_def)
  with h hex_prefix_hex_nat [of n] show ?thesis by (simp add: big_SetString16_def)
qed

lemma hex_decode_hex_bytes: "hex_decode (hex_bytes bs) = Some bs"
proof (induction bs)
  case Nil
  then show ?case by (simp add: hex_bytes_def)
next
  case (Cons b bs)
  have "unat b < 256" by (rule unat_byte_less)
  then have "unat b div 16 < 16" "unat b mod 16 < 16" by simp_all
  with Cons show ?case
    by (simp add: hex_bytes_def hex_digit_char_of)
qed

lemma length_hex_bytes [simp]: "length (hex_bytes bs) = 2 * length bs"
  by (induction bs) (simp_all add: hex_bytes_def)

lemma hexToBytes_hex_bytes: "hexToBytes (hex_bytes bs) = bs"
  by (simp add: hexToBytes_def hex_decode_hex_bytes)

definition header_text_of :: "u64 \<Rightarrow> hash \<Rightarrow> u64 \<Rightarrow> header_text" where
  "header_text_of n ph ts = \<lparr>ht_number = ''0x'' @ hex_nat (unat n), ht_parentHash = ''0x'' @ hex_bytes ph,
     ht_timestamp = ''0x'' @ hex_nat (unat ts)\<rparr>"

lemma quantity_hex: "quantity (''0x'' @ hex_nat n) = of_nat n"
proof -
  have "length (hex_nat n) > 0" using hex_nat_hd [of n] by simp
  then show ?thesis by (simp add: quantity_def big_SetString16_hex big_Uint64_def)
qed

text \<open>The two requests the streamer sends. \<open>fmt.Sprintf\<close> with \<open>0x%x\<close> is \<open>hex_nat\<close>.\<close>

definition subscribe_request :: json where
  "subscribe_request = JObj [(''jsonrpc'', JStr ''2.0''), (''id'', JNum 1), (''method'', JStr ''eth_subscribe''),
     (''params'', JArr [JStr ''newHeads''])]"

definition block_request :: "u64 \<Rightarrow> json" where
  "block_request n = JObj [(''jsonrpc'', JStr ''2.0''), (''id'', JNum 2), (''method'', JStr ''eth_getBlockByNumber''),
     (''params'', JArr [JStr (''0x'' @ hex_nat (unat n)), JBool True])]"

text \<open>The answer to a request repeats its identifier.\<close>

definition answer_to :: "json \<Rightarrow> json list option \<Rightarrow> bool \<Rightarrow> frame" where
  "answer_to req result err = \<lparr>fr_header = None, fr_response =
     (case as_object req of None \<Rightarrow> None
      | Some m \<Rightarrow> (case member m ''id'' of None \<Rightarrow> None
         | Some i \<Rightarrow> Some \<lparr>rs_id = i, rs_result = result, rs_error = err\<rparr>))\<rparr>"

text \<open>C33: the exchange for one block. Header decoding is the inverse of the standard encoding: number,
  parent hash and time stamp written as \<open>0x\<close> quantities and data come back exactly. A parent hash of
  any other size is not an error: the header decodes with the all-zero hash. The request then sent
  for the block carries a quantity that decodes to the announced number, the answer to it completes the
  fetch with its transactions, and the answer to the subscription is passed over.\<close>

theorem parseBlockHeader_roundtrip:
  "parseBlockHeader (Some (header_text_of n ph ts)) =
     Some (n, if length ph = 32 then ph else replicate 32 0, ts) \<and>
   (\<exists>m q. as_object (block_request n) = Some m \<and> member m ''params'' = Some (JArr [JStr q, JBool True]) \<and>
      quantity q = n) \<and>
   fetchFullBlock n ph ts (answer_to (block_request n) (Some raw) False # fs) =
     (Inr \<lparr>Number = n, ParentHash = ph, Timestamp = ts, Transactions = parseTransactions raw\<rparr>, fs) \<and>
   fetchFullBlock n ph ts (answer_to subscribe_request r e # fs) = fetchFullBlock n ph ts fs"
proof (intro conjI)
  show "parseBlockHeader (Some (header_text_of n ph ts)) =
     Some (n, if length ph = 32 then ph else replicate 32 0, ts)"
    by (simp add: parseBlockHeader_def header_text_of_def quantity_hex [unfolded append.simps] fixed_bytes_def
        hexToBytes_hex_bytes)
  show "\<exists>m q. as_object (block_request n) = Some m \<and> member m ''params'' = Some (JArr [JStr q, JBool True]) \<and>
      quantity q = n"
    by (simp add: block_request_def member_def quantity_hex [unfolded append.simps])
qed (simp_all add: fetchFullBlock_def answer_to_def block_request_def subscribe_request_def member_def)

section \<open>Retry schedules\<close>

lemma le_mult_pow2: "0 \<le> x \<Longrightarrow> x \<le> x * 2 ^ j" for x :: int
  using mult_left_mono [of 1 "2 ^ j" x] by simp

lemma reconnect_waits:
  "b \<le> 60 * second \<Longrightarrow> i < length (snd (reconnect_loop rounds b)) \<Longrightarrow>
     snd (reconnect_loop rounds b) ! i = min (60 * second) (b * 2 ^ i)"
proof (induction rounds b arbitrary: i rule: reconnect_loop.induct)
  case (1 b)
  then show ?case by simp
next
  case (2 w ok rounds b)
  show ?case
  proof (cases "w = Elapsed \<and> \<not> ok")
    case False
    with 2(2,3) show ?thesis by (auto split: if_splits)
  next
    case True
    let ?b' = "if b * 2 > 60 * second then 60 * second else b * 2"
    obtain r ws where r: "reconnect_loop rounds ?b' = (r, ws)" by fastforce
    then have st: "reconnect_loop ((w, ok) # rounds) b = (r, b # ws)" using True by (simp add: Let_def)
    show ?thesis
    proof (cases i)
      case 0
      with st 2(2) show ?thesis by simp
    next
      case (Suc j)
      have "ws ! j = min (60 * second) (?b' * 2 ^ j)"
        using 2(1) [of "b * 2" ?b' j] True 2(3) st r Suc by simp
      also have "\<dots> = min (60 * second) (b * 2 ^ Suc j)"
      proof (cases "b * 2 > 60 * second")
        case True
        have "60 * second \<le> 60 * second * 2 ^ j" by (rule le_mult_pow2) (simp add: second_def)
        moreover have "b * 2 \<le> b * 2 * 2 ^ j" by (rule le_mult_pow2) (use True in \<open>simp add: second_def\<close>)
        ultimately show ?thesis using True by (simp add: min_def mult.assoc)
      qed simp
      finally show ?thesis using st Suc by simp
    qed
  qed
qed

text \<open>The retry schedules. A connection attempt is made at most five times, with waits of 1, 2, 4
  and 8 seconds in between; if no wait is interrupted it succeeds exactly when one of the five dials
  does. Reconnecting waits 2, 4, 8, ... seconds before its rounds, never more than 60, until a
  round succeeds or a wait is interrupted.\<close>

theorem retry_schedules:
  "(case connectWithRetry dial (\<lambda>a. Elapsed) of (r, ws) \<Rightarrow>
      ws = take (length ws) [second, 2 * second, 4 * second, 8 * second] \<and>
      (r = Inr () \<longleftrightarrow> dial 1 \<or> dial 2 \<or> dial 3 \<or> dial 4 \<or> dial 5) \<and>
      (r \<noteq> Inr () \<longrightarrow> r = Inl MaxAttemptsExceeded \<and> length ws = 4)) \<and>
   (i < length (snd (reconnect_from rounds)) \<longrightarrow>
      snd (reconnect_from rounds) ! i = min (60 * second) (2 * second * 2 ^ i)) \<and>
   (fst (reconnect_from rounds) = Reconnected \<longleftrightarrow>
      (\<exists>k < length rounds. rounds ! k = (Elapsed, True) \<and> (\<forall>j < k. rounds ! j = (Elapsed, False))))"
proof (intro conjI)
  show "case connectWithRetry dial (\<lambda>a. Elapsed) of (r, ws) \<Rightarrow>
      ws = take (length ws) [second, 2 * second, 4 * second, 8 * second] \<and>
      (r = Inr () \<longleftrightarrow> dial 1 \<or> dial 2 \<or> dial 3 \<or> dial 4 \<or> dial 5) \<and>
      (r \<noteq> Inr () \<longrightarrow> r = Inl MaxAttemptsExceeded \<and> length ws = 4)"
    by (simp add: connectWithRetry_def maxAttempts_def eval_nat_numeral)
  show "i < length (snd (reconnect_from rounds)) \<longrightarrow>
      snd (reconnect_from rounds) ! i = min (60 * second) (2 * second * 2 ^ i)"
    using reconnect_waits [of "2 * second" i rounds] by (simp add: reconnect_from_def second_def)
  have "fst (reconnect_loop rounds b) = Reconnected \<longleftrightarrow>
      (\<exists>k < length rounds. rounds ! k = (Elapsed, True) \<and> (\<forall>j < k. rounds ! j = (Elapsed, False)))" for b
  proof (induction rounds b rule: reconnect_loop.induct)
    case (2 w ok rounds b)
    show ?case
      using 2 by (auto simp: Let_def Ex_less_Suc2 All_less_Suc2 split: prod.split)
  qed simp
  then show "fst (reconnect_from rounds) = Reconnected \<longleftrightarrow>
      (\<exists>k < length rounds. rounds ! k = (Elapsed, True) \<and> (\<forall>j < k. rounds ! j = (Elapsed, False)))"
    by (simp add: reconnect_from_def)
qed

theorem retry_schedules_witness:
  "fst (connectWithRetry (\<lambda>a. a = 3) (\<lambda>a. Elapsed)) = Inr () \<and>
   snd (reconnect_from (replicate 7 (Elapsed, False))) ! 5 = 60 * second"
proof -
  have "5 < length (snd (reconnect_from (replicate 7 (Elapsed, False))))"
    by (simp add: reconnect_from_def eval_nat_numeral Let_def)
  with retry_schedules [of "\<lambda>a. a = 3" 5 "replicate 7 (Elapsed, False)"] show ?thesis
    by (auto simp: second_def split: prod.splits)
qed

end
