(* ===== verification/Logging.thy ===== *)
theory Logging
  imports Prelude
begin

text \<open>
  The loggers (\<^verbatim>\<open>internal/logging/logger.go\<close>). The library zap is an argument: its two default
  configurations, \<open>Build\<close>, and \<open>Named\<close>. A configuration has the fields the code sets; what else it
  contains is the type parameter \<open>'x\<close>. Only the encoders the code names are told apart.
\<close>

datatype log_level = DebugLevel | InfoLevel | WarnLevel | ErrorLevel | OtherLevel int

datatype time_encoder = ISO8601TimeEncoder | OtherTimeEncoder nat
datatype level_encoder = LowercaseLevelEncoder | CapitalColorLevelEncoder | OtherLevelEncoder nat
datatype caller_encoder = ShortCallerEncoder | OtherCallerEncoder nat

record encoder_config =
  TimeKey :: string
  LevelKey :: string
  NameKey :: string
  MessageKey :: string
  StacktraceKey :: string
  CallerKey :: string
  EncodeTime :: time_encoder
  EncodeLevel :: level_encoder
  EncodeCaller :: caller_encoder

record 'x zap_config =
  zc_Level :: log_level
  EncoderConfig :: encoder_config
  zc_rest :: 'x

record ('x, 'l, 'e) zap_library =
  NewProductionConfig :: "'x zap_config"
  NewDevelopmentConfig :: "'x zap_config"
  zap_Build :: "'x zap_config \<Rightarrow> 'e + 'l"
  zap_Named :: "string \<Rightarrow> 'l \<Rightarrow> 'l"

definition NewLogger :: "('x, 'l, 'e) zap_library \<Rightarrow> 'e + 'l" where
  "NewLogger zap =
     zap_Build zap ((NewProductionConfig zap)\<lparr>zc_Level := InfoLevel,
       EncoderConfig := (EncoderConfig (NewProductionConfig zap))\<lparr>TimeKey := ''timestamp'', LevelKey := ''level'',
         NameKey := ''component'', MessageKey := ''message'', StacktraceKey := ''stacktrace'', CallerKey := ''caller'',
         EncodeTime := ISO8601TimeEncoder, EncodeLevel := LowercaseLevelEncoder,
         EncodeCaller := ShortCallerEncoder\<rparr>\<rparr>)"

definition NewComponentLogger :: "('x, 'l, 'e) zap_library \<Rightarrow> string \<Rightarrow> 'e + 'l" where
  "NewComponentLogger zap componentName =
     (case NewLogger zap of Inl e \<Rightarrow> Inl e | Inr logger \<Rightarrow> Inr (zap_Named zap componentName logger))"

definition NewDevelopmentLogger :: "('x, 'l, 'e) zap_library \<Rightarrow> 'e + 'l" where
  "NewDevelopmentLogger zap =
     zap_Build zap ((NewDevelopmentConfig zap)\<lparr>
       EncoderConfig := (EncoderConfig (NewDevelopmentConfig zap))\<lparr>TimeKey := ''timestamp'', LevelKey := ''level'',
         NameKey := ''component'', MessageKey := ''message'', StacktraceKey := ''stacktrace'', CallerKey := ''caller'',
         EncodeTime := ISO8601TimeEncoder, EncodeLevel := CapitalColorLevelEncoder,
         EncodeCaller := ShortCallerEncoder\<rparr>\<rparr>)"

text \<open>Seen from a library whose \<open>Build\<close> returns the configuration it gets: whatever the defaults of zap, both
  loggers write the six standard fields under the same keys, no two of which collide; they differ in
  how a level is printed, and only the production logger fixes the level.\<close>

definition log_keys :: "'x zap_config \<Rightarrow> string list" where
  "log_keys c = (case EncoderConfig c of ec \<Rightarrow>
     [TimeKey ec, LevelKey ec, NameKey ec, MessageKey ec, StacktraceKey ec, CallerKey ec])"

lemma logger_configs:
  fixes zap :: "('x, 'x zap_config, 'e) zap_library"
  assumes "zap_Build zap = Inr"
  obtains p d where "NewLogger zap = Inr p" and "NewDevelopmentLogger zap = Inr d"
    and "log_keys p = log_keys d" and "distinct (log_keys p)"
    and "zc_Level p = InfoLevel" and "zc_Level d = zc_Level (NewDevelopmentConfig zap)"
    and "EncodeLevel (EncoderConfig p) \<noteq> EncodeLevel (EncoderConfig d)"
  using assms that by (simp add: NewLogger_def NewDevelopmentLogger_def log_keys_def)

text \<open>A component's logger can be made exactly when the production logger can.\<close>

lemma component_logger_ok: "isl (NewComponentLogger zap name) \<longleftrightarrow> isl (NewLogger zap)"
  by (simp add: NewComponentLogger_def split: sum.split)

end
