(* ===== verification/Server.thy ===== *)
theory Server
  imports Metrics Config Shutdown Streamer Logging
begin

text \<open>
  The server process (\<^verbatim>\<open>cmd/server/main.go\<close>): how the components are created and connected, when
  starting fails, what shutting down does, and what becomes of the blocks of a live chain. The
  outcomes of the libraries (the logger, the dial attempts) are arguments, and so are the stop
  functions of the components; the two HTTP listeners are started asynchronously and never fail
  here (they are modelled in \<^verbatim>\<open>Http_Servers\<close>).
\<close>

section \<open>Start\<close>

record ('p, 'e) stop_fns =
  stop_streamer :: "('p, 'e) shutdown_fn"
  stop_pool :: "('p, 'e) shutdown_fn"
  stop_metrics :: "('p, 'e) shutdown_fn"
  stop_mcp :: "('p, 'e) shutdown_fn"

record 'w machine =
  mc_environ :: environ
  mc_logger_ok :: bool
  mc_global_engine :: "state_engine option"
  mc_dial :: "nat \<Rightarrow> bool"
  mc_wait :: "nat \<Rightarrow> wait"
  mc_platform :: platform
  mc_mem :: mem_stats
  mc_goroutines :: int
  mc_load_tester :: "'w load_tester"
  mc_rest :: 'w

text \<open>What the collector reads: the pool, the reorg engine, and whether the streamer is connected.\<close>

type_synonym component_view = "block pool \<times> ffi_state ReorgEngine \<times> bool"

record ('w, 'p, 'e) server =
  sv_config :: config
  sv_runtime :: "'w runtime"
  sv_mcp :: "('w runtime, tool_error, tool_result) mcp_server"
  sv_pool :: "block pool"
  sv_collector :: "component_view collector"
  sv_shutdown :: "('p, 'e) manager"
  sv_streaming :: bool

datatype ('w, 'p, 'e) startup =
    ExitConfig config_error
  | ExitLogger
  | FatalInit ffi_error
  | PanicMetrics
  | FatalPool int
  | FatalStreamer connect_error
  | Running "('w, 'p, 'e) server"

definition main_start :: "('p, 'e) stop_fns \<Rightarrow> 'w machine \<Rightarrow> ('w, 'p, 'e) startup" where
  "main_start st mc =
     (case Load (mc_environ mc) of Inl e \<Rightarrow> ExitConfig e | Inr cfg \<Rightarrow>
      if \<not> mc_logger_ok mc then ExitLogger
      else (case InitEngine (NewFFI (mc_global_engine mc)) of
          (ffi, Inl e) \<Rightarrow> FatalInit e
        | (ffi, Inr _) \<Rightarrow>
            (let mgr1 = RegisterShutdownFunc (stop_streamer st) NewManager;
                 reorgEngine = NewReorgEngine ffi;
                 mgr2 = RegisterShutdownFunc (stop_pool st) mgr1
             in (case NewCollector of
                   None \<Rightarrow> PanicMetrics
                 | Some c0 \<Rightarrow>
                     (let c = wired (pf_account (mc_platform mc)) (pf_snapshot (mc_platform mc))
                                fst (fst \<circ> snd) (snd \<circ> snd) c0;
                          mgr3 = RegisterShutdownFunc (stop_metrics st) mgr2;
                          srv = RegisterRuntimeTools (mc_platform mc) NewServer;
                          rt0 = NewRuntimeTools reorgEngine (mc_mem mc) (mc_goroutines mc) (mc_rest mc);
                          mgr4 = RegisterShutdownFunc (stop_mcp st) mgr3;
                          rt = (if LoadTestEnabled cfg then SetLoadTester (mc_load_tester mc) rt0 else rt0)
                      in (case Start (WorkerCount cfg) NewPool of
                            (pl, Inl n) \<Rightarrow> FatalPool n
                          | (pl, Inr _) \<Rightarrow>
                              (case connectWithRetry (mc_dial mc) (mc_wait mc) of
                                 (Inl e, ws) \<Rightarrow>
                                   if LoadTestEnabled cfg
                                   then Running \<lparr>sv_config = cfg, sv_runtime = rt, sv_mcp = srv, sv_pool = pl,
                                     sv_collector = c, sv_shutdown = mgr4, sv_streaming = False\<rparr>
                                   else FatalStreamer e
                               | (Inr _, ws) \<Rightarrow>
                                   Running \<lparr>sv_config = cfg, sv_runtime = rt, sv_mcp = srv, sv_pool = pl,
                                     sv_collector = c, sv_shutdown = mgr4, sv_streaming = True\<rparr>)))))))"

text \<open>Shutting down: the exit code.\<close>

definition main_shutdown :: "int \<Rightarrow> ('w, 'p, 'e) server \<Rightarrow> 'p \<Rightarrow> 'p \<times> int" where
  "main_shutdown now sv s =
     (case Shutdown now 30000000000 (sv_shutdown sv) s of
        (s', Some e) \<Rightarrow> (s', 1) | (s', None) \<Rightarrow> (s', 0))"

text \<open>What \<open>main\<close> asks the core for between the signal and the shutdown, to log it.\<close>

definition final_state :: "platform \<Rightarrow> ffi_state \<Rightarrow> (ffi_error + hash) \<times> (ffi_error + ffi_stats)" where
  "final_state pf f = (GetStateRoot f, GetStats (pf_account pf) (pf_snapshot pf) f)"

lemma final_state_fresh:
  "final_state pf fresh_ffi = (Inr (replicate 32 0),
     Inr \<lparr>BlockNumber = 0, StateSize = 0, HistoryLength = 0, MemoryUsageBytes = 0\<rparr>)"
  by (simp add: final_state_def GetStateRoot_def GetStats_def fresh_ffi c_get_state_root_def c_get_stats_def
      engine_new_def Let_def state_size_def history_length_def memory_usage_def go_int_of_json_def fcard_fempty)

text \<open>The goroutine that forwards blocks, for one block: the result of \<open>Submit\<close> and the clock readings
  around it.\<close>

definition forward_block :: "(rat \<Rightarrow> rat) \<Rightarrow> int \<Rightarrow> int \<Rightarrow> string option \<Rightarrow> 'w runtime \<Rightarrow> 'w runtime" where
  "forward_block rnd start since err rt =
     (case err of
        Some e \<Rightarrow> rt
      | None \<Rightarrow> rt\<lparr>rt_program := (rt_program rt)\<lparr>pg_latency := LatencyTracker_Record
          (rnd (of_int (go_quot (time_sub since start) 1000000))) (pg_latency (rt_program rt))\<rparr>\<rparr>)"

lemma InitEngine_New: "InitEngine (NewFFI g) = (fresh_ffi, Inr ())"
  by (simp add: InitEngine_def NewFFI_def c_init_engine_def fresh_ffi)

lemma Load_worker_range: "Load env = Inr c \<Longrightarrow> 1 \<le> WorkerCount c \<and> WorkerCount c \<le> 256"
  by (auto simp: Load_def Let_def config_Validate_def split: sum.splits option.splits if_splits)

definition tool_names :: "string list" where
  "tool_names = [''get_gc_stats'', ''get_heap_usage'', ''get_goroutine_count'', ''get_latency_distribution'',
     ''get_reorg_history'', ''get_state_root'', ''get_state_size'', ''get_apply_block_latency'',
     ''validate_determinism'', ''compare_gc_vs_core_latency'', ''run_load_test'']"

lemma registered_names: "handlers (RegisterRuntimeTools pf NewServer) m \<noteq> None \<longleftrightarrow> m \<in> set tool_names"
  by (simp add: RegisterRuntimeTools_def RegisterTool_def NewServer_def tool_names_def)

text \<open>C24: when the server comes up, and with what. It runs exactly when the configuration loads, the
  logger can be made, and the streamer connects or the load test mode is on; the core, the
  collector and the worker pool can never be what makes it fail. It then has a fresh engine with an
  empty buffer, as many workers as configured, the eleven tools and no other method, and a load
  tester exactly in load test mode; and its shutdown stops the MCP server, the metrics, the pool and
  the streamer, in this order.\<close>

theorem main_start_spec:
  "((\<exists>sv. main_start st mc = Running sv) \<longleftrightarrow>
     (\<exists>cfg. Load (mc_environ mc) = Inr cfg \<and> mc_logger_ok mc \<and>
        (fst (connectWithRetry (mc_dial mc) (mc_wait mc)) = Inr () \<or> LoadTestEnabled cfg))) \<and>
   (\<forall>sv. main_start st mc = Running sv \<longrightarrow>
      Load (mc_environ mc) = Inr (sv_config sv) \<and>
      pg_reorg (rt_program (sv_runtime sv)) = NewReorgEngine fresh_ffi \<and>
      Start (WorkerCount (sv_config sv)) NewPool = (sv_pool sv, Inr ()) \<and>
      (\<forall>m. handlers (sv_mcp sv) m \<noteq> None \<longleftrightarrow> m \<in> set tool_names) \<and>
      (rt_loadTester (sv_runtime sv) \<noteq> None \<longleftrightarrow> LoadTestEnabled (sv_config sv)) \<and>
      (sv_streaming sv \<longleftrightarrow> fst (connectWithRetry (mc_dial mc) (mc_wait mc)) = Inr ()) \<and>
      (\<forall>now s. Shutdown now 30000000000 (sv_shutdown sv) s =
         run_fns (now + 30000000000) [stop_mcp st, stop_metrics st, stop_pool st, stop_streamer st] s))"
proof (cases "Load (mc_environ mc)")
  case (Inl e)
  then show ?thesis by (simp add: main_start_def)
next
  case (Inr cfg)
  show ?thesis
  proof (cases "mc_logger_ok mc")
    case False
    with Inr show ?thesis by (simp add: main_start_def)
  next
    case True
    obtain c0 :: "component_view collector" where c0: "NewCollector = Some c0" using NewCollector_Some by auto
    obtain pl :: "block pool" where pl: "Start (WorkerCount cfg) NewPool = (pl, Inr ())"
      using Load_worker_range [OF Inr] by (simp add: Start_def)
    obtain r ws where r: "connectWithRetry (mc_dial mc) (mc_wait mc) = (r, ws)" by fastforce
    let ?mgr = "fold RegisterShutdownFunc [stop_streamer st, stop_pool st, stop_metrics st, stop_mcp st] NewManager"
    have sh: "Shutdown now 30000000000 ?mgr s =
        run_fns (now + 30000000000) [stop_mcp st, stop_metrics st, stop_pool st, stop_streamer st] s" for now s
      unfolding Shutdown_def registered by (subst shutdown_loop_run) (simp_all add: NewManager_def)
    let ?sv = "\<lambda>ok. \<lparr>sv_config = cfg, sv_runtime =
        (let rt0 = NewRuntimeTools (NewReorgEngine fresh_ffi) (mc_mem mc) (mc_goroutines mc) (mc_rest mc)
         in if LoadTestEnabled cfg then SetLoadTester (mc_load_tester mc) rt0 else rt0),
       sv_mcp = RegisterRuntimeTools (mc_platform mc) NewServer, sv_pool = pl,
       sv_collector = wired (pf_account (mc_platform mc)) (pf_snapshot (mc_platform mc))
         fst (fst \<circ> snd) (snd \<circ> snd) c0, sv_shutdown = ?mgr, sv_streaming = ok\<rparr>"
    have eq: "main_start st mc = (case r of
        Inl e \<Rightarrow> if LoadTestEnabled cfg then Running (?sv False) else FatalStreamer e
      | Inr u \<Rightarrow> Running (?sv True))"
      by (simp add: main_start_def Inr True InitEngine_New c0 pl r Let_def split: sum.split)
    have sv: "sv_config (?sv ok) = cfg \<and> pg_reorg (rt_program (sv_runtime (?sv ok))) = NewReorgEngine fresh_ffi \<and>
        sv_pool (?sv ok) = pl \<and> (\<forall>m. handlers (sv_mcp (?sv ok)) m \<noteq> None \<longleftrightarrow> m \<in> set tool_names) \<and>
        (rt_loadTester (sv_runtime (?sv ok)) \<noteq> None \<longleftrightarrow> LoadTestEnabled cfg) \<and> sv_streaming (?sv ok) = ok \<and>
        sv_shutdown (?sv ok) = ?mgr" for ok
      by (simp add: Let_def SetLoadTester_def NewRuntimeTools_def registered_names del: not_None_eq)
    have run: "(\<exists>sv. main_start st mc = Running sv) \<longleftrightarrow> (r = Inr () \<or> LoadTestEnabled cfg)"
      unfolding eq by (cases r) simp_all
    have one: "sv = ?sv (r = Inr ())" if "main_start st mc = Running sv" for sv
      using that unfolding eq by (cases r) (simp_all split: if_splits)
    show ?thesis
    proof (intro conjI allI impI)
      fix sv assume "main_start st mc = Running sv"
      note svq = one [OF this]
      note svp = sv [of "r = Inr ()", folded svq]
      show "Load (mc_environ mc) = Inr (sv_config sv)" using svp Inr by simp
      show "pg_reorg (rt_program (sv_runtime sv)) = NewReorgEngine fresh_ffi" using svp by blast
      show "Start (WorkerCount (sv_config sv)) NewPool = (sv_pool sv, Inr ())" using svp pl by simp
      show "handlers (sv_mcp sv) m \<noteq> None \<longleftrightarrow> m \<in> set tool_names" for m using svp by blast
      show "rt_loadTester (sv_runtime sv) \<noteq> None \<longleftrightarrow> LoadTestEnabled (sv_config sv)" using svp by simp
      show "sv_streaming sv \<longleftrightarrow> fst (connectWithRetry (mc_dial mc) (mc_wait mc)) = Inr ()" using svp r by simp
      show "Shutdown now 30000000000 (sv_shutdown sv) s =
         run_fns (now + 30000000000) [stop_mcp st, stop_metrics st, stop_pool st, stop_streamer st] s" for now s
        using svp sh by metis
    qed (use run r Inr True in simp)
  qed
qed

text \<open>A server on a machine where only the URL is set and the first dial succeeds.\<close>

definition url_only :: environ where
  "url_only = [''ETH_RPC_URL'' \<mapsto> ''ws://node'']"

lemma Load_url_only:
  "Load url_only = Inr \<lparr>ETHRPCURL = ''ws://node'', WorkerCount = 4, MetricsPort = 9090, MCPPort = 8080,
     LoadTestEnabled = False\<rparr>"
proof -
  have "\<not> containsHardcodedSecret ''ws://node''"
    by (simp add: containsHardcodedSecret_def splitOnSlashes_def split_loop_scan key_like_def)
  then show ?thesis
    by (simp add: Load_def url_only_def Getenv_def int_setting_def bool_setting_def config_Validate_def)
qed

text \<open>With this environment and a node that answers, the server comes up.\<close>

lemma url_only_starts:
  fixes st :: "('p, 'e) stop_fns" and mc :: "'w machine"
  shows "\<exists>sv. main_start st (mc\<lparr>mc_environ := url_only, mc_logger_ok := True, mc_dial := \<lambda>n. True\<rparr>) = Running sv"
proof -
  obtain c0 :: "component_view collector" where c0: "NewCollector = Some c0" using NewCollector_Some by auto
  obtain pl :: "block pool" where pl: "Start 4 NewPool = (pl, Inr ())" by (simp add: Start_def)
  have "fst (connectWithRetry (\<lambda>n. True) (mc_wait mc)) = Inr ()"
    by (simp add: connectWithRetry_def maxAttempts_def eval_nat_numeral)
  then obtain ws where ws: "connectWithRetry (\<lambda>n. True) (mc_wait mc) = (Inr (), ws)" by (metis prod.collapse)
  show ?thesis by (simp add: main_start_def Load_url_only InitEngine_New c0 pl ws Let_def)
qed

theorem main_start_spec_witness:
  "\<forall>(st :: (nat, nat) stop_fns) (mc :: unit machine).
     \<exists>sv. main_start st (mc\<lparr>mc_environ := url_only, mc_logger_ok := True, mc_dial := \<lambda>n. True\<rparr>) = Running sv \<and>
       LoadTestEnabled (sv_config sv) = False \<and> sv_streaming sv \<and> rt_loadTester (sv_runtime sv) = None \<and>
       handlers (sv_mcp sv) ''get_state_root'' \<noteq> None \<and> handlers (sv_mcp sv) ''stop'' = None"
proof (intro allI)
  fix st :: "(nat, nat) stop_fns" and mc :: "unit machine"
  let ?mc = "mc\<lparr>mc_environ := url_only, mc_logger_ok := True, mc_dial := \<lambda>n. True\<rparr>"
  note spec = main_start_spec [of st ?mc]
  have ok: "fst (connectWithRetry (mc_dial ?mc) (mc_wait ?mc)) = Inr ()"
    by (simp add: connectWithRetry_def maxAttempts_def eval_nat_numeral)
  with spec [THEN conjunct1] obtain sv where sv: "main_start st ?mc = Running sv"
    using Load_url_only by auto
  note all = spec [THEN conjunct2, rule_format, OF sv]
  have "sv_config sv = \<lparr>ETHRPCURL = ''ws://node'', WorkerCount = 4, MetricsPort = 9090, MCPPort = 8080,
     LoadTestEnabled = False\<rparr>"
    using all [THEN conjunct1] by (simp add: Load_url_only)
  then have cfg: "LoadTestEnabled (sv_config sv) = False" by simp
  have names: "\<And>m. handlers (sv_mcp sv) m \<noteq> None \<longleftrightarrow> m \<in> set tool_names" using all by blast
  have lt: "rt_loadTester (sv_runtime sv) \<noteq> None \<longleftrightarrow> LoadTestEnabled (sv_config sv)" using all by blast
  have "sv_streaming sv \<longleftrightarrow> fst (connectWithRetry (mc_dial ?mc) (mc_wait ?mc)) = Inr ()" using all by blast
  with ok have "sv_streaming sv" by simp
  moreover have "handlers (sv_mcp sv) ''get_state_root'' \<noteq> None" "handlers (sv_mcp sv) ''stop'' = None"
    using names [of "''get_state_root''"] names [of "''stop''"] by (simp_all add: tool_names_def)
  ultimately show "\<exists>sv. main_start st ?mc = Running sv \<and>
       LoadTestEnabled (sv_config sv) = False \<and> sv_streaming sv \<and> rt_loadTester (sv_runtime sv) = None \<and>
       handlers (sv_mcp sv) ''get_state_root'' \<noteq> None \<and> handlers (sv_mcp sv) ''stop'' = None"
    using sv cfg lt by (intro exI [of _ sv]) simp
qed

section \<open>A live chain\<close>

lemma fold_fixed: "(\<And>x. x \<in> set xs \<Longrightarrow> f x s = s) \<Longrightarrow> fold f xs s = s"
  by (induction xs) simp_all

lemma ApplyBlock_wrong_number:
  assumes "digest32 blake3" and "wf_block blk" and "Number blk \<noteq> 1"
  shows "\<exists>e. ApplyBlock blake3 (Some blk) fresh_ffi = (fresh_ffi, Inl e)"
proof (cases "ValidateBlock (Some blk) (lastBlockNumber fresh_ffi)")
  case (Inl e)
  then show ?thesis by (simp add: ApplyBlock_def)
next
  case (Inr u)
  have "apply_block blake3 blk engine_new =
      (engine_new, Inl (InvalidBlockNumber (block_number engine_new + 1) (Number blk)))"
    using assms(3) by (simp add: apply_block_def engine_new_def)
  moreover have "ValidateBlock (Some blk) (lastBlockNumber fresh_ffi) = Inr ()" using Inr by simp
  note ApplyBlock_through [OF assms(1) _ assms(2) this, of engine_new]
  ultimately show ?thesis by (simp add: fresh_ffi)
qed

lemma fresh_engine_stays:
  assumes "digest32 blake3" and "wf_block blk" and "Number blk \<noteq> 1"
  shows "\<exists>e. ProcessBlock (go_ffi blake3) sha256 clk blk (NewReorgEngine fresh_ffi) = (NewReorgEngine fresh_ffi, Inl e)"
proof -
  obtain e where e: "ApplyBlock blake3 (Some blk) fresh_ffi = (fresh_ffi, Inl e)"
    using ApplyBlock_wrong_number [OF assms] by blast
  have "Size (ringBuffer (NewReorgEngine fresh_ffi)) = 0"
    by (simp add: NewReorgEngine_def) (simp add: NewRingBuffer_def Size_def)
  with e show ?thesis
    by (simp add: ProcessBlock_def DetectReorg_def) (simp add: NewReorgEngine_def)
qed

text \<open>What the streamer makes of frames whose headers are not those of block 1.\<close>

lemma streamed_not_first:
  assumes "list_all (\<lambda>fs. list_all (\<lambda>h. fst h \<noteq> 1) (headers_in fs)) sessions"
    and "fs \<in> set sessions" and "b \<in> set (stream_loop fs)"
  shows "wf_block b \<and> Number b \<noteq> 1"
proof -
  have "header_of b \<in> set (map header_of (stream_loop fs))" using assms(3) by (simp only: set_map imageI)
  from list_emb_set [OF stream_loop_blocks [THEN conjunct2] this]
  have "header_of b \<in> set (headers_in fs)" by metis
  with assms(1,2) have "fst (header_of b) \<noteq> 1" by (auto simp: list_all_iff)
  moreover have "wf_block b"
    using stream_loop_blocks [THEN conjunct1, of fs] assms(3) unfolding list_all_iff by blast
  ultimately show ?thesis by (simp add: header_of_def)
qed

text \<open>A server attached to a running chain applies nothing. Let every connection deliver any frames
  whose header notifications announce blocks other than number 1, as on every chain that is past
  its first block; then, in whatever order and however often the workers hand the forwarded blocks
  to the reorg engine, every one is refused and the engine stays exactly as it was at the start.\<close>

theorem live_chain_never_applied:
  assumes "digest32 blake3"
    and "list_all (\<lambda>fs. list_all (\<lambda>h. fst h \<noteq> 1) (headers_in fs)) sessions"
    and "set (map snd cbs) \<subseteq> (\<Union>fs\<in>set sessions. set (stream_loop fs))"
  shows "fold (process_step (go_ffi blake3) sha256) cbs (NewReorgEngine fresh_ffi) = NewReorgEngine fresh_ffi \<and>
    list_all (\<lambda>(clk, b). isl (snd (ProcessBlock (go_ffi blake3) sha256 clk b (NewReorgEngine fresh_ffi)))) cbs"
proof -
  have no: "\<exists>e. ProcessBlock (go_ffi blake3) sha256 clk b (NewReorgEngine fresh_ffi) = (NewReorgEngine fresh_ffi, Inl e)"
    if "b \<in> set (map snd cbs)" for clk b
  proof -
    from subsetD [OF assms(3) that] obtain fs where fs: "fs \<in> set sessions" "b \<in> set (stream_loop fs)"
      by (rule UN_E)
    from streamed_not_first [OF assms(2) fs] show ?thesis by (intro fresh_engine_stays [OF assms(1)]) simp_all
  qed
  have each: "process_step (go_ffi blake3) sha256 cb (NewReorgEngine fresh_ffi) = NewReorgEngine fresh_ffi \<and>
      isl (snd (ProcessBlock (go_ffi blake3) sha256 (fst cb) (snd cb) (NewReorgEngine fresh_ffi)))"
    if "cb \<in> set cbs" for cb
    using no [of "snd cb" "fst cb"] that by (auto simp: process_step_def)
  then have "fold (process_step (go_ffi blake3) sha256) cbs (NewReorgEngine fresh_ffi) = NewReorgEngine fresh_ffi"
    by (intro fold_fixed) blast
  with each show ?thesis by (auto simp: list_all_iff)
qed

lemma two_heads:
  "headers_in [head_frame ''0x10'', head_frame ''0x11''] = [(16, replicate 32 0, 1), (17, replicate 32 0, 1)]"
  "stream_loop [head_frame ''0x10'', head_frame ''0x11''] =
     [\<lparr>Number = 16, ParentHash = replicate 32 0, Timestamp = 1, Transactions = []\<rparr>]"
proof -
  have p: "parseBlockHeader (fr_header (head_frame ''0x10'')) = Some (16, replicate 32 0, 1)"
    "parseBlockHeader (fr_header (head_frame ''0x11'')) = Some (17, replicate 32 0, 1)"
    by (simp_all add: parseBlockHeader_def head_frame_def quantity_def big_Uint64_def big_SetString16_def
        hex_digit_def fixed_bytes_def hexToBytes_def)
  have f: "fetchFullBlock n ph ts [head_frame x] = (Inl ReadFailed, [])" for n ph ts x
    by (simp add: fetchFullBlock_def head_frame_def)
  show "headers_in [head_frame ''0x10'', head_frame ''0x11''] = [(16, replicate 32 0, 1), (17, replicate 32 0, 1)]"
    by (simp add: headers_in_def p)
  show "stream_loop [head_frame ''0x10'', head_frame ''0x11''] =
     [\<lparr>Number = 16, ParentHash = replicate 32 0, Timestamp = 1, Transactions = []\<rparr>]"
    by (simp add: p f streamer_validateBlock_def)
qed

theorem live_chain_never_applied_witness:
  "isl (snd (ProcessBlock (go_ffi (\<lambda>m. replicate 32 0)) (\<lambda>m. []) (0, 0, 0)
     \<lparr>Number = 16, ParentHash = replicate 32 0, Timestamp = 1, Transactions = []\<rparr> (NewReorgEngine fresh_ffi)))"
proof -
  let ?fs = "[head_frame ''0x10'', head_frame ''0x11'']"
  let ?cbs = "[((0, 0, 0), \<lparr>Number = 16, ParentHash = replicate 32 0, Timestamp = 1, Transactions = []\<rparr>)]"
  have "list_all (\<lambda>fs. list_all (\<lambda>h. fst h \<noteq> 1) (headers_in fs)) [?fs]"
    "set (map snd ?cbs) \<subseteq> (\<Union>fs\<in>set [?fs]. set (stream_loop fs))"
    by (simp_all add: two_heads del: stream_loop.simps)
  from live_chain_never_applied [OF digest32_const this, of "\<lambda>m. []"] show ?thesis by simp
qed

end
