(* ===== verification/Streamer_Life.thy ===== *)
theory Streamer_Life
  imports Streamer
begin

text \<open>
  The life of the streamer (\<^verbatim>\<open>internal/streamer/streamer.go\<close>): \<open>Start\<close>, the reconnecting goroutine,
  \<open>Stop\<close> and the channel to the consumer, as a labelled step relation. What the network does (a dial
  succeeds, a frame carries a block, a read fails) is the choice of the step; decoding is in
  \<^verbatim>\<open>Streamer.thy\<close>. A wait in a \<open>select\<close> ends with whichever event happens first, so its timer fires only
  while nothing was stopped. \<open>Stop\<close> is one step. \<open>ReadMessage\<close> blocks without a deadline: on an open
  connection its steps are the node's, and only on a connection that \<open>Stop\<close> has closed does it return
  by itself.
\<close>

section \<open>State\<close>

text \<open>Who dials: \<open>Start\<close>, or the goroutine after a wait of the given backoff. \<open>conn\<close> names the current
  connection by the order in which they were made; \<open>open_conns\<close> are those not closed.\<close>

datatype dialer = Initial | Redial int

datatype stream_pc =
    NotStarted
  | BeforeDial dialer nat
  | InDial dialer nat
  | DialFailed dialer nat
  | RetryWait dialer nat int
  | ConnectFailed dialer
  | StartFailed
  | Subscribing
  | Reading
  | Sending block
  | CheckStop
  | ReconnectWait int
  | Returned

record streamer =
  conn :: "nat option"
  isConnected :: bool
  open_conns :: "nat list"
  dialed :: nat
  stopCh_closed :: bool
  st_ctx :: "bool option"
  buffered :: "block list"
  blocks_closed :: bool
  st_pc :: stream_pc
  stop_panicked :: bool

definition NewEthBlockStreamer :: streamer where
  "NewEthBlockStreamer = \<lparr>conn = None, isConnected = False, open_conns = [], dialed = 0, stopCh_closed = False,
     st_ctx = None, buffered = [], blocks_closed = False, st_pc = NotStarted, stop_panicked = False\<rparr>"

definition halted :: "streamer \<Rightarrow> bool" where
  "halted s \<longleftrightarrow> stopCh_closed s \<or> st_ctx s = Some True"

text \<open>The connection the streamer names has not been closed.\<close>

definition conn_open :: "streamer \<Rightarrow> bool" where
  "conn_open s \<longleftrightarrow> (case conn s of None \<Rightarrow> False | Some c \<Rightarrow> c \<in> set (open_conns s))"

definition streamer_IsConnected :: "streamer \<Rightarrow> bool" where
  "streamer_IsConnected s = isConnected s"

section \<open>Steps\<close>

datatype st_event =
    StStart
  | StDialBegin
  | StDialRefused
  | StDialOk
  | StDialFail
  | StRetry
  | StTimer
  | StAborted
  | StConnectError
  | StSubscribed
  | StSubscribeFailed
  | StSkip
  | StBlock block
  | StReadCancelled
  | StReadError
  | StReadClosed
  | StSent block
  | StSendCancelled
  | StReturn
  | StLost
  | StReceived block
  | StStop
  | StStopAgain

text \<open>\<open>Start\<close> itself: it makes the context, dials, and starts the goroutine when it is connected.\<close>

inductive start_step :: "streamer \<Rightarrow> st_event \<Rightarrow> streamer \<Rightarrow> bool" where
  st_start: "st_pc s = NotStarted \<Longrightarrow>
    start_step s StStart (s\<lparr>st_ctx := Some False, st_pc := BeforeDial Initial 1\<rparr>)"
| start_failed: "st_pc s = ConnectFailed Initial \<Longrightarrow> start_step s StConnectError (s\<lparr>st_pc := StartFailed\<rparr>)"

text \<open>The dialing of \<open>connectWithRetry\<close>. A dial under a cancelled context fails at once; one that is under
  way may still succeed.\<close>

inductive dial_step :: "streamer \<Rightarrow> st_event \<Rightarrow> streamer \<Rightarrow> bool" where
  dial_begin: "st_pc s = BeforeDial k a \<Longrightarrow> st_ctx s = Some False \<Longrightarrow>
    dial_step s StDialBegin (s\<lparr>st_pc := InDial k a\<rparr>)"
| dial_refused: "st_pc s = BeforeDial k a \<Longrightarrow> st_ctx s = Some True \<Longrightarrow>
    dial_step s StDialRefused (s\<lparr>st_pc := DialFailed k a\<rparr>)"
| dial_ok: "st_pc s = InDial k a \<Longrightarrow>
    dial_step s StDialOk (s\<lparr>conn := Some (dialed s), isConnected := True,
      open_conns := open_conns s @ [dialed s], dialed := dialed s + 1, st_pc := Subscribing\<rparr>)"
| dial_fail: "st_pc s = InDial k a \<Longrightarrow> dial_step s StDialFail (s\<lparr>st_pc := DialFailed k a\<rparr>)"
| retry: "st_pc s = DialFailed k a \<Longrightarrow>
    dial_step s StRetry (s\<lparr>st_pc := if a < maxAttempts then RetryWait k a (second * 2 ^ (a - 1)) else ConnectFailed k\<rparr>)"
| retry_timer: "st_pc s = RetryWait k a b \<Longrightarrow> \<not> halted s \<Longrightarrow>
    dial_step s StTimer (s\<lparr>st_pc := BeforeDial k (a + 1)\<rparr>)"
| retry_aborted: "st_pc s = RetryWait k a b \<Longrightarrow> halted s \<Longrightarrow>
    dial_step s StAborted (s\<lparr>st_pc := ConnectFailed k\<rparr>)"

text \<open>\<open>streamBlocks\<close> and the outer loop of \<open>streamWithReconnect\<close>, whose deferred function closes the
  channel.\<close>

inductive stream_step :: "streamer \<Rightarrow> st_event \<Rightarrow> streamer \<Rightarrow> bool" where
  subscribed: "st_pc s = Subscribing \<Longrightarrow> conn_open s \<Longrightarrow> stream_step s StSubscribed (s\<lparr>st_pc := Reading\<rparr>)"
| subscribe_failed: "st_pc s = Subscribing \<Longrightarrow> stream_step s StSubscribeFailed (s\<lparr>st_pc := CheckStop\<rparr>)"
| skip: "st_pc s = Reading \<Longrightarrow> \<not> halted s \<Longrightarrow> stream_step s StSkip s"
| read_block: "st_pc s = Reading \<Longrightarrow> \<not> halted s \<Longrightarrow> streamer_validateBlock b \<Longrightarrow>
    stream_step s (StBlock b) (s\<lparr>st_pc := Sending b\<rparr>)"
| read_cancelled: "st_pc s = Reading \<Longrightarrow> halted s \<Longrightarrow> stream_step s StReadCancelled (s\<lparr>st_pc := CheckStop\<rparr>)"
| read_error: "st_pc s = Reading \<Longrightarrow> conn_open s \<Longrightarrow>
    stream_step s StReadError (s\<lparr>isConnected := isConnected s \<and> halted s, st_pc := CheckStop\<rparr>)"
| read_closed: "st_pc s = Reading \<Longrightarrow> \<not> conn_open s \<Longrightarrow>
    stream_step s StReadClosed (s\<lparr>isConnected := isConnected s \<and> halted s, st_pc := CheckStop\<rparr>)"
| sent: "st_pc s = Sending b \<Longrightarrow> length (buffered s) < 100 \<Longrightarrow>
    stream_step s (StSent b) (s\<lparr>buffered := buffered s @ [b], st_pc := Reading\<rparr>)"
| send_cancelled: "st_pc s = Sending b \<Longrightarrow> halted s \<Longrightarrow> stream_step s StSendCancelled (s\<lparr>st_pc := CheckStop\<rparr>)"
| return: "st_pc s = CheckStop \<Longrightarrow> halted s \<Longrightarrow>
    stream_step s StReturn (s\<lparr>blocks_closed := True, st_pc := Returned\<rparr>)"
| lost: "st_pc s = CheckStop \<Longrightarrow> \<not> halted s \<Longrightarrow>
    stream_step s StLost (s\<lparr>isConnected := False, st_pc := ReconnectWait (2 * second)\<rparr>)"
| redial_failed: "st_pc s = ConnectFailed (Redial b) \<Longrightarrow>
    stream_step s StConnectError (s\<lparr>st_pc := ReconnectWait (if b * 2 > 60 * second then 60 * second else b * 2)\<rparr>)"
| reconnect_timer: "st_pc s = ReconnectWait b \<Longrightarrow> \<not> halted s \<Longrightarrow>
    stream_step s StTimer (s\<lparr>st_pc := BeforeDial (Redial b) 1\<rparr>)"
| reconnect_aborted: "st_pc s = ReconnectWait b \<Longrightarrow> halted s \<Longrightarrow>
    stream_step s StAborted (s\<lparr>blocks_closed := True, st_pc := Returned\<rparr>)"

text \<open>The consumer, and \<open>Stop\<close>: closing \<open>stopCh\<close> again panics before anything else happens.\<close>

inductive outer_step :: "streamer \<Rightarrow> st_event \<Rightarrow> streamer \<Rightarrow> bool" where
  received: "buffered s = b # bs \<Longrightarrow> outer_step s (StReceived b) (s\<lparr>buffered := bs\<rparr>)"
| stop: "\<not> stopCh_closed s \<Longrightarrow>
    outer_step s StStop (s\<lparr>stopCh_closed := True, st_ctx := map_option (\<lambda>c. True) (st_ctx s),
      isConnected := isConnected s \<and> conn s = None,
      open_conns := (case conn s of None \<Rightarrow> open_conns s | Some c \<Rightarrow> remove1 c (open_conns s))\<rparr>)"
| stop_again: "stopCh_closed s \<Longrightarrow> outer_step s StStopAgain (s\<lparr>stop_panicked := True\<rparr>)"

inductive st_step :: "streamer \<Rightarrow> st_event \<Rightarrow> streamer \<Rightarrow> bool" where
  starting: "\<not> stop_panicked s \<Longrightarrow> start_step s e s' \<Longrightarrow> st_step s e s'"
| dialing: "\<not> stop_panicked s \<Longrightarrow> dial_step s e s' \<Longrightarrow> st_step s e s'"
| streaming: "\<not> stop_panicked s \<Longrightarrow> stream_step s e s' \<Longrightarrow> st_step s e s'"
| outer: "\<not> stop_panicked s \<Longrightarrow> outer_step s e s' \<Longrightarrow> st_step s e s'"

inductive st_run :: "streamer \<Rightarrow> st_event list \<Rightarrow> streamer \<Rightarrow> bool" where
  st_Nil: "st_run s [] s"
| st_snoc: "st_run s es s' \<Longrightarrow> st_step s' e s'' \<Longrightarrow> st_run s (es @ [e]) s''"

inductive_cases start_stepE: "start_step s e s'"
inductive_cases dial_stepE: "dial_step s e s'"
inductive_cases stream_stepE: "stream_step s e s'"
inductive_cases outer_stepE: "outer_step s e s'"

section \<open>Invariants\<close>

definition sent_blocks :: "st_event list \<Rightarrow> block list" where
  "sent_blocks es = concat (map (\<lambda>e. case e of StSent b \<Rightarrow> [b] | _ \<Rightarrow> []) es)"

definition received_blocks :: "st_event list \<Rightarrow> block list" where
  "received_blocks es = concat (map (\<lambda>e. case e of StReceived b \<Rightarrow> [b] | _ \<Rightarrow> []) es)"

definition conn_inv :: "streamer \<Rightarrow> bool" where
  "conn_inv s \<longleftrightarrow> (isConnected s \<longrightarrow> conn s \<noteq> None) \<and>
     (conn s = None \<longleftrightarrow> dialed s = 0) \<and> (\<forall>c. conn s = Some c \<longrightarrow> c = dialed s - 1) \<and>
     distinct (open_conns s) \<and> set (open_conns s) \<subseteq> {..<dialed s} \<and>
     dialed s \<le> length (open_conns s) + (if stopCh_closed s then 1 else 0)"

definition chan_inv :: "st_event list \<Rightarrow> streamer \<Rightarrow> bool" where
  "chan_inv es s \<longleftrightarrow> sent_blocks es = received_blocks es @ buffered s \<and> length (buffered s) \<le> 100 \<and>
     (blocks_closed s \<longleftrightarrow> st_pc s = Returned) \<and>
     (st_pc s \<noteq> NotStarted \<longleftrightarrow> st_ctx s \<noteq> None) \<and>
     (st_ctx s = Some True \<longrightarrow> stopCh_closed s) \<and>
     (st_pc s = Returned \<longrightarrow> stopCh_closed s) \<and>
     list_all streamer_validateBlock (sent_blocks es) \<and> (\<forall>b. st_pc s = Sending b \<longrightarrow> streamer_validateBlock b)"

lemmas chan_simps = chan_inv_def sent_blocks_def received_blocks_def halted_def

lemma start_conn: "conn_inv s \<Longrightarrow> start_step s e s' \<Longrightarrow> conn_inv s'"
  by (erule start_stepE) (auto simp: conn_inv_def)

lemma dial_conn: "conn_inv s \<Longrightarrow> dial_step s e s' \<Longrightarrow> conn_inv s'"
  by (erule dial_stepE) (auto simp: conn_inv_def subset_iff)

lemma stream_conn: "conn_inv s \<Longrightarrow> stream_step s e s' \<Longrightarrow> conn_inv s'"
  by (erule stream_stepE) (auto simp: conn_inv_def)

lemma stop_conn:
  assumes "conn_inv s" and "\<not> stopCh_closed s"
  shows "conn_inv (s\<lparr>stopCh_closed := True, st_ctx := map_option (\<lambda>c. True) (st_ctx s),
      isConnected := isConnected s \<and> conn s = None,
      open_conns := (case conn s of None \<Rightarrow> open_conns s | Some c \<Rightarrow> remove1 c (open_conns s))\<rparr>)"
proof (cases "conn s")
  case None
  with assms show ?thesis by (auto simp: conn_inv_def)
next
  case (Some c)
  have "set (remove1 c (open_conns s)) \<subseteq> {..<dialed s}"
    using assms(1) set_remove1_subset [of c "open_conns s"] unfolding conn_inv_def by (blast dest: subset_trans)
  moreover have "length (open_conns s) \<le> length (remove1 c (open_conns s)) + 1" by (auto simp: length_remove1)
  ultimately show ?thesis using assms Some by (simp add: conn_inv_def distinct_remove1)
qed

lemma outer_conn: "conn_inv s \<Longrightarrow> outer_step s e s' \<Longrightarrow> conn_inv s'"
proof (erule outer_stepE)
  assume "conn_inv s" "s' = s\<lparr>stop_panicked := True\<rparr>"
  then show ?thesis by (auto simp: conn_inv_def)
next
  fix b bs assume "conn_inv s" "s' = s\<lparr>buffered := bs\<rparr>"
  then show ?thesis by (auto simp: conn_inv_def)
qed (simp add: stop_conn)

lemma start_chan: "chan_inv es s \<Longrightarrow> start_step s e s' \<Longrightarrow> chan_inv (es @ [e]) s'"
  by (erule start_stepE) (auto simp: chan_simps)

lemma dial_chan: "chan_inv es s \<Longrightarrow> dial_step s e s' \<Longrightarrow> chan_inv (es @ [e]) s'"
  by (erule dial_stepE) (auto simp: chan_simps)

lemma stream_chan: "chan_inv es s \<Longrightarrow> stream_step s e s' \<Longrightarrow> chan_inv (es @ [e]) s'"
  by (erule stream_stepE) (auto simp: chan_simps)

lemma outer_chan: "chan_inv es s \<Longrightarrow> outer_step s e s' \<Longrightarrow> chan_inv (es @ [e]) s'"
  by (erule outer_stepE) (auto simp: chan_simps)

lemma streamer_inv:
  "st_run s0 es s \<Longrightarrow> s0 = NewEthBlockStreamer \<Longrightarrow> conn_inv s \<and> chan_inv es s"
proof (induction rule: st_run.induct)
  case (st_Nil s)
  then show ?case by (simp add: NewEthBlockStreamer_def conn_inv_def chan_simps)
next
  case (st_snoc s es s' e s'')
  then have i: "conn_inv s'" "chan_inv es s'" by simp_all
  from st_snoc(2) show ?case
  proof cases
    case starting
    with i show ?thesis by (simp add: start_conn start_chan)
  next
    case dialing
    with i show ?thesis by (simp add: dial_conn dial_chan)
  next
    case streaming
    with i show ?thesis by (simp add: stream_conn stream_chan)
  next
    case outer
    with i show ?thesis by (simp add: outer_conn outer_chan)
  qed
qed

section \<open>Stopping\<close>

fun outer_event :: "st_event \<Rightarrow> bool" where
  "outer_event (StReceived b) \<longleftrightarrow> True"
| "outer_event StStop \<longleftrightarrow> True"
| "outer_event StStopAgain \<longleftrightarrow> True"
| "outer_event e \<longleftrightarrow> False"

text \<open>The steps that need the node: a dial that succeeds, a frame, a broken connection. All others of the
  goroutine it can take alone: a dial ends by its time-out of 30 seconds or with its context, the small
  write of \<open>subscribeToNewHeads\<close> returns, and a \<open>select\<close> takes a case that is ready.\<close>

fun network_event :: "st_event \<Rightarrow> bool" where
  "network_event StDialOk \<longleftrightarrow> True"
| "network_event StSkip \<longleftrightarrow> True"
| "network_event (StBlock b) \<longleftrightarrow> True"
| "network_event StReadCancelled \<longleftrightarrow> True"
| "network_event StReadError \<longleftrightarrow> True"
| "network_event e \<longleftrightarrow> False"

definition own_event :: "st_event \<Rightarrow> bool" where
  "own_event e \<longleftrightarrow> \<not> outer_event e \<and> \<not> network_event e"

text \<open>In \<open>ReadMessage\<close> on an open connection.\<close>

definition awaiting_node :: "streamer \<Rightarrow> bool" where
  "awaiting_node s \<longleftrightarrow> st_pc s = Reading \<and> conn_open s"

text \<open>How many steps are left once the streamer is stopped.\<close>

fun steps_left :: "stream_pc \<Rightarrow> nat" where
  "steps_left NotStarted = 7"
| "steps_left (BeforeDial k a) = 6"
| "steps_left (InDial k a) = 5"
| "steps_left (DialFailed k a) = 4"
| "steps_left (RetryWait k a b) = 3"
| "steps_left (ConnectFailed k) = 2"
| "steps_left StartFailed = 0"
| "steps_left Subscribing = 3"
| "steps_left Reading = 2"
| "steps_left (Sending b) = 3"
| "steps_left CheckStop = 1"
| "steps_left (ReconnectWait b) = 1"
| "steps_left Returned = 0"

lemma stopped_step:
  assumes "st_step s e s'" and "stopCh_closed s"
  shows "stopCh_closed s' \<and> steps_left (st_pc s') + (if outer_event e then 0 else 1) \<le> steps_left (st_pc s)"
  using assms(1)
proof cases
  case starting
  with assms(2) show ?thesis by (auto elim!: start_stepE)
next
  case dialing
  with assms(2) show ?thesis by (auto elim!: dial_stepE simp: halted_def)
next
  case streaming
  with assms(2) show ?thesis by (auto elim!: stream_stepE simp: halted_def)
next
  case outer
  with assms(2) show ?thesis by (auto elim!: outer_stepE)
qed

lemma stopped_run:
  "st_run s es s' \<Longrightarrow> stopCh_closed s \<Longrightarrow>
     stopCh_closed s' \<and> steps_left (st_pc s') + length (filter (\<lambda>e. \<not> outer_event e) es) \<le> steps_left (st_pc s)"
  by (induction rule: st_run.induct) (force dest: stopped_step)+

lemma stopped_progress:
  assumes "stopCh_closed s" and "\<not> stop_panicked s" and "st_pc s \<notin> {NotStarted, StartFailed, Returned}"
    and "st_ctx s \<noteq> None" and "\<not> awaiting_node s"
  shows "\<exists>e s'. st_step s e s' \<and> own_event e"
proof -
  have h: "halted s" using assms(1) by (simp add: halted_def)
  have b: "start_step s e s' \<Longrightarrow> own_event e \<Longrightarrow> ?thesis"
    and d: "dial_step s e s' \<Longrightarrow> own_event e \<Longrightarrow> ?thesis"
    and t: "stream_step s e s' \<Longrightarrow> own_event e \<Longrightarrow> ?thesis" for e s'
    using assms(2) by (blast intro: st_step.intros)+
  show ?thesis
  proof (cases "st_pc s")
    case (BeforeDial k a)
    show ?thesis
    proof (cases "st_ctx s = Some True")
      case True
      show ?thesis by (rule d [OF dial_refused [OF BeforeDial True]]) (simp add: own_event_def)
    next
      case False
      with assms(4) have "st_ctx s = Some False" by auto
      then show ?thesis by (intro d [OF dial_begin [OF BeforeDial]]) (simp_all add: own_event_def)
    qed
  next
    case (InDial k a)
    show ?thesis by (rule d [OF dial_fail [OF InDial]]) (simp add: own_event_def)
  next
    case (DialFailed k a)
    show ?thesis by (rule d [OF retry [OF DialFailed]]) (simp add: own_event_def)
  next
    case (RetryWait k a b)
    show ?thesis by (rule d [OF retry_aborted [OF RetryWait h]]) (simp add: own_event_def)
  next
    case (ConnectFailed k)
    show ?thesis
    proof (cases k)
      case Initial
      show ?thesis by (rule b [OF start_failed [OF ConnectFailed [unfolded Initial]]]) (simp add: own_event_def)
    next
      case (Redial b)
      show ?thesis by (rule t [OF redial_failed [OF ConnectFailed [unfolded Redial]]]) (simp add: own_event_def)
    qed
  next
    case Subscribing
    show ?thesis
    proof (cases "conn_open s")
      case True
      show ?thesis by (rule t [OF subscribed [OF Subscribing True]]) (simp add: own_event_def)
    next
      case False
      show ?thesis by (rule t [OF subscribe_failed [OF Subscribing]]) (simp add: own_event_def)
    qed
  next
    case Reading
    with assms(5) have "\<not> conn_open s" by (simp add: awaiting_node_def)
    then show ?thesis by (intro t [OF read_closed [OF Reading]]) (simp_all add: own_event_def)
  next
    case (Sending b)
    show ?thesis by (rule t [OF send_cancelled [OF Sending h]]) (simp add: own_event_def)
  next
    case CheckStop
    show ?thesis by (rule t [OF return [OF CheckStop h]]) (simp add: own_event_def)
  next
    case (ReconnectWait b)
    show ?thesis by (rule t [OF reconnect_aborted [OF ReconnectWait h]]) (simp add: own_event_def)
  qed (use assms(3) in simp_all)
qed

text \<open>Waiting for the node, the goroutine has no step of its own.\<close>

lemma awaiting_stuck: "awaiting_node s \<Longrightarrow> st_step s e s' \<Longrightarrow> \<not> own_event e"
  by (erule st_step.cases) (auto elim!: start_stepE dial_stepE stream_stepE outer_stepE simp: awaiting_node_def own_event_def)

interpretation st_runs: labelled_runs st_step st_run
proof
  show "st_run s [] s" for s by (rule st_Nil)
  show "st_run s (es @ [e]) u" if "st_run s es t" "st_step t e u" for s es t e u
    using that by (rule st_snoc)
  show "P es t" if "st_run s es t" "P [] s"
    "\<And>ds u e v. st_run s ds u \<Longrightarrow> P ds u \<Longrightarrow> st_step u e v \<Longrightarrow> P (ds @ [e]) v" for s es t P
    using that by (induction rule: st_run.induct) blast+
qed

lemma steps_left_7: "steps_left p \<le> 7"
  by (cases p) simp_all

definition goroutine_over :: "streamer \<Rightarrow> bool" where
  "goroutine_over s \<longleftrightarrow> st_pc s \<in> {NotStarted, StartFailed, Returned}"

lemma start_then: "start_step s e s' \<Longrightarrow> \<not> stop_panicked s \<Longrightarrow> st_run s' es s'' \<Longrightarrow> st_run s (e # es) s''"
  and dial_then: "dial_step s e s' \<Longrightarrow> \<not> stop_panicked s \<Longrightarrow> st_run s' es s'' \<Longrightarrow> st_run s (e # es) s''"
  and stream_then: "stream_step s e s' \<Longrightarrow> \<not> stop_panicked s \<Longrightarrow> st_run s' es s'' \<Longrightarrow> st_run s (e # es) s''"
  and outer_then: "outer_step s e s' \<Longrightarrow> \<not> stop_panicked s \<Longrightarrow> st_run s' es s'' \<Longrightarrow> st_run s (e # es) s''"
  by (blast intro: st_runs.runs_cons st_step.intros)+

text \<open>A stop while the goroutine dials again: the dial succeeds, and the goroutine reads from a connection
  nobody will close. If the node sends a frame the goroutine ends, otherwise it does not.\<close>

definition stuck_trace :: "st_event list" where
  "stuck_trace = [StStart, StDialBegin, StDialOk, StSubscribed, StReadError, StLost, StTimer, StDialBegin,
     StStop, StDialOk, StSubscribed]"

definition stuck_streamer :: streamer where
  "stuck_streamer = \<lparr>conn = Some 1, isConnected = True, open_conns = [1], dialed = 2, stopCh_closed = True,
      st_ctx = Some True, buffered = [], blocks_closed = False, st_pc = Reading, stop_panicked = False\<rparr>"

lemma stuck_run: "st_run NewEthBlockStreamer stuck_trace stuck_streamer"
  unfolding stuck_trace_def stuck_streamer_def NewEthBlockStreamer_def
  apply (rule start_then [OF st_start], simp, simp)
  apply (rule dial_then [OF dial_begin], simp, simp, simp)
  apply (rule dial_then [OF dial_ok], simp, simp)
  apply (rule stream_then [OF subscribed], simp, simp add: conn_open_def, simp)
  apply (rule stream_then [OF read_error], simp, simp add: conn_open_def, simp)
  apply (rule stream_then [OF lost], simp, simp add: halted_def, simp)
  apply (rule stream_then [OF reconnect_timer], simp, simp add: halted_def, simp)
  apply (rule dial_then [OF dial_begin], simp, simp, simp)
  apply (rule outer_then [OF stop], simp, simp)
  apply (rule dial_then [OF dial_ok], simp, simp)
  apply (rule stream_then [OF subscribed], simp, simp add: conn_open_def, simp)
  apply (simp add: st_Nil flip: numeral_2_eq_2)
  done

definition stop_while_dialing :: "st_event list" where
  "stop_while_dialing = stuck_trace @ [StReadCancelled, StReturn]"

lemma stop_while_dialing_run:
  "st_run NewEthBlockStreamer stop_while_dialing (stuck_streamer\<lparr>blocks_closed := True, st_pc := Returned\<rparr>)"
proof -
  have "st_run stuck_streamer [StReadCancelled, StReturn] (stuck_streamer\<lparr>blocks_closed := True, st_pc := Returned\<rparr>)"
    unfolding stuck_streamer_def
    apply (rule stream_then [OF read_cancelled], simp, simp add: halted_def, simp)
    apply (rule stream_then [OF return], simp, simp add: halted_def, simp)
    apply (simp add: st_Nil)
    done
  from st_runs.runs_append [OF this stuck_run] show ?thesis by (simp add: stop_while_dialing_def)
qed

definition after_stop :: "st_event list \<Rightarrow> st_event list" where
  "after_stop es = dropWhile (\<lambda>e. e \<noteq> StStop) es"

definition stop_inv :: "st_event list \<Rightarrow> streamer \<Rightarrow> bool" where
  "stop_inv es s \<longleftrightarrow> (stopCh_closed s \<longleftrightarrow> StStop \<in> set es) \<and>
     (stopCh_closed s \<and> (isConnected s \<or> conn_open s) \<longrightarrow> StDialOk \<in> set (after_stop es))"

lemma after_stop_snoc:
  "set (after_stop (es @ [e])) = (if StStop \<in> set es then insert e (set (after_stop es)) else if e = StStop then {e} else {})"
proof (cases "StStop \<in> set es")
  case True
  then show ?thesis by (simp add: after_stop_def dropWhile_append1)
next
  case False
  then have "after_stop (es @ [e]) = dropWhile (\<lambda>e. e \<noteq> StStop) [e]"
    unfolding after_stop_def by (intro dropWhile_append2) auto
  with False show ?thesis by simp
qed

lemma step_stop:
  assumes "st_step s e s'" and "conn_inv s"
  shows "(stopCh_closed s' \<longleftrightarrow> stopCh_closed s \<or> e = StStop) \<and>
    (isConnected s' \<longrightarrow> e \<noteq> StStop \<and> (isConnected s \<or> e = StDialOk)) \<and>
    (conn_open s' \<longrightarrow> e \<noteq> StStop \<and> (conn_open s \<or> e = StDialOk))"
  using assms(1)
proof cases
  case starting
  then show ?thesis by (auto elim!: start_stepE simp: conn_open_def split: option.splits)
next
  case dialing
  then show ?thesis by (auto elim!: dial_stepE simp: conn_open_def split: option.splits)
next
  case streaming
  then show ?thesis by (auto elim!: stream_stepE simp: conn_open_def split: option.splits)
next
  case outer
  with assms(2) show ?thesis by (auto elim!: outer_stepE simp: conn_inv_def conn_open_def split: option.splits)
qed

lemma run_stop: "st_run s0 es s \<Longrightarrow> s0 = NewEthBlockStreamer \<Longrightarrow> stop_inv es s"
proof (induction rule: st_run.induct)
  case (st_Nil s)
  then show ?case by (simp add: stop_inv_def NewEthBlockStreamer_def)
next
  case (st_snoc s es s' e s'')
  then have "stop_inv es s'" "conn_inv s'" using streamer_inv by blast+
  with step_stop [OF st_snoc(2)] show ?case by (auto simp: stop_inv_def after_stop_snoc)
qed

text \<open>C23: what stopping the streamer ends. From every state it can be in, once \<open>stopCh\<close> is closed, \<open>Start\<close>
  and the goroutine take at most seven more steps whatever the network and the consumer do. Until they
  are over (or \<open>Stop\<close> is called again) they can take a step of their own, which needs nothing from the
  node, with one exception: \<open>ReadMessage\<close> on an open connection, which is then one that was dialed after
  the stop. That exception does happen: a run exists that ends stopped, the goroutine reading from an
  open connection and the channel not closed, where no step is left to the goroutine, so on a silent
  connection it never ends. Once the goroutine has returned the channel is closed, and the channel never
  loses, reorders or invents a block and holds at most 100.\<close>

theorem streamer_stops:
  assumes "st_run NewEthBlockStreamer es s" and "stopCh_closed s" and "st_run s fs s'"
  shows "length (filter (\<lambda>e. \<not> outer_event e) fs) \<le> 7 \<and>
    (stop_panicked s' \<or> goroutine_over s' \<or> (\<exists>e s''. st_step s' e s'' \<and> own_event e) \<or>
       (awaiting_node s' \<and> StDialOk \<in> set (after_stop (es @ fs)))) \<and>
    (blocks_closed s' \<longleftrightarrow> st_pc s' = Returned) \<and>
    sent_blocks (es @ fs) = received_blocks (es @ fs) @ buffered s' \<and> length (buffered s') \<le> 100 \<and>
    (\<exists>ds t. st_run NewEthBlockStreamer ds t \<and> stopCh_closed t \<and> \<not> stop_panicked t \<and> awaiting_node t \<and>
       \<not> blocks_closed t \<and> (\<forall>e t'. st_step t e t' \<longrightarrow> \<not> own_event e))"
proof (intro conjI)
  note run = st_runs.runs_append [OF assms(3,1)]
  have all: "chan_inv (es @ fs) s'" using streamer_inv [OF run] by simp
  have left: "stopCh_closed s'" "steps_left (st_pc s') + length (filter (\<lambda>e. \<not> outer_event e) fs) \<le> steps_left (st_pc s)"
    using stopped_run [OF assms(3,2)] by simp_all
  show "length (filter (\<lambda>e. \<not> outer_event e) fs) \<le> 7"
    using left(2) steps_left_7 [of "st_pc s"] by linarith
  have "StDialOk \<in> set (after_stop (es @ fs))" if "awaiting_node s'"
    using run_stop [OF run refl] left(1) that by (simp add: stop_inv_def awaiting_node_def)
  then show "stop_panicked s' \<or> goroutine_over s' \<or> (\<exists>e s''. st_step s' e s'' \<and> own_event e) \<or>
       (awaiting_node s' \<and> StDialOk \<in> set (after_stop (es @ fs)))"
    using stopped_progress [OF left(1)] all by (auto simp: goroutine_over_def chan_inv_def)
  show "blocks_closed s' \<longleftrightarrow> st_pc s' = Returned" "sent_blocks (es @ fs) = received_blocks (es @ fs) @ buffered s'"
    "length (buffered s') \<le> 100"
    using all by (simp_all add: chan_inv_def)
  have "awaiting_node stuck_streamer" by (simp add: stuck_streamer_def awaiting_node_def conn_open_def)
  with stuck_run awaiting_stuck [OF this]
  show "\<exists>ds t. st_run NewEthBlockStreamer ds t \<and> stopCh_closed t \<and> \<not> stop_panicked t \<and> awaiting_node t \<and>
       \<not> blocks_closed t \<and> (\<forall>e t'. st_step t e t' \<longrightarrow> \<not> own_event e)"
    by (intro exI [of _ stuck_trace] exI [of _ stuck_streamer]) (simp add: stuck_streamer_def)
qed

text \<open>C38: the connections of the streamer. Until it is stopped no connection is ever closed, not even the
  one a reconnection replaces, and stopping closes at most one; the streamer names the last one made.
  After \<open>Stop\<close> it says it is disconnected unless a dial succeeded after the stop, and that does happen:
  a run exists at whose end the goroutine has returned, the channel is closed, and the streamer still
  says it is connected and holds an open connection that nothing will close.\<close>

theorem streamer_connections:
  assumes "st_run NewEthBlockStreamer es s"
  shows "(\<not> stopCh_closed s \<longrightarrow> set (open_conns s) = {..<dialed s}) \<and>
    dialed s \<le> length (open_conns s) + 1 \<and> (\<forall>c. conn s = Some c \<longrightarrow> c + 1 = dialed s) \<and>
    (StStop \<in> set es \<and> streamer_IsConnected s \<longrightarrow> StDialOk \<in> set (after_stop es)) \<and>
    (\<exists>fs s'. st_run NewEthBlockStreamer fs s' \<and> stopCh_closed s' \<and> st_pc s' = Returned \<and>
       streamer_IsConnected s' \<and> open_conns s' \<noteq> [])"
proof -
  have i: "conn_inv s" using streamer_inv [OF assms] by simp
  have "set (open_conns s) = {..<dialed s}" if "\<not> stopCh_closed s"
  proof (rule card_subset_eq)
    show "card (set (open_conns s)) = card {..<dialed s}"
      using i that card_mono [of "{..<dialed s}" "set (open_conns s)"]
      by (simp add: conn_inv_def distinct_card)
  qed (use i in \<open>simp_all add: conn_inv_def\<close>)
  moreover have "dialed s \<le> length (open_conns s) + 1" using i by (auto simp: conn_inv_def split: if_splits)
  moreover have "c + 1 = dialed s" if "conn s = Some c" for c using i that by (auto simp: conn_inv_def)
  moreover have "StStop \<in> set es \<and> streamer_IsConnected s \<longrightarrow> StDialOk \<in> set (after_stop es)"
    using run_stop [OF assms] by (simp add: stop_inv_def streamer_IsConnected_def)
  moreover have "\<exists>fs s'. st_run NewEthBlockStreamer fs s' \<and> stopCh_closed s' \<and> st_pc s' = Returned \<and>
       streamer_IsConnected s' \<and> open_conns s' \<noteq> []"
    by (rule exI, rule exI, rule conjI, rule stop_while_dialing_run) (simp add: streamer_IsConnected_def stuck_streamer_def)
  ultimately show ?thesis by blast
qed

theorem streamer_connections_witness:
  "\<exists>s. st_run NewEthBlockStreamer stop_while_dialing s \<and> dialed s = 2 \<and> dialed s \<le> length (open_conns s) + 1 \<and>
     StDialOk \<in> set (after_stop stop_while_dialing)"
  by (rule exI, rule conjI, rule stop_while_dialing_run,
      use streamer_connections [OF stop_while_dialing_run] in
        \<open>simp add: streamer_IsConnected_def stop_while_dialing_def stuck_trace_def stuck_streamer_def\<close>)

theorem streamer_stops_witness:
  "\<exists>s s'. st_run NewEthBlockStreamer [StStart, StStop] s \<and> st_run s [StDialRefused] s' \<and>
     (\<exists>e s''. st_step s' e s'' \<and> own_event e)"
proof -
  let ?s = "NewEthBlockStreamer\<lparr>st_ctx := Some False, st_pc := BeforeDial Initial 1\<rparr>"
  let ?t = "?s\<lparr>stopCh_closed := True, st_ctx := Some True\<rparr>"
  let ?u = "?t\<lparr>st_pc := DialFailed Initial 1\<rparr>"
  have a: "st_run NewEthBlockStreamer [StStart, StStop] ?t"
    apply (rule start_then [OF st_start], simp add: NewEthBlockStreamer_def, simp add: NewEthBlockStreamer_def)
    apply (rule outer_then [OF stop], simp add: NewEthBlockStreamer_def, simp add: NewEthBlockStreamer_def)
    apply (simp add: NewEthBlockStreamer_def st_Nil)
    done
  have b: "st_run ?t [StDialRefused] ?u"
    by (rule dial_then [OF dial_refused, of _ Initial 1]) (auto simp: NewEthBlockStreamer_def intro: st_Nil)
  from streamer_stops [OF a _ b] have "\<exists>e s''. st_step ?u e s'' \<and> own_event e"
    by (simp add: goroutine_over_def NewEthBlockStreamer_def awaiting_node_def)
  with a b show ?thesis by blast
qed

section \<open>The steps of a connection attempt\<close>

text \<open>\<open>connectWithRetry\<close> as a function of the dial outcomes (in \<^verbatim>\<open>Streamer.thy\<close>) and as steps agree: while
  nothing is stopped, the steps with the same outcomes end connected or failed as the function says,
  and wait as often between the attempts.\<close>

definition waits_of :: "st_event list \<Rightarrow> nat" where
  "waits_of es = length (filter (\<lambda>e. e = StTimer) es)"

lemma connect_small_step:
  assumes "st_pc s = BeforeDial d a" and "st_ctx s = Some False" and "\<not> halted s" and "\<not> stop_panicked s"
    and "a + k = maxAttempts + 1" and "a \<le> maxAttempts" and "connect_loop k dial (\<lambda>n. Elapsed) a b = (r, ws)"
  shows "\<exists>es s'. st_run s es s' \<and> waits_of es = length ws \<and>
    (if r = Inr () then st_pc s' = Subscribing \<and> isConnected s' \<and> conn s' = Some (dialed s)
     else st_pc s' = ConnectFailed d \<and> conn s' = conn s)"
  using assms
proof (induction k arbitrary: a b s r ws)
  case 0
  then show ?case by simp
next
  case (Suc k)
  let ?in = "s\<lparr>st_pc := InDial d a\<rparr>" and ?failed = "s\<lparr>st_pc := DialFailed d a\<rparr>"
  note begin' = dial_then [OF dial_begin [OF Suc.prems(1,2)] Suc.prems(4)]
  show ?case
  proof (cases "dial a")
    case True
    let ?ok = "?in\<lparr>conn := Some (dialed s), isConnected := True, open_conns := open_conns s @ [dialed s],
      dialed := dialed s + 1, st_pc := Subscribing\<rparr>"
    have "st_run ?in [StDialOk] ?ok"
      using Suc.prems(4) dial_ok [of ?in d a] by (intro dial_then [OF _ _ st_Nil]) simp_all
    from begin' [OF this] show ?thesis using Suc.prems(7) True
      by (intro exI [of _ "[StDialBegin, StDialOk]"] exI [of _ ?ok]) (simp add: waits_of_def)
  next
    case False
    have fail: "st_run ?failed es t \<Longrightarrow> st_run s (StDialBegin # StDialFail # es) t" for es t
      using Suc.prems(4) dial_fail [of ?in d a] by (intro begin' dial_then [of ?in StDialFail ?failed]) simp_all
    show ?thesis
    proof (cases "a < maxAttempts")
      case True
      let ?wait = "s\<lparr>st_pc := RetryWait d a (second * 2 ^ (a - 1))\<rparr>" and ?next = "s\<lparr>st_pc := BeforeDial d (a + 1)\<rparr>"
      obtain ws' where ws: "connect_loop k dial (\<lambda>n. Elapsed) (a + 1) (b * 2) = (r, ws')" "ws = b # ws'"
        using Suc.prems(7) False True by (auto split: prod.splits)
      have "\<exists>es s'. st_run ?next es s' \<and> waits_of es = length ws' \<and>
        (if r = Inr () then st_pc s' = Subscribing \<and> isConnected s' \<and> conn s' = Some (dialed ?next)
         else st_pc s' = ConnectFailed d \<and> conn s' = conn ?next)"
        using Suc.prems True by (intro Suc.IH [OF _ _ _ _ _ _ ws(1)]) (simp_all add: halted_def)
      then obtain es t where t: "st_run ?next es t" "waits_of es = length ws'"
        "if r = Inr () then st_pc t = Subscribing \<and> isConnected t \<and> conn t = Some (dialed s)
         else st_pc t = ConnectFailed d \<and> conn t = conn s" by auto
      have "st_run ?wait (StTimer # es) t"
        using Suc.prems(3,4) retry_timer [of ?wait d a "second * 2 ^ (a - 1)"]
        by (intro dial_then [OF _ _ t(1)]) (simp_all add: halted_def)
      then have "st_run ?failed (StRetry # StTimer # es) t"
        using Suc.prems(4) True retry [of ?failed d a] by (intro dial_then [of ?failed StRetry ?wait]) simp_all
      with t ws(2) show ?thesis
        by (intro exI [of _ "StDialBegin # StDialFail # StRetry # StTimer # es"] exI [of _ t] conjI fail)
          (simp_all add: waits_of_def)
    next
      case last: False
      with Suc.prems(5,6) have "k = 0" by simp
      with Suc.prems(7) False last have r: "r = Inl MaxAttemptsExceeded" "ws = []" by simp_all
      have "st_run ?failed [StRetry] (s\<lparr>st_pc := ConnectFailed d\<rparr>)"
        using Suc.prems(4) last retry [of ?failed d a] by (intro dial_then [OF _ _ st_Nil]) simp_all
      with r show ?thesis
        by (intro exI [of _ "[StDialBegin, StDialFail, StRetry]"] exI [of _ "s\<lparr>st_pc := ConnectFailed d\<rparr>"] conjI fail)
          (simp_all add: waits_of_def)
    qed
  qed
qed

end
