(* ===== verification/Pipeline.thy ===== *)
theory Pipeline
  imports Streamer_Life Worker_Pool "HOL-Library.Sublist"
begin

text \<open>
  The flow of blocks through the process (\<^verbatim>\<open>cmd/server/main.go\<close>): the streamer, the goroutine of \<open>main\<close>
  that forwards its blocks, the worker pool, and \<open>main\<close> itself, which starts the streamer, waits
  for a signal and stops the pool before the streamer. A step of the flow is a step of one of them; the
  first two shutdown functions (the MCP server and the metrics) only matter when they fail.
\<close>

section \<open>State and steps\<close>

datatype forwarder = FwNotStarted | FwIdle | FwHas block | FwDone

text \<open>Where \<open>main\<close> is: starting the streamer, waiting for the signal, about to stop the pool, between
  closing its two channels, waiting for its workers, about to stop the streamer, returning from
  \<open>Shutdown\<close> with the given exit code (the other goroutines still run), gone.\<close>

datatype main_pc =
    MainStarting | MainServing | MainStopping | MainClosing | MainDraining | MainStreamer
  | MainReturning int | MainExit int

record flow =
  fl_streamer :: streamer
  fl_pool :: "block pool"
  fl_forward :: forwarder
  fl_main :: main_pc
  fl_loadtest :: bool

datatype flow_event =
    FlStreamer st_event
  | FlPool "block pool_event"
  | FlServe
  | FlSignal
  | FlForwardEnd
  | FlExit int

text \<open>\<open>Start\<close> of the streamer has not returned.\<close>

fun start_pending :: "stream_pc \<Rightarrow> bool" where
  "start_pending NotStarted \<longleftrightarrow> True"
| "start_pending (BeforeDial Initial a) \<longleftrightarrow> True"
| "start_pending (InDial Initial a) \<longleftrightarrow> True"
| "start_pending (DialFailed Initial a) \<longleftrightarrow> True"
| "start_pending (RetryWait Initial a b) \<longleftrightarrow> True"
| "start_pending (ConnectFailed Initial) \<longleftrightarrow> True"
| "start_pending pc \<longleftrightarrow> False"

definition flow_alive :: "flow \<Rightarrow> bool" where
  "flow_alive f \<longleftrightarrow> (\<forall>c. fl_main f \<noteq> MainExit c) \<and> \<not> crashed (fl_pool f)"

definition flow_init :: "int \<Rightarrow> bool \<Rightarrow> flow" where
  "flow_init n lt = \<lparr>fl_streamer = NewEthBlockStreamer, fl_pool = fst (Start n NewPool),
     fl_forward = FwNotStarted, fl_main = MainStarting, fl_loadtest = lt\<rparr>"

text \<open>The forwarding goroutine: \<open>range\<close> over the channel, \<open>Submit\<close>, and on an error the next block. A
  block it has taken may be at any point before the \<open>select\<close> of \<open>Submit\<close>.\<close>

inductive forward_step :: "flow \<Rightarrow> flow_event \<Rightarrow> flow \<Rightarrow> bool" where
  fw_receive: "fl_forward f = FwIdle \<Longrightarrow> st_step (fl_streamer f) (StReceived b) s' \<Longrightarrow>
    forward_step f (FlStreamer (StReceived b)) (f\<lparr>fl_streamer := s', fl_forward := FwHas b\<rparr>)"
| fw_end: "fl_forward f = FwIdle \<Longrightarrow> blocks_closed (fl_streamer f) \<Longrightarrow> buffered (fl_streamer f) = [] \<Longrightarrow>
    forward_step f FlForwardEnd (f\<lparr>fl_forward := FwDone\<rparr>)"
| fw_submit: "fl_forward f = FwHas b \<Longrightarrow> e \<in> {Submitted b, Refused b, SubmitPanicked b} \<Longrightarrow>
    submit_step (fl_pool f) e p' \<Longrightarrow>
    forward_step f (FlPool e) (f\<lparr>fl_pool := p', fl_forward := FwIdle\<rparr>)"

inductive main_step :: "flow \<Rightarrow> flow_event \<Rightarrow> flow \<Rightarrow> bool" where
  mn_serve: "fl_main f = MainStarting \<Longrightarrow> \<not> start_pending (st_pc (fl_streamer f)) \<Longrightarrow>
    st_pc (fl_streamer f) \<noteq> StartFailed \<or> fl_loadtest f \<Longrightarrow>
    main_step f FlServe (f\<lparr>fl_main := MainServing, fl_forward := FwIdle\<rparr>)"
| mn_fatal: "fl_main f = MainStarting \<Longrightarrow> st_pc (fl_streamer f) = StartFailed \<Longrightarrow> \<not> fl_loadtest f \<Longrightarrow>
    main_step f (FlExit 1) (f\<lparr>fl_main := MainExit 1\<rparr>)"
| mn_signal: "fl_main f = MainServing \<Longrightarrow> main_step f FlSignal (f\<lparr>fl_main := MainStopping\<rparr>)"
| mn_abort: "fl_main f = MainStopping \<Longrightarrow> main_step f (FlExit 1) (f\<lparr>fl_main := MainExit 1\<rparr>)"
| mn_close_stop: "fl_main f = MainStopping \<Longrightarrow> stop_step (fl_pool f) StopSignalled p' \<Longrightarrow>
    main_step f (FlPool StopSignalled) (f\<lparr>fl_pool := p', fl_main := MainClosing\<rparr>)"
| mn_close_blocks: "fl_main f = MainClosing \<Longrightarrow> stop_step (fl_pool f) ChannelClosed p' \<Longrightarrow>
    main_step f (FlPool ChannelClosed) (f\<lparr>fl_pool := p', fl_main := MainDraining\<rparr>)"
| mn_drained: "fl_main f = MainDraining \<Longrightarrow> stop_step (fl_pool f) StopReturned p' \<Longrightarrow>
    main_step f (FlPool StopReturned) (f\<lparr>fl_pool := p', fl_main := MainStreamer\<rparr>)"
| mn_timeout: "fl_main f = MainDraining \<Longrightarrow> stop_step (fl_pool f) StopTimedOut p' \<Longrightarrow>
    main_step f (FlPool StopTimedOut) (f\<lparr>fl_pool := p', fl_main := MainReturning 1\<rparr>)"
| mn_stop: "fl_main f = MainStreamer \<Longrightarrow> st_step (fl_streamer f) StStop s' \<Longrightarrow> c = 0 \<or> c = 1 \<Longrightarrow>
    main_step f (FlStreamer StStop) (f\<lparr>fl_streamer := s', fl_main := MainReturning c\<rparr>)"
| mn_exit: "fl_main f = MainReturning c \<Longrightarrow> main_step f (FlExit c) (f\<lparr>fl_main := MainExit c\<rparr>)"

inductive flow_step :: "flow \<Rightarrow> flow_event \<Rightarrow> flow \<Rightarrow> bool" where
  fl_stream: "flow_alive f \<Longrightarrow> st_step (fl_streamer f) e s' \<Longrightarrow> \<not> outer_event e \<Longrightarrow>
    flow_step f (FlStreamer e) (f\<lparr>fl_streamer := s'\<rparr>)"
| fl_forwarding: "flow_alive f \<Longrightarrow> forward_step f e f' \<Longrightarrow> flow_step f e f'"
| fl_work: "flow_alive f \<Longrightarrow> worker_step (fl_pool f) e p' \<Longrightarrow> flow_step f (FlPool e) (f\<lparr>fl_pool := p'\<rparr>)"
| fl_mainly: "flow_alive f \<Longrightarrow> main_step f e f' \<Longrightarrow> flow_step f e f'"

inductive flow_run :: "flow \<Rightarrow> flow_event list \<Rightarrow> flow \<Rightarrow> bool" where
  fl_Nil: "flow_run f [] f"
| fl_snoc: "flow_run f es f' \<Longrightarrow> flow_step f' e f'' \<Longrightarrow> flow_run f (es @ [e]) f''"

interpretation flow_runs: labelled_runs flow_step flow_run
proof
  show "flow_run s [] s" for s by (rule fl_Nil)
  show "flow_run s (es @ [e]) u" if "flow_run s es t" "flow_step t e u" for s es t e u
    using that by (rule fl_snoc)
  show "P es t" if "flow_run s es t" "P [] s"
    "\<And>ds u e v. flow_run s ds u \<Longrightarrow> P ds u \<Longrightarrow> flow_step u e v \<Longrightarrow> P (ds @ [e]) v" for s es t P
    using that by (induction rule: flow_run.induct) blast+
qed

inductive_cases forward_stepE: "forward_step f e f'"
inductive_cases main_stepE: "main_step f e f'"
inductive_cases flow_stepE: "flow_step f e f'"

section \<open>The components inside the flow\<close>

fun st_event_of :: "flow_event \<Rightarrow> st_event list" where
  "st_event_of (FlStreamer e) = [e]"
| "st_event_of e = []"

fun pool_event_of :: "flow_event \<Rightarrow> block pool_event list" where
  "pool_event_of (FlPool e) = [e]"
| "pool_event_of e = []"

definition st_events :: "flow_event list \<Rightarrow> st_event list" where
  "st_events es = concat (map st_event_of es)"

definition pool_events :: "flow_event list \<Rightarrow> block pool_event list" where
  "pool_events es = concat (map pool_event_of es)"

lemma events_simps [simp]:
  "st_events [] = []" "st_events (es @ [e]) = st_events es @ st_event_of e"
  "pool_events [] = []" "pool_events (es @ [e]) = pool_events es @ pool_event_of e"
  by (simp_all add: st_events_def pool_events_def)

text \<open>Each step of the flow is one step of the streamer or none, and one step of the pool or none.\<close>

lemma flow_step_streamer:
  "flow_step f e f' \<Longrightarrow> (st_event_of e = [] \<and> fl_streamer f' = fl_streamer f) \<or>
     (\<exists>x. st_event_of e = [x] \<and> st_step (fl_streamer f) x (fl_streamer f'))"
  by (erule flow_stepE) (auto elim!: forward_stepE main_stepE)

lemma flow_step_pool:
  "flow_step f e f' \<Longrightarrow> (pool_event_of e = [] \<and> fl_pool f' = fl_pool f) \<or>
     (\<exists>x. pool_event_of e = [x] \<and> pool_step (fl_pool f) x (fl_pool f'))"
  by (erule flow_stepE)
    (auto elim!: forward_stepE main_stepE simp: flow_alive_def intro: pool_step.submit pool_step.stop pool_step.work)

lemma flow_projects:
  "flow_run f0 es f \<Longrightarrow> f0 = flow_init n lt \<Longrightarrow> 1 \<le> n \<Longrightarrow> n \<le> 256 \<Longrightarrow>
     st_run NewEthBlockStreamer (st_events es) (fl_streamer f) \<and>
     pool_run NewPool (PoolStarted n # pool_events es) (fl_pool f)"
proof (induction rule: flow_run.induct)
  case (fl_Nil f)
  have "pool_run NewPool ([] @ [PoolStarted n]) (fst (Start n NewPool))"
    using fl_Nil by (intro run_snoc [OF run_Nil] pool_step.start) (simp_all add: NewPool_def Start_def)
  with fl_Nil show ?case by (simp add: flow_init_def st_Nil)
next
  case (fl_snoc f es f' e f'')
  then have s: "st_run NewEthBlockStreamer (st_events es) (fl_streamer f')"
    and p: "pool_run NewPool (PoolStarted n # pool_events es) (fl_pool f')" by simp_all
  have "st_run NewEthBlockStreamer (st_events (es @ [e])) (fl_streamer f'')"
    using flow_step_streamer [OF fl_snoc(2)] s by (auto intro: st_snoc)
  moreover have "pool_run NewPool (PoolStarted n # pool_events (es @ [e])) (fl_pool f'')"
    using flow_step_pool [OF fl_snoc(2)] p by (auto simp flip: append_Cons intro: run_snoc)
  ultimately show ?case by simp
qed

section \<open>Invariant\<close>

text \<open>What \<open>Submit\<close> was called with, whatever became of it, and what the forwarder has in hand.\<close>

fun handed_of :: "block pool_event \<Rightarrow> block list" where
  "handed_of (Submitted b) = [b]"
| "handed_of (Refused b) = [b]"
| "handed_of (SubmitPanicked b) = [b]"
| "handed_of e = []"

fun in_hand :: "forwarder \<Rightarrow> block list" where
  "in_hand (FwHas b) = [b]"
| "in_hand w = []"

definition hand_inv :: "flow_event list \<Rightarrow> flow \<Rightarrow> bool" where
  "hand_inv es f \<longleftrightarrow>
     received_blocks (st_events es) = seen handed_of (pool_events es) @ in_hand (fl_forward f) \<and>
     (\<not> stop_closed (fl_pool f) \<longrightarrow> seen handed_of (pool_events es) = seen submitted_of (pool_events es)) \<and>
     subseq (seen submitted_of (pool_events es)) (seen handed_of (pool_events es))"

definition main_inv :: "flow_event list \<Rightarrow> flow \<Rightarrow> bool" where
  "main_inv es f \<longleftrightarrow>
     (fl_main f = MainStarting \<longrightarrow> fl_forward f = FwNotStarted) \<and>
     (stop_closed (fl_pool f) \<longrightarrow> fl_main f \<notin> {MainStarting, MainServing, MainStopping}) \<and>
     (chan_closed (fl_pool f) \<longrightarrow> stop_closed (fl_pool f) \<and> fl_main f \<noteq> MainClosing) \<and>
     (stopCh_closed (fl_streamer f) \<longrightarrow> (\<exists>c. fl_main f = MainReturning c \<or> fl_main f = MainExit c)) \<and>
     (crashed (fl_pool f) \<longrightarrow> chan_closed (fl_pool f) \<and> (\<forall>c. fl_main f \<noteq> MainExit c) \<and>
        (\<exists>ds b. es = ds @ [FlPool (SubmitPanicked b)])) \<and> \<not> stop_panicked (fl_streamer f)"

lemma received_snoc [simp]:
  "received_blocks (es @ [e]) = received_blocks es @ (case e of StReceived b \<Rightarrow> [b] | _ \<Rightarrow> [])"
  "received_blocks [] = []"
  by (simp_all add: received_blocks_def)

lemma worker_keeps:
  "worker_step p e p' \<Longrightarrow> stop_closed p' = stop_closed p \<and> chan_closed p' = chan_closed p \<and>
     crashed p' = crashed p \<and> handed_of e = [] \<and> submitted_of e = []"
  by (erule worker_stepE) simp_all

lemma streamer_keeps:
  "st_step s e s' \<Longrightarrow> \<not> outer_event e \<Longrightarrow> stopCh_closed s' = stopCh_closed s \<and> stop_panicked s' = stop_panicked s \<and>
     (case e of StReceived b \<Rightarrow> [b] | _ \<Rightarrow> []) = ([] :: block list)"
  by (erule st_step.cases) (auto elim!: start_stepE dial_stepE stream_stepE outer_stepE)

lemma streamer_receives:
  "st_step s (StReceived b) s' \<Longrightarrow> stopCh_closed s' = stopCh_closed s \<and> stop_panicked s' = stop_panicked s"
  by (erule st_step.cases) (auto elim!: start_stepE dial_stepE stream_stepE outer_stepE)

lemma streamer_stopped: "st_step s StStop s' \<Longrightarrow> stop_panicked s' = stop_panicked s"
  by (erule st_step.cases) (auto elim!: start_stepE dial_stepE stream_stepE outer_stepE)

lemma subseq_snoc:
  "subseq xs ys \<Longrightarrow> subseq (xs @ [b]) (ys @ [b])" "subseq xs ys \<Longrightarrow> subseq xs (ys @ [b])"
  by (rule list_emb_append_mono, assumption, simp) (rule subseq_rev_drop_many)

lemma forward_hand:
  assumes "hand_inv es f" and "main_inv es f" and "forward_step f e f'"
  shows "hand_inv (es @ [e]) f'"
  using assms(3)
proof cases
  case (fw_submit b x p')
  have stop: "stop_closed p' = stop_closed (fl_pool f)" and refused: "x \<noteq> Submitted b \<Longrightarrow> stop_closed (fl_pool f)"
    using fw_submit(4,5) assms(2) by (auto elim!: submit_stepE simp: main_inv_def)
  from fw_submit(4) consider "x = Submitted b" | "x = Refused b" | "x = SubmitPanicked b" by auto
  then show ?thesis
    by cases (use assms(1) fw_submit stop refused in \<open>simp_all add: hand_inv_def subseq_snoc\<close>)
qed (use assms(1) in \<open>simp_all add: hand_inv_def\<close>)

lemma main_hand:
  assumes "hand_inv es f" and "main_inv es f" and "main_step f e f'"
  shows "hand_inv (es @ [e]) f'"
  using assms(3)
proof cases
  case (mn_close_stop p')
  then show ?thesis using assms(1) by (auto simp: hand_inv_def elim!: stop_stepE)
next
  case (mn_close_blocks p')
  then show ?thesis using assms(1) by (auto simp: hand_inv_def elim!: stop_stepE)
next
  case (mn_drained p')
  then show ?thesis using assms(1) by (auto simp: hand_inv_def elim!: stop_stepE)
next
  case (mn_timeout p')
  then show ?thesis using assms(1) by (auto simp: hand_inv_def elim!: stop_stepE)
qed (use assms(1,2) in \<open>simp_all add: hand_inv_def main_inv_def\<close>)

lemma flow_hand:
  assumes "hand_inv es f" and "main_inv es f" and "flow_step f e f'"
  shows "hand_inv (es @ [e]) f'"
  using assms(3)
proof cases
  case (fl_stream x s')
  with streamer_keeps [OF fl_stream(4,5)] assms(1) show ?thesis by (simp add: hand_inv_def)
next
  case fl_forwarding
  with forward_hand [OF assms(1,2)] show ?thesis by blast
next
  case (fl_work x p')
  with worker_keeps [OF fl_work(4)] assms(1) show ?thesis by (simp add: hand_inv_def)
next
  case fl_mainly
  with main_hand [OF assms(1,2)] show ?thesis by blast
qed

lemma forward_main:
  assumes "main_inv es f" and "flow_alive f" and "forward_step f e f'"
  shows "main_inv (es @ [e]) f'"
  using assms(3)
proof cases
  case (fw_receive s' b)
  with streamer_receives [OF fw_receive(4)] assms(1,2) show ?thesis by (auto simp: main_inv_def flow_alive_def)
next
  case fw_end
  with assms(1,2) show ?thesis by (auto simp: main_inv_def flow_alive_def)
next
  case (fw_submit b x p')
  have "fl_main f \<noteq> MainStarting" using assms(1) fw_submit(3) by (auto simp: main_inv_def)
  with fw_submit(4,5) show ?thesis
    using assms(1,2) fw_submit(1,2) by (auto simp: main_inv_def flow_alive_def elim!: submit_stepE)
qed

lemma main_main:
  assumes "main_inv es f" and "flow_alive f" and "main_step f e f'"
  shows "main_inv (es @ [e]) f'"
  using assms(3)
proof cases
  case (mn_close_stop p')
  then show ?thesis using assms(1,2) by (auto simp: main_inv_def flow_alive_def elim!: stop_stepE)
next
  case (mn_close_blocks p')
  then show ?thesis using assms(1,2) by (auto simp: main_inv_def flow_alive_def elim!: stop_stepE)
next
  case (mn_drained p')
  then show ?thesis using assms(1,2) by (auto simp: main_inv_def flow_alive_def elim!: stop_stepE)
next
  case (mn_timeout p')
  then show ?thesis using assms(1,2) by (auto simp: main_inv_def flow_alive_def elim!: stop_stepE)
next
  case (mn_stop s' c)
  with streamer_stopped [OF mn_stop(4)] show ?thesis using assms(1,2) by (auto simp: main_inv_def flow_alive_def)
qed (use assms(1,2) in \<open>auto simp: main_inv_def flow_alive_def\<close>)

lemma flow_main:
  assumes "main_inv es f" and "flow_step f e f'"
  shows "main_inv (es @ [e]) f'"
  using assms(2)
proof cases
  case (fl_stream x s')
  with streamer_keeps [OF fl_stream(4,5)] assms(1) show ?thesis by (auto simp: main_inv_def flow_alive_def)
next
  case fl_forwarding
  with forward_main [OF assms(1)] show ?thesis by blast
next
  case (fl_work x p')
  with worker_keeps [OF fl_work(4)] assms(1) show ?thesis by (auto simp: main_inv_def flow_alive_def)
next
  case fl_mainly
  with main_main [OF assms(1)] show ?thesis by blast
qed

lemma flow_inv: "flow_run f0 es f \<Longrightarrow> f0 = flow_init n lt \<Longrightarrow> hand_inv es f \<and> main_inv es f"
proof (induction rule: flow_run.induct)
  case (fl_Nil f)
  then show ?case
    by (simp add: hand_inv_def main_inv_def flow_init_def NewEthBlockStreamer_def Start_def NewPool_def)
next
  case (fl_snoc f es f' e f'')
  then have "hand_inv es f'" "main_inv es f'" by simp_all
  with fl_snoc(2) show ?case using flow_hand flow_main by blast
qed

section \<open>Blocks on their way\<close>

lemma flow_numWorkers: "flow_run f0 es f \<Longrightarrow> numWorkers (fl_pool f) = numWorkers (fl_pool f0)"
  by (erule flow_runs.runs_keep)
    (auto elim!: flow_stepE forward_stepE main_stepE worker_stepE submit_stepE stop_stepE)

lemma started_pool:
  "1 \<le> n \<Longrightarrow> n \<le> 256 \<Longrightarrow> fst (Start n NewPool) = NewPool\<lparr>numWorkers := n, blocks := Some [], wg := n,
     workers := replicate (nat n) Fresh\<rparr>"
  by (simp add: Start_def NewPool_def)

text \<open>C9: no block is lost between the node and the workers until a shutdown begins. In every reachable
  state the blocks the streamer sent are, in order, those that were handed to the pool, the one in
  the hands of the forwarder and those in the channel; the workers received, and the queue holds, a
  subsequence of them; while the pool is not being stopped they are all there, and at most \<open>2n + 101\<close>
  are on their way to the workers.\<close>

theorem pipeline_blocks:
  assumes "flow_run (flow_init n lt) es f" and "1 \<le> n" and "n \<le> 256"
  defines "snt \<equiv> sent_blocks (st_events es)" and "got \<equiv> seen received_of (pool_events es)"
    and "bs \<equiv> in_hand (fl_forward f) @ buffered (fl_streamer f)"
  shows "snt = seen handed_of (pool_events es) @ bs \<and>
    subseq (got @ pool_queue (fl_pool f)) snt \<and>
    (\<not> stop_closed (fl_pool f) \<longrightarrow> snt = got @ pool_queue (fl_pool f) @ bs \<and> int (length snt) \<le> int (length got) + 2 * n + 101)"
proof -
  note pr = flow_projects [OF assms(1) refl assms(2,3)]
  have st: "chan_inv (st_events es) (fl_streamer f)" using streamer_inv [OF pr [THEN conjunct1]] by simp
  have q: "seen submitted_of (pool_events es) = got @ pool_queue (fl_pool f)"
    "int (length (pool_queue (fl_pool f))) \<le> 2 * numWorkers (fl_pool f)"
    using pool_inv_run [OF pr [THEN conjunct2] refl]
    by (simp_all add: pool_inv_def queue_inv_def got_def) (simp_all add: seen_def)
  have n: "numWorkers (fl_pool f) = n"
    using flow_numWorkers [OF assms(1)] assms(2,3) by (simp add: flow_init_def started_pool)
  have h: "hand_inv es f" using flow_inv [OF assms(1) refl] by simp
  have all: "snt = seen handed_of (pool_events es) @ bs"
    using st h by (simp add: chan_inv_def hand_inv_def snt_def bs_def)
  have "length (in_hand (fl_forward f)) \<le> 1" by (cases "fl_forward f") simp_all
  moreover have "length (buffered (fl_streamer f)) \<le> 100" using st by (simp add: chan_inv_def)
  ultimately have bs: "length bs \<le> 101" by (simp add: bs_def)
  have "snt = got @ pool_queue (fl_pool f) @ bs \<and> int (length snt) \<le> int (length got) + 2 * n + 101"
    if "\<not> stop_closed (fl_pool f)"
    using that h q n bs unfolding all by (simp add: hand_inv_def)
  moreover have "subseq (got @ pool_queue (fl_pool f)) snt"
    using h unfolding all q(1) [symmetric] by (simp add: hand_inv_def subseq_rev_drop_many)
  ultimately show ?thesis using all by blast
qed

section \<open>A shutdown that crashes\<close>

lemmas flow_then = flow_runs.runs_cons

lemma start_now:
    "start_step (fl_streamer f) e s' \<Longrightarrow> flow_alive f \<Longrightarrow> \<not> outer_event e \<Longrightarrow> \<not> stop_panicked (fl_streamer f) \<Longrightarrow>
     flow_run (f\<lparr>fl_streamer := s'\<rparr>) es h \<Longrightarrow> flow_run f (FlStreamer e # es) h"
  and dial_now:
    "dial_step (fl_streamer f) e s' \<Longrightarrow> flow_alive f \<Longrightarrow> \<not> outer_event e \<Longrightarrow> \<not> stop_panicked (fl_streamer f) \<Longrightarrow>
     flow_run (f\<lparr>fl_streamer := s'\<rparr>) es h \<Longrightarrow> flow_run f (FlStreamer e # es) h"
  and stream_now:
    "stream_step (fl_streamer f) e s' \<Longrightarrow> flow_alive f \<Longrightarrow> \<not> outer_event e \<Longrightarrow> \<not> stop_panicked (fl_streamer f) \<Longrightarrow>
     flow_run (f\<lparr>fl_streamer := s'\<rparr>) es h \<Longrightarrow> flow_run f (FlStreamer e # es) h"
  and forward_now:
    "forward_step f x g \<Longrightarrow> flow_alive f \<Longrightarrow> flow_run g es h \<Longrightarrow> flow_run f (x # es) h"
  and main_now:
    "main_step f x g \<Longrightarrow> flow_alive f \<Longrightarrow> flow_run g es h \<Longrightarrow> flow_run f (x # es) h"
  by (blast intro: flow_then flow_step.intros st_step.intros)+

text \<open>A block is on its way when the signal comes; the forwarder calls \<open>Submit\<close> after \<open>Stop\<close> of the pool
  closed its channels.\<close>

definition crash_block :: block where
  "crash_block = \<lparr>Number = 16, ParentHash = replicate 32 0, Timestamp = 1, Transactions = []\<rparr>"

definition hold_trace :: "flow_event list" where
  "hold_trace = [FlStreamer StStart, FlStreamer StDialBegin, FlStreamer StDialOk, FlServe, FlStreamer StSubscribed,
     FlStreamer (StBlock crash_block), FlStreamer (StSent crash_block), FlStreamer (StReceived crash_block),
     FlSignal, FlPool StopSignalled, FlPool ChannelClosed]"

definition hold_flow :: "int \<Rightarrow> bool \<Rightarrow> flow" where
  "hold_flow n lt = \<lparr>fl_streamer = \<lparr>conn = Some 0, isConnected = True, open_conns = [0], dialed = 1,
        stopCh_closed = False, st_ctx = Some False, buffered = [], blocks_closed = False, st_pc = Reading,
        stop_panicked = False\<rparr>,
     fl_pool = NewPool\<lparr>numWorkers := n, blocks := Some [], wg := n, workers := replicate (nat n) Fresh,
        stop_closed := True, chan_closed := True\<rparr>,
     fl_forward = FwHas crash_block, fl_main = MainDraining, fl_loadtest = lt\<rparr>"

definition crash_trace :: "flow_event list" where
  "crash_trace = hold_trace @ [FlPool (SubmitPanicked crash_block)]"

lemmas flow_norm = flow.simps streamer.simps pool.simps

lemma hold_run:
  assumes "1 \<le> n" and "n \<le> 256"
  shows "flow_run (flow_init n lt) hold_trace (hold_flow n lt)"
  unfolding hold_trace_def hold_flow_def flow_init_def started_pool [OF assms]
  unfolding NewEthBlockStreamer_def NewPool_def
  apply (rule start_now [OF st_start], simp, simp add: flow_alive_def, simp, simp)
  apply (simp only: flow_norm)
  apply (rule dial_now [OF dial_begin], simp, simp, simp add: flow_alive_def, simp, simp)
  apply (simp only: flow_norm)
  apply (rule dial_now [OF dial_ok], simp, simp add: flow_alive_def, simp, simp)
  apply (simp only: flow_norm)
  apply (rule main_now [OF mn_serve], simp, simp, simp, simp add: flow_alive_def)
  apply (simp only: flow_norm)
  apply (rule stream_now [OF subscribed], simp, simp add: conn_open_def, simp add: flow_alive_def, simp, simp)
  apply (simp only: flow_norm)
  apply (rule stream_now [OF read_block], simp, simp add: halted_def,
      simp add: crash_block_def streamer_validateBlock_def, simp add: flow_alive_def, simp, simp)
  apply (simp only: flow_norm)
  apply (rule stream_now [OF sent], simp, simp, simp add: flow_alive_def, simp, simp)
  apply (simp only: flow_norm)
  apply (rule forward_now [OF fw_receive], simp, rule st_step.outer, simp, rule received, simp,
      simp add: flow_alive_def)
  apply (simp only: flow_norm)
  apply (rule main_now [OF mn_signal], simp, simp add: flow_alive_def)
  apply (simp only: flow_norm)
  apply (rule main_now [OF mn_close_stop], simp, rule close_stop, simp, simp add: flow_alive_def)
  apply (simp only: flow_norm)
  apply (rule main_now [OF mn_close_blocks], simp, rule close_blocks, simp, simp, simp, simp add: flow_alive_def)
  apply (simp add: fl_Nil)
  done

text \<open>A forwarder that holds a block while the channel of the pool is closed can crash the process.\<close>

lemma forward_crash:
  assumes "flow_run f0 es f" and "flow_alive f" and "fl_forward f = FwHas b" and "chan_closed (fl_pool f)"
  shows "\<exists>g. flow_run f0 (es @ [FlPool (SubmitPanicked b)]) g \<and> crashed (fl_pool g) \<and> fl_streamer g = fl_streamer f"
proof -
  from assms(4) have "submit_step (fl_pool f) (SubmitPanicked b) ((fl_pool f)\<lparr>crashed := True\<rparr>)" by (rule send_closed)
  then have "forward_step f (FlPool (SubmitPanicked b)) (f\<lparr>fl_pool := (fl_pool f)\<lparr>crashed := True\<rparr>, fl_forward := FwIdle\<rparr>)"
    by (intro fw_submit [OF assms(3)]) simp_all
  from fl_snoc [OF assms(1) fl_forwarding [OF assms(2) this]] show ?thesis
    by (intro exI [of _ "f\<lparr>fl_pool := (fl_pool f)\<lparr>crashed := True\<rparr>, fl_forward := FwIdle\<rparr>"]) simp
qed

lemma crash_run:
  assumes "1 \<le> n" and "n \<le> 256"
  shows "\<exists>f. flow_run (flow_init n lt) crash_trace f \<and> crashed (fl_pool f) \<and> \<not> stopCh_closed (fl_streamer f)"
proof -
  have "\<exists>g. flow_run (flow_init n lt) (hold_trace @ [FlPool (SubmitPanicked crash_block)]) g \<and>
      crashed (fl_pool g) \<and> fl_streamer g = fl_streamer (hold_flow n lt)"
    by (rule forward_crash [OF hold_run [OF assms]]) (simp_all add: hold_flow_def flow_alive_def NewPool_def)
  then show ?thesis by (auto simp: crash_trace_def hold_flow_def)
qed

text \<open>Or all workers exit first, \<open>Stop\<close> of the pool returns, and the streamer is stopped too.\<close>

lemma workers_flow:
  "worker_run p ws p' \<Longrightarrow> fl_pool f = p \<Longrightarrow> flow_alive f \<Longrightarrow>
     flow_run f (map FlPool ws) (f\<lparr>fl_pool := p'\<rparr>) \<and> \<not> crashed p' \<and> chan_closed p' = chan_closed p"
proof (induction rule: worker_run.induct)
  case (wrun_Nil p)
  then have "f\<lparr>fl_pool := p\<rparr> = f" by (cases f) simp
  then have "flow_run f [] (f\<lparr>fl_pool := p\<rparr>)" by (metis fl_Nil)
  with wrun_Nil show ?case by (auto simp: flow_alive_def)
next
  case (wrun_snoc p es p' e p'')
  have "flow_alive (f\<lparr>fl_pool := p'\<rparr>)" using wrun_snoc by (simp add: flow_alive_def)
  from fl_work [OF this] have "flow_step (f\<lparr>fl_pool := p'\<rparr>) (FlPool e) (f\<lparr>fl_pool := p''\<rparr>)"
    using wrun_snoc.hyps(2) by (metis flow.select_convs(2) flow.simps(7) flow.surjective flow.update_convs(2))
  with wrun_snoc worker_step_frame [OF wrun_snoc.hyps(2)] show ?case by (auto intro: flow_run.fl_snoc)
qed

lemma workers_never_time_out: "worker_run p ws p' \<Longrightarrow> StopTimedOut \<notin> set ws"
  by (induction rule: worker_run.induct) (auto elim: worker_stepE)

lemma late_crash_run:
  assumes "1 \<le> n" and "n \<le> 256"
  shows "\<exists>ws g. flow_run (flow_init n lt) (hold_trace @ map FlPool ws @
      [FlPool StopReturned, FlStreamer StStop, FlPool (SubmitPanicked crash_block)]) g \<and>
    crashed (fl_pool g) \<and> stopCh_closed (fl_streamer g) \<and> StopTimedOut \<notin> set ws"
proof -
  let ?f = "hold_flow n lt"
  have alive: "flow_alive ?f" by (simp add: hold_flow_def flow_alive_def NewPool_def)
  obtain ws p where p: "worker_run (fl_pool ?f) ws p" "\<forall>w\<in>set (workers p). w = Exited"
    using worker_run_ends [OF wrun_Nil, of "fl_pool ?f"] by (auto simp: hold_flow_def)
  let ?g = "?f\<lparr>fl_pool := p\<rparr>"
  from workers_flow [OF p(1) refl alive] have w: "flow_run ?f (map FlPool ws) ?g" "\<not> crashed p" "chan_closed p"
    by (simp_all add: hold_flow_def)
  note run = flow_runs.runs_append [OF w(1) hold_run [OF assms]]
  have "worker_inv p"
    using pool_inv_run [OF flow_projects [OF run refl assms, THEN conjunct2] refl] by (simp add: pool_inv_def)
  moreover have "workers p = replicate (length (workers p)) Exited" using p(2) by (simp add: replicate_eqI)
  then have "pcs pc_live p = 0" unfolding pcs_def by (metis map_replicate pc_live.simps(1) sum_list_rep mult_zero_right)
  ultimately have "stop_step p StopReturned p" using w(3) by (intro wait_done) (simp_all add: worker_inv_def)
  then have "main_step ?g (FlPool StopReturned) (?g\<lparr>fl_pool := p, fl_main := MainStreamer\<rparr>)"
    by (intro mn_drained) (simp_all add: hold_flow_def)
  moreover have "flow_alive ?g" using alive w(2) by (simp add: flow_alive_def)
  ultimately have drained: "flow_step ?g (FlPool StopReturned) (?g\<lparr>fl_main := MainStreamer\<rparr>)"
    using fl_mainly by simp
  let ?h = "?g\<lparr>fl_main := MainStreamer\<rparr>"
  let ?s = "(fl_streamer ?f)\<lparr>stopCh_closed := True, st_ctx := Some True, isConnected := False, open_conns := []\<rparr>"
  have "st_step (fl_streamer ?h) StStop ?s"
    using st_step.outer [OF _ outer_step.stop, of "fl_streamer ?f"] by (simp add: hold_flow_def)
  then have "main_step ?h (FlStreamer StStop) (?h\<lparr>fl_streamer := ?s, fl_main := MainReturning 0\<rparr>)"
    by (intro mn_stop) simp_all
  moreover have "flow_alive ?h" using w(2) by (simp add: flow_alive_def)
  ultimately have stopped: "flow_step ?h (FlStreamer StStop) (?h\<lparr>fl_streamer := ?s, fl_main := MainReturning 0\<rparr>)"
    using fl_mainly by blast
  note run' = fl_snoc [OF fl_snoc [OF run drained] stopped]
  have "\<exists>g. flow_run (flow_init n lt) ((((hold_trace @ map FlPool ws) @ [FlPool StopReturned]) @ [FlStreamer StStop]) @
      [FlPool (SubmitPanicked crash_block)]) g \<and> crashed (fl_pool g) \<and> fl_streamer g = ?s"
    using forward_crash [OF run', of crash_block] w(2,3) by (simp add: flow_alive_def hold_flow_def)
  with workers_never_time_out [OF p(1)] show ?thesis by (intro exI [of _ ws]) auto
qed

text \<open>C10: how the process can crash. A crash is always a \<open>Submit\<close> of the forwarder, of a block the streamer
  had sent, after \<open>main\<close> received a signal and closed the channel of the pool; it is the last thing that
  happens, and \<open>main\<close> is then waiting for the workers, about to stop the streamer, or returning from
  \<open>Shutdown\<close>. And it does happen, before the streamer is stopped and also after: for every number of
  workers an orderly shutdown, in which no shutdown function failed, can end so either way.\<close>

theorem shutdown_crash:
  assumes "flow_run (flow_init n lt) es f" and "1 \<le> n" and "n \<le> 256"
  shows "(crashed (fl_pool f) \<longrightarrow>
      (\<exists>ds b. es = ds @ [FlPool (SubmitPanicked b)] \<and> b \<in> set (sent_blocks (st_events es))) \<and>
      fl_main f \<in> {MainDraining, MainStreamer} \<union> range MainReturning) \<and>
    (\<forall>stopped. \<exists>gs g. flow_run (flow_init n lt) gs g \<and> crashed (fl_pool g) \<and> FlSignal \<in> set gs \<and>
      FlPool StopTimedOut \<notin> set gs \<and> (\<forall>c. FlExit c \<notin> set gs) \<and> stopCh_closed (fl_streamer g) = stopped)"
proof
  have m: "main_inv es f" and h: "hand_inv es f" using flow_inv [OF assms(1) refl] by simp_all
  have st: "chan_inv (st_events es) (fl_streamer f)"
    using streamer_inv [OF flow_projects [OF assms(1) refl assms(2,3), THEN conjunct1]] by simp
  have "b \<in> set (sent_blocks (st_events es))" if "es = ds @ [FlPool (SubmitPanicked b)]" for ds b
    using h st that by (simp add: hand_inv_def chan_inv_def)
  moreover have "fl_main f \<in> {MainDraining, MainStreamer} \<union> range MainReturning" if "crashed (fl_pool f)"
    using m that by (cases "fl_main f") (auto simp: main_inv_def)
  ultimately show "crashed (fl_pool f) \<longrightarrow>
      (\<exists>ds b. es = ds @ [FlPool (SubmitPanicked b)] \<and> b \<in> set (sent_blocks (st_events es))) \<and>
      fl_main f \<in> {MainDraining, MainStreamer} \<union> range MainReturning"
    using m by (auto simp: main_inv_def)
  obtain g where g: "flow_run (flow_init n lt) crash_trace g" "crashed (fl_pool g)" "\<not> stopCh_closed (fl_streamer g)"
    using crash_run [OF assms(2,3), of lt] by blast
  obtain ws h where w: "flow_run (flow_init n lt) (hold_trace @ map FlPool ws @
      [FlPool StopReturned, FlStreamer StStop, FlPool (SubmitPanicked crash_block)]) h"
    "crashed (fl_pool h)" "stopCh_closed (fl_streamer h)" "StopTimedOut \<notin> set ws"
    using late_crash_run [OF assms(2,3), of lt] by blast
  show "\<forall>stopped. \<exists>gs g. flow_run (flow_init n lt) gs g \<and> crashed (fl_pool g) \<and> FlSignal \<in> set gs \<and>
      FlPool StopTimedOut \<notin> set gs \<and> (\<forall>c. FlExit c \<notin> set gs) \<and> stopCh_closed (fl_streamer g) = stopped"
  proof
    fix stopped
    show "\<exists>gs g. flow_run (flow_init n lt) gs g \<and> crashed (fl_pool g) \<and> FlSignal \<in> set gs \<and>
      FlPool StopTimedOut \<notin> set gs \<and> (\<forall>c. FlExit c \<notin> set gs) \<and> stopCh_closed (fl_streamer g) = stopped"
    proof (cases stopped)
      case True
      have "FlSignal \<in> set hold_trace" "FlPool StopTimedOut \<notin> set hold_trace" "FlExit c \<notin> set hold_trace" for c
        by (simp_all add: hold_trace_def)
      with w True show ?thesis by (intro exI [of _ "hold_trace @ map FlPool ws @
          [FlPool StopReturned, FlStreamer StStop, FlPool (SubmitPanicked crash_block)]"] exI [of _ h]) auto
    next
      case False
      with g show ?thesis by (intro exI [of _ crash_trace] exI [of _ g]) (simp add: crash_trace_def hold_trace_def)
    qed
  qed
qed

theorem shutdown_crash_witness:
  "\<exists>f. flow_run (flow_init 4 False) crash_trace f \<and> fl_main f \<in> {MainDraining, MainStreamer} \<union> range MainReturning \<and>
     crash_block \<in> set (sent_blocks (st_events crash_trace))"
proof -
  obtain f where f: "flow_run (flow_init 4 False) crash_trace f" "crashed (fl_pool f)"
    using crash_run [of 4 False] by auto
  from shutdown_crash [OF f(1)] f(2)
  have "fl_main f \<in> {MainDraining, MainStreamer} \<union> range MainReturning"
    "\<exists>ds b. crash_trace = ds @ [FlPool (SubmitPanicked b)] \<and> b \<in> set (sent_blocks (st_events crash_trace))"
    by simp_all
  moreover have "b = crash_block" if "crash_trace = ds @ [FlPool (SubmitPanicked b)]" for ds b
    using arg_cong [OF that, of last] by (simp add: crash_trace_def)
  ultimately show ?thesis using f(1) by blast
qed

theorem pipeline_blocks_witness:
  "\<exists>f. flow_run (flow_init 4 False) crash_trace f \<and>
     sent_blocks (st_events crash_trace) = seen handed_of (pool_events crash_trace) @ in_hand (fl_forward f) @ buffered (fl_streamer f) \<and>
     seen handed_of (pool_events crash_trace) = [crash_block]"
proof -
  obtain f where f: "flow_run (flow_init 4 False) crash_trace f" using crash_run [of 4 False] by auto
  have "seen handed_of (pool_events crash_trace) = [crash_block]"
    by (simp add: crash_trace_def hold_trace_def pool_events_def seen_def)
  with pipeline_blocks [OF f] f show ?thesis by auto
qed

end
