(* ===== verification/Reorg_Concurrent.thy ===== *)
theory Reorg_Concurrent
  imports Load_Generator Worker_Pool
begin

text \<open>
  The reorg engine called by the workers of the pool (\<^verbatim>\<open>internal/reorg/engine.go\<close> and
  \<^verbatim>\<open>internal/worker/pool.go\<close>). \<open>ProcessBlock\<close> holds no lock, so the calls of different workers
  interleave between its accesses to what they share: the FFI client and the event list, each under
  a mutex of its own, and the ring buffer, under none. A call is therefore a sequence of steps; each
  is one of these accesses, and the reads of \<open>DetectReorg\<close> are taken as one.
\<close>

section \<open>One call, step by step\<close>

datatype 'e call_pc =
    Detecting
  | Applying
  | AddingTip
  | Handling u64
  | RollingBack u64 int
  | Replaying u64 int
  | Truncating u64 int
  | AddingFork u64 int
  | Recording u64 int
  | Finished "'e process_error + unit"

text \<open>The arguments of a program point are the fork point and the depth read before the rollback.\<close>

fun call_step ::
  "('c, 'e) FFIClient \<Rightarrow> (byte list \<Rightarrow> hash) \<Rightarrow> int \<times> int \<times> int \<Rightarrow> block \<Rightarrow>
   'c ReorgEngine \<times> 'e call_pc \<Rightarrow> 'c ReorgEngine \<times> 'e call_pc" where
  "call_step cl sha256 clk b (re, Detecting) =
     (case DetectReorg sha256 b re of
        Inl e \<Rightarrow> (re, Finished (Inl (DetectionFailed e)))
      | Inr (isReorg, fork) \<Rightarrow> (re, if isReorg then Handling fork else Applying))"
| "call_step cl sha256 clk b (re, Applying) =
     (case client_ApplyBlock cl b (re_ffi re) of
        (c, Inl e) \<Rightarrow> (re\<lparr>re_ffi := c\<rparr>, Finished (Inl (ApplyFailed e)))
      | (c, Inr _) \<Rightarrow> (re\<lparr>re_ffi := c\<rparr>, AddingTip))"
| "call_step cl sha256 clk b (re, AddingTip) =
     (re\<lparr>ringBuffer := Add (Some b) (ringBuffer re)\<rparr>, Finished (Inr ()))"
| "call_step cl sha256 clk b (re, Handling fork) =
     (re, RollingBack fork (case Latest (ringBuffer re) of
        Some t \<Rightarrow> if Number t > fork then sint (Number t - fork) else 0 | None \<Rightarrow> 0))"
| "call_step cl sha256 clk b (re, RollingBack fork d) =
     (case Rollback cl fork re of
        (re1, Inl e) \<Rightarrow> (re1, Finished (Inl (HandlingFailed (ForkRollbackFailed e))))
      | (re1, Inr _) \<Rightarrow> (re1, Replaying fork d))"
| "call_step cl sha256 clk b (re, Replaying fork d) =
     (case client_ApplyBlock cl b (re_ffi re) of
        (c, Inl e) \<Rightarrow> (re\<lparr>re_ffi := c\<rparr>, Finished (Inl (HandlingFailed (ReplayFailed e))))
      | (c, Inr _) \<Rightarrow> (re\<lparr>re_ffi := c\<rparr>, Truncating fork d))"
| "call_step cl sha256 clk b (re, Truncating fork d) =
     (re\<lparr>ringBuffer := Truncate (sint fork) (ringBuffer re)\<rparr>, AddingFork fork d)"
| "call_step cl sha256 clk b (re, AddingFork fork d) =
     (re\<lparr>ringBuffer := Add (Some b) (ringBuffer re)\<rparr>, Recording fork d)"
| "call_step cl sha256 clk b (re, Recording fork d) =
     (case clk of (start, since, stamp) \<Rightarrow>
        (re\<lparr>reorgEvents := reorgEvents re @ [\<lparr>ev_Timestamp = stamp, ForkPoint = fork, Depth = d,
              RollbackDurationMs = go_quot (since - start) 1000000\<rparr>],
            reorgCount := reorgCount re + 1\<rparr>, Finished (Inr ())))"
| "call_step cl sha256 clk b (re, Finished r) = (re, Finished r)"

text \<open>Undisturbed, the steps are \<open>ProcessBlock\<close>; there are at most seven.\<close>

lemma Rollback_frame:
  "Rollback cl n re = (re1, r) \<Longrightarrow>
     ringBuffer re1 = ringBuffer re \<and> reorgEvents re1 = reorgEvents re \<and> reorgCount re1 = reorgCount re"
  by (auto simp: Rollback_def split: prod.splits)

lemma call_completes:
  "\<exists>n\<le>7. (call_step cl sha256 clk b ^^ n) (re, Detecting) =
     (case ProcessBlock cl sha256 clk b re of (re', r) \<Rightarrow> (re', Finished r))"
proof (cases "DetectReorg sha256 b re")
  case (Inl e)
  then show ?thesis by (intro exI [of _ 1]) (simp add: ProcessBlock_def)
next
  case (Inr d)
  obtain isR fork where d: "d = (isR, fork)" by fastforce
  show ?thesis
  proof (cases isR)
    case False
    obtain c r where a: "client_ApplyBlock cl b (re_ffi re) = (c, r)" by fastforce
    show ?thesis
      by (cases r; rule exI [of _ "if isl r then 2 else 3"])
        (simp_all add: eval_nat_numeral ProcessBlock_def Inr d False a)
  next
    case True
    obtain start since stamp where clk: "clk = (start, since, stamp)" by (cases clk)
    obtain re1 r1 where rb: "Rollback cl fork re = (re1, r1)" by fastforce
    note fr = Rollback_frame [OF rb]
    obtain c r where a: "client_ApplyBlock cl b (re_ffi re1) = (c, r)" by fastforce
    show ?thesis
      by (cases r1; cases r; rule exI [of _ "if isl r1 then 3 else if isl r then 4 else 7"])
        (simp_all add: eval_nat_numeral ProcessBlock_def HandleReorg_def Let_def clk Inr d True rb a fr)
  qed
qed

lemma finished_stays: "(call_step cl sha256 clk b ^^ n) (re, Finished r) = (re, Finished r)"
  by (induction n) simp_all

lemma call_result:
  assumes "(call_step cl sha256 clk b ^^ k) (re, Detecting) = (re', Finished r)"
  shows "ProcessBlock cl sha256 clk b re = (re', r)"
proof -
  obtain re2 q where p: "ProcessBlock cl sha256 clk b re = (re2, q)" by fastforce
  then obtain n where n: "(call_step cl sha256 clk b ^^ n) (re, Detecting) = (re2, Finished q)"
    using call_completes [of cl sha256 clk b re] by auto
  have "(re', Finished r) = (re2, Finished q)"
  proof (cases "k \<le> n")
    case True
    then have "(call_step cl sha256 clk b ^^ (n - k + k)) (re, Detecting) = (re2, Finished q)" using n by simp
    then show ?thesis using assms finished_stays [of "n - k" cl sha256 clk b re' r] by (simp add: funpow_add)
  next
    case False
    then have "(call_step cl sha256 clk b ^^ (k - n + n)) (re, Detecting) = (re', Finished r)" using assms by simp
    then show ?thesis using n finished_stays [of "k - n" cl sha256 clk b re2 q] by (simp add: funpow_add)
  qed
  with p show ?thesis by simp
qed

section \<open>The calls of the workers\<close>

text \<open>The pool, the engine its workers share, and for each worker that is processing a block the clock
  readings and the program point of its call.\<close>

record ('c, 'e) work =
  wk_pool :: "block pool"
  wk_engine :: "'c ReorgEngine"
  wk_calls :: "nat \<Rightarrow> ((int \<times> int \<times> int) \<times> 'e call_pc) option"

datatype work_event = WkPool "block pool_event" | WkCall nat

fun is_finished :: "'e call_pc \<Rightarrow> bool" where
  "is_finished (Finished r) \<longleftrightarrow> True"
| "is_finished pc \<longleftrightarrow> False"

fun call_event :: "block pool_event \<Rightarrow> bool" where
  "call_event (Began i b) \<longleftrightarrow> True"
| "call_event (Processed i b) \<longleftrightarrow> True"
| "call_event (Failed i b) \<longleftrightarrow> True"
| "call_event (Panicked i b) \<longleftrightarrow> True"
| "call_event e \<longleftrightarrow> False"

fun return_event :: "nat \<Rightarrow> block \<Rightarrow> 'e process_error + unit \<Rightarrow> block pool_event" where
  "return_event i b (Inr u) = Processed i b"
| "return_event i b (Inl e) = Failed i b"

definition work_init :: "int \<Rightarrow> 'c ReorgEngine \<Rightarrow> ('c, 'e) work" where
  "work_init n re = \<lparr>wk_pool = fst (Start n NewPool), wk_engine = re, wk_calls = (\<lambda>i. None)\<rparr>"

text \<open>\<open>processBlockSafe\<close> with the reorg engine as processor: a worker that begins a block calls
  \<open>ProcessBlock\<close>, and its answer decides whether the block counts as processed or failed.\<close>

inductive work_step ::
  "('c, 'e) FFIClient \<Rightarrow> (byte list \<Rightarrow> hash) \<Rightarrow> ('c, 'e) work \<Rightarrow> work_event \<Rightarrow> ('c, 'e) work \<Rightarrow> bool"
  for cl :: "('c, 'e) FFIClient" and sha256 :: "byte list \<Rightarrow> hash" where
  wk_begin: "\<not> crashed (wk_pool w) \<Longrightarrow> worker_step (wk_pool w) (Began i b) p' \<Longrightarrow>
    work_step cl sha256 w (WkPool (Began i b))
      (w\<lparr>wk_pool := p', wk_calls := (wk_calls w)(i := Some (clk, Detecting))\<rparr>)"
| wk_call: "\<not> crashed (wk_pool w) \<Longrightarrow> at i (Processing b) (wk_pool w) \<Longrightarrow> wk_calls w i = Some (clk, pc) \<Longrightarrow>
    \<not> is_finished pc \<Longrightarrow> call_step cl sha256 clk b (wk_engine w, pc) = (re', pc') \<Longrightarrow>
    work_step cl sha256 w (WkCall i) (w\<lparr>wk_engine := re', wk_calls := (wk_calls w)(i := Some (clk, pc'))\<rparr>)"
| wk_return: "\<not> crashed (wk_pool w) \<Longrightarrow> wk_calls w i = Some (clk, Finished r) \<Longrightarrow>
    worker_step (wk_pool w) (return_event i b r) p' \<Longrightarrow>
    work_step cl sha256 w (WkPool (return_event i b r)) (w\<lparr>wk_pool := p', wk_calls := (wk_calls w)(i := None)\<rparr>)"
| wk_other: "pool_step (wk_pool w) e p' \<Longrightarrow> \<not> call_event e \<Longrightarrow>
    work_step cl sha256 w (WkPool e) (w\<lparr>wk_pool := p'\<rparr>)"

inductive work_run ::
  "('c, 'e) FFIClient \<Rightarrow> (byte list \<Rightarrow> hash) \<Rightarrow> ('c, 'e) work \<Rightarrow> work_event list \<Rightarrow> ('c, 'e) work \<Rightarrow> bool"
  for cl :: "('c, 'e) FFIClient" and sha256 :: "byte list \<Rightarrow> hash" where
  wk_Nil: "work_run cl sha256 w [] w"
| wk_snoc: "work_run cl sha256 w es w' \<Longrightarrow> work_step cl sha256 w' e w'' \<Longrightarrow> work_run cl sha256 w (es @ [e]) w''"

inductive_cases work_stepE: "work_step cl sha256 w e w'"

fun pool_part :: "work_event \<Rightarrow> block pool_event list" where
  "pool_part (WkPool e) = [e]"
| "pool_part (WkCall i) = []"

text \<open>What happens to the pool, from its start on.\<close>

definition pool_trace :: "int \<Rightarrow> work_event list \<Rightarrow> block pool_event list" where
  "pool_trace n es = PoolStarted n # concat (map pool_part es)"

lemma pool_trace_simps [simp]:
  "pool_trace n [] = [PoolStarted n]" "pool_trace n (es @ [e]) = pool_trace n es @ pool_part e"
  by (simp_all add: pool_trace_def)

lemma work_step_pool:
  "work_step cl sha256 w e w' \<Longrightarrow> (pool_part e = [] \<and> wk_pool w' = wk_pool w) \<or>
     (\<exists>x. pool_part e = [x] \<and> pool_step (wk_pool w) x (wk_pool w'))"
  by (erule work_stepE) (auto intro: pool_step.work)

lemma work_projects:
  "work_run cl sha256 w0 es w \<Longrightarrow> w0 = work_init n re \<Longrightarrow> 1 \<le> n \<Longrightarrow> n \<le> 256 \<Longrightarrow>
     pool_run NewPool (pool_trace n es) (wk_pool w)"
proof (induction rule: work_run.induct)
  case (wk_Nil w)
  have "pool_run NewPool ([] @ [PoolStarted n]) (fst (Start n NewPool))"
    using wk_Nil by (intro run_snoc [OF run_Nil] pool_step.start) (simp_all add: NewPool_def Start_def)
  with wk_Nil show ?case by (simp add: work_init_def)
next
  case (wk_snoc w es w' e w'')
  then have p: "pool_run NewPool (pool_trace n es) (wk_pool w')" by simp
  from work_step_pool [OF wk_snoc(2)] p show ?case
    by (auto simp flip: append_Cons intro: run_snoc)
qed

section \<open>One worker\<close>

text \<open>The blocks that processing them one after the other accepts.\<close>

fun accepted ::
  "('c, 'e) FFIClient \<Rightarrow> (byte list \<Rightarrow> hash) \<Rightarrow> ((int \<times> int \<times> int) \<times> block) list \<Rightarrow> 'c ReorgEngine \<Rightarrow> block list" where
  "accepted cl sha256 [] re = []"
| "accepted cl sha256 (cb # cbs) re =
     (if isl (snd (ProcessBlock cl sha256 (fst cb) (snd cb) re)) then [] else [snd cb]) @
     accepted cl sha256 cbs (process_step cl sha256 cb re)"

lemma accepted_snoc:
  "accepted cl sha256 (cbs @ [cb]) re = accepted cl sha256 cbs re @
     (if isl (snd (ProcessBlock cl sha256 (fst cb) (snd cb) (fold (process_step cl sha256) cbs re))) then [] else [snd cb])"
  by (induction cbs arbitrary: re) simp_all

definition serial_inv ::
  "('c, 'e) FFIClient \<Rightarrow> (byte list \<Rightarrow> hash) \<Rightarrow> 'c ReorgEngine \<Rightarrow> block pool_event list \<Rightarrow> ('c, 'e) work \<Rightarrow> bool" where
  "serial_inv cl sha256 re0 tr w \<longleftrightarrow>
     (\<exists>cbs. seen processed_of tr = accepted cl sha256 cbs re0 \<and>
        (case wk_calls w 0 of
           None \<Rightarrow> map snd cbs = seen began_of tr \<and> wk_engine w = fold (process_step cl sha256) cbs re0 \<and>
             (\<forall>b. workers (wk_pool w) \<noteq> [Processing b])
         | Some (clk, pc) \<Rightarrow> \<exists>b k. map snd cbs @ [b] = seen began_of tr \<and> workers (wk_pool w) = [Processing b] \<and>
             (call_step cl sha256 clk b ^^ k) (fold (process_step cl sha256) cbs re0, Detecting) = (wk_engine w, pc)))"

lemma other_step:
  assumes "pool_step p e p'" and "\<not> call_event e" and "workers p = [v]" and "blocks p \<noteq> None"
  shows "began_of e = [] \<and> processed_of e = [] \<and>
    (\<exists>v'. workers p' = [v'] \<and> (v' = v \<or> (\<forall>b. v \<noteq> Processing b \<and> v' \<noteq> Processing b)))"
  using assms(1)
proof cases
  case submit
  with assms(3) show ?thesis by (auto elim!: submit_stepE)
next
  case stop
  with assms(3) show ?thesis by (auto elim!: stop_stepE)
next
  case work
  with assms(2,3) show ?thesis by (auto elim!: worker_stepE)
qed (use assms in auto)

lemma serial_step:
  assumes "serial_inv cl sha256 re0 tr w" and "work_step cl sha256 w e w'"
    and one: "workers (wk_pool w) = [v]" and "blocks (wk_pool w) \<noteq> None"
  shows "serial_inv cl sha256 re0 (tr @ pool_part e) w'"
proof -
  obtain cbs where cbs: "seen processed_of tr = accepted cl sha256 cbs re0"
    and c: "case wk_calls w 0 of
           None \<Rightarrow> map snd cbs = seen began_of tr \<and> wk_engine w = fold (process_step cl sha256) cbs re0 \<and>
             (\<forall>b. workers (wk_pool w) \<noteq> [Processing b])
         | Some (clk, pc) \<Rightarrow> \<exists>b k. map snd cbs @ [b] = seen began_of tr \<and> workers (wk_pool w) = [Processing b] \<and>
             (call_step cl sha256 clk b ^^ k) (fold (process_step cl sha256) cbs re0, Detecting) = (wk_engine w, pc)"
    using assms(1) unfolding serial_inv_def by blast
  from assms(2) show ?thesis
  proof cases
    case (wk_begin i b p' clk)
    then have i: "i = 0" "v = Holding b" "workers p' = [Processing b]" using one by (auto elim!: worker_stepE)
    with c one have "wk_calls w 0 = None" by (auto split: option.splits)
    with c cbs i wk_begin(1,2) show ?thesis unfolding serial_inv_def
      by (intro exI [of _ cbs]) (auto intro!: exI [of _ "0 :: nat"])
  next
    case (wk_call i b clk pc re' pc')
    then have i: "i = 0" "v = Processing b" using one by (auto simp: at_def)
    with c one wk_call(5) obtain k where k: "map snd cbs @ [b] = seen began_of tr"
      "(call_step cl sha256 clk b ^^ k) (fold (process_step cl sha256) cbs re0, Detecting) = (wk_engine w, pc)"
      by auto
    then have "(call_step cl sha256 clk b ^^ Suc k) (fold (process_step cl sha256) cbs re0, Detecting) = (re', pc')"
      using wk_call(7) by simp
    with k(1) i one cbs wk_call(1,2) show ?thesis unfolding serial_inv_def
      by (intro exI [of _ cbs]) (simp del: funpow.simps, blast)
  next
    case (wk_return i clk r b p')
    then have i: "i = 0" "v = Processing b" "workers p' = [Waiting]"
      using one by (cases r; auto elim!: worker_stepE)+
    with c one wk_return(4) obtain k where k: "map snd cbs @ [b] = seen began_of tr"
      "(call_step cl sha256 clk b ^^ k) (fold (process_step cl sha256) cbs re0, Detecting) = (wk_engine w, Finished r)"
      by auto
    from call_result [OF k(2)] have p: "ProcessBlock cl sha256 clk b (fold (process_step cl sha256) cbs re0) = (wk_engine w, r)" .
    have ev: "began_of (return_event i b r) = []" "processed_of (return_event i b r) = (if isl r then [] else [b])"
      by (cases r; simp)+
    show ?thesis unfolding serial_inv_def
      using k(1) p cbs i ev wk_return(1,2)
      by (intro exI [of _ "cbs @ [(clk, b)]"]) (simp add: accepted_snoc process_step_def)
  next
    case (wk_other e' p')
    from other_step [OF wk_other(3,4) one assms(4)] obtain v' where v':
      "began_of e' = []" "processed_of e' = []" "workers p' = [v']"
      "v' = v \<or> (\<forall>b. v \<noteq> Processing b \<and> v' \<noteq> Processing b)" by blast
    with c cbs one wk_other(1,2) show ?thesis unfolding serial_inv_def
      by (intro exI [of _ cbs]) (auto split: option.splits)
  qed
qed

lemma serial_run:
  "work_run cl sha256 w0 es w \<Longrightarrow> w0 = work_init 1 re0 \<Longrightarrow> serial_inv cl sha256 re0 (pool_trace 1 es) w \<and>
     (\<exists>v. workers (wk_pool w) = [v]) \<and> blocks (wk_pool w) \<noteq> None"
proof (induction rule: work_run.induct)
  case (wk_Nil w)
  then show ?case
    by (auto simp: serial_inv_def work_init_def Start_def NewPool_def seen_def intro!: exI [of _ "[]"])
next
  case (wk_snoc w es w' e w'')
  then obtain v where v: "serial_inv cl sha256 re0 (pool_trace 1 es) w'" "workers (wk_pool w') = [v]"
    "blocks (wk_pool w') \<noteq> None" by blast
  have "serial_inv cl sha256 re0 (pool_trace 1 (es @ [e])) w''"
    using serial_step [OF v(1) wk_snoc(2) v(2,3)] by simp
  moreover have "length (workers (wk_pool w'')) = 1 \<and> blocks (wk_pool w'') \<noteq> None"
    using work_step_pool [OF wk_snoc(2)] v(2,3)
    by (auto elim!: pool_stepE submit_stepE stop_stepE worker_stepE)
  ultimately show ?case by (auto simp: length_Suc_conv)
qed

text \<open>Between two calls the engine is that of the blocks begun, and what the worker has not begun it holds,
  has dropped, or still has in the channel.\<close>

lemma serial_outcome:
  assumes "work_run cl sha256 (work_init 1 re0) es w" and "wk_calls w 0 = None"
  obtains cbs v where "map snd cbs = seen began_of (pool_trace 1 es)"
    and "wk_engine w = fold (process_step cl sha256) cbs re0"
    and "seen processed_of (pool_trace 1 es) = accepted cl sha256 cbs re0"
    and "workers (wk_pool w) = [v]"
    and "seen submitted_of (pool_trace 1 es) =
      map snd cbs @ held_of v @ seen dropped_of (pool_trace 1 es) @ pool_queue (wk_pool w)"
    and "v = Exited \<Longrightarrow> \<not> ctx_done (wk_pool w) \<Longrightarrow> seen submitted_of (pool_trace 1 es) = map snd cbs"
proof -
  let ?tr = "pool_trace 1 es"
  have run: "pool_run NewPool ?tr (wk_pool w)" using work_projects [OF assms(1) refl] by simp
  obtain v where s: "serial_inv cl sha256 re0 ?tr w" and v: "workers (wk_pool w) = [v]"
    using serial_run [OF assms(1) refl] by blast
  from s assms(2) obtain cbs where cbs: "map snd cbs = seen began_of ?tr"
    "wk_engine w = fold (process_step cl sha256) cbs re0" "seen processed_of ?tr = accepted cl sha256 cbs re0"
    unfolding serial_inv_def by auto
  note inv = pool_inv_run [OF run refl]
  have "seen received_of ?tr = seen began_of ?tr @ held_of v @ seen dropped_of ?tr"
    using one_inv_run [OF run refl] v by (simp add: one_inv_def)
  moreover have "seen submitted_of ?tr = seen received_of ?tr @ pool_queue (wk_pool w)"
    using inv by (simp add: pool_inv_def queue_inv_def)
  ultimately have sub: "seen submitted_of ?tr = map snd cbs @ held_of v @ seen dropped_of ?tr @ pool_queue (wk_pool w)"
    using cbs(1) by simp
  have "held_of v @ seen dropped_of ?tr @ pool_queue (wk_pool w) = []"
    if "v = Exited" "\<not> ctx_done (wk_pool w)"
    using inv v that by (auto simp: pool_inv_def flag_inv_def)
  with sub that [OF cbs v sub] show ?thesis by simp
qed

text \<open>With one worker the engine is used serially. Whenever the worker is between two calls, the
  engine is what \<open>ProcessBlock\<close> makes of the blocks begun so far, one after the other; these are the
  first ones submitted, in order, and the pool counts as processed exactly those it accepts. Once the
  worker has left after \<open>Stop\<close>, they are all the blocks that were submitted.\<close>

theorem one_worker_serial:
  assumes "work_run cl sha256 (work_init 1 re0) es w" and "wk_calls w 0 = None"
  shows "\<exists>cbs rest. seen submitted_of (pool_trace 1 es) = map snd cbs @ rest \<and>
    wk_engine w = fold (process_step cl sha256) cbs re0 \<and>
    seen processed_of (pool_trace 1 es) = accepted cl sha256 cbs re0 \<and>
    (workers (wk_pool w) = [Exited] \<and> \<not> ctx_done (wk_pool w) \<longrightarrow> rest = [])"
  using assms by (rule serial_outcome) (metis append_self_conv list.inject)

section \<open>Any number of workers\<close>

text \<open>Program points that a call for a block the client refuses can reach.\<close>

fun before_applied :: "'e call_pc \<Rightarrow> bool" where
  "before_applied Detecting \<longleftrightarrow> True"
| "before_applied Applying \<longleftrightarrow> True"
| "before_applied (Handling n) \<longleftrightarrow> True"
| "before_applied (RollingBack n d) \<longleftrightarrow> True"
| "before_applied (Replaying n d) \<longleftrightarrow> True"
| "before_applied (Finished r) \<longleftrightarrow> isl r"
| "before_applied pc \<longleftrightarrow> False"

context ffi_client
begin

lemma call_step_contract:
  assumes "inv (re_ffi re)" and "ok b" and "no_nil (ringBuffer re)"
    and "reorgCount re = of_nat (length (reorgEvents re))"
    and "call_step cl sha256 clk b (re, pc) = (re', pc')"
  shows "inv (re_ffi re') \<and> no_nil (ringBuffer re') \<and> reorgCount re' = of_nat (length (reorgEvents re'))"
proof (cases pc)
  case Applying
  obtain c r where a: "client_ApplyBlock cl b (re_ffi re) = (c, r)" by fastforce
  from client_apply [OF assms(1,2) a] assms a Applying show ?thesis by (cases r) auto
next
  case (RollingBack n d)
  obtain c r where a: "client_RollbackTo cl n (re_ffi re) = (c, r)" by fastforce
  from client_rollback [OF assms(1) a] assms a RollingBack show ?thesis by (cases r) (auto simp: Rollback_def)
next
  case (Replaying n d)
  obtain c r where a: "client_ApplyBlock cl b (re_ffi re) = (c, r)" by fastforce
  from client_apply [OF assms(1,2) a] assms a Replaying show ?thesis by (cases r) auto
next
  case (Recording n d)
  with assms show ?thesis by (cases clk) auto
qed (use assms in \<open>auto simp: no_nil_Add no_nil_Truncate split: sum.splits prod.splits\<close>)

end

context refusing_client
begin

lemma call_step_refused:
  assumes "inv (re_ffi re)" and "ok b" and "bad b" and "before_applied pc"
    and "call_step cl sha256 clk b (re, pc) = (re', pc')"
  shows "before_applied pc'"
proof -
  obtain c e where a: "client_ApplyBlock cl b (re_ffi re) = (c, Inl e)"
    using client_refuses [OF assms(1-3)] by (metis isl_def prod.collapse)
  show ?thesis
  proof (cases pc)
    case (RollingBack n d)
    obtain re1 r where "Rollback cl n re = (re1, r)" by fastforce
    with assms RollingBack show ?thesis by (cases r) auto
  qed (use assms a in \<open>auto split: sum.splits prod.splits\<close>)
qed

end

text \<open>The invariant: the engine keeps its own, and every call works on a block that was submitted.\<close>

fun held_block :: "'b worker_pc \<Rightarrow> 'b set" where
  "held_block (Holding b) = {b}"
| "held_block (Processing b) = {b}"
| "held_block w = {}"

definition engine_inv :: "ffi_state ReorgEngine \<Rightarrow> bool" where
  "engine_inv re \<longleftrightarrow> synced (re_ffi re) \<and> unfunded (re_ffi re) \<and> no_nil (ringBuffer re) \<and>
     reorgCount re = of_nat (length (reorgEvents re))"

definition held_inv :: "block set \<Rightarrow> block pool \<Rightarrow> bool" where
  "held_inv bs p \<longleftrightarrow> (\<forall>v\<in>set (workers p). held_block v \<subseteq> bs) \<and> set (pool_queue p) \<subseteq> bs"

lemma held_update: "\<forall>v\<in>set vs. held_block v \<subseteq> bs \<Longrightarrow> held_block v' \<subseteq> bs \<Longrightarrow> v \<in> set (vs[i := v']) \<Longrightarrow> held_block v \<subseteq> bs"
  using set_update_subset_insert [of vs i v'] by blast

lemma held_worker:
  assumes "held_inv bs p" and "worker_step p e p'"
  shows "held_inv bs p'"
proof -
  have old: "held_block (workers p ! i) \<subseteq> bs" if "i < length (workers p)" for i
    using assms(1) that by (simp add: held_inv_def)
  from assms(2) show ?thesis
  proof cases
    case (receive i b q)
    with assms(1) show ?thesis by (auto simp: held_inv_def pool_queue_def dest!: held_update [of _ bs "Holding b", rotated 2])
  next
    case (wbegin i b)
    with old [of i] assms(1) show ?thesis
      by (auto simp: held_inv_def pool_queue_def dest!: held_update [of _ bs "Processing b", rotated 2])
  qed (use assms(1) in \<open>auto simp: held_inv_def pool_queue_def
      dest!: held_update [of _ bs Waiting, rotated 2] held_update [of _ bs Exited, rotated 2]\<close>)
qed

lemma held_step:
  assumes "held_inv (set bs) p" and "pool_step p e p'" and "blocks p \<noteq> None"
  shows "held_inv (set (bs @ submitted_of e)) p'"
  using assms(2)
proof cases
  case submit
  from submit(2) show ?thesis
    by cases (use assms(1) in \<open>auto simp: held_inv_def pool_queue_def split: option.splits\<close>)
next
  case stop
  from stop(2) show ?thesis
    by cases (use assms(1) in \<open>auto simp: held_inv_def pool_queue_def split: option.splits\<close>)
next
  case work
  then have "submitted_of e = []" by (auto elim!: worker_stepE)
  with held_worker [OF assms(1) work(2)] show ?thesis by simp
next
  case cancel
  with assms(1) show ?thesis by (simp add: held_inv_def pool_queue_def)
qed (use assms(3) in auto)

text \<open>No step but the beginning of a call makes a worker process a block.\<close>

lemma processing_before:
  assumes "pool_step p e p'" and "blocks p \<noteq> None" and "\<And>j c. e \<noteq> Began j c" and "at i (Processing b) p'"
  shows "at i (Processing b) p"
  using assms(1)
proof cases
  case submit
  with assms(4) show ?thesis by (auto simp: at_def elim!: submit_stepE)
next
  case stop
  with assms(4) show ?thesis by (auto simp: at_def elim!: stop_stepE)
next
  case work
  with assms(3,4) show ?thesis by (auto simp: at_def nth_list_update elim!: worker_stepE split: if_splits)
qed (use assms in \<open>auto simp: at_def\<close>)

definition calls_inv :: "block pool_event list \<Rightarrow> (ffi_state, 'e) work \<Rightarrow> bool" where
  "calls_inv tr w \<longleftrightarrow> engine_inv (wk_engine w) \<and> held_inv (set (seen submitted_of tr)) (wk_pool w) \<and>
     blocks (wk_pool w) \<noteq> None \<and>
     (\<forall>i b clk pc. at i (Processing b) (wk_pool w) \<longrightarrow> wk_calls w i = Some (clk, pc) \<longrightarrow> has_value b \<longrightarrow> before_applied pc) \<and>
     (\<forall>b\<in>set (seen processed_of tr). \<not> has_value b)"

lemma pool_step_blocks: "pool_step p e p' \<Longrightarrow> blocks p \<noteq> None \<Longrightarrow> blocks p' \<noteq> None"
  by (auto elim!: pool_stepE submit_stepE stop_stepE worker_stepE)

lemma calls_inv_step:
  assumes d: "digest32 blake3" and wf: "list_all wf_block (seen submitted_of tr)"
    and i: "calls_inv tr w" and st: "work_step (go_ffi blake3) sha256 w e w'"
  shows "calls_inv (tr @ pool_part e) w'"
proof -
  have held: "held_inv (set (seen submitted_of tr)) (wk_pool w)" and bl: "blocks (wk_pool w) \<noteq> None"
    and eng: "engine_inv (wk_engine w)" and pr: "\<forall>b\<in>set (seen processed_of tr). \<not> has_value b"
    and call: "\<And>i b clk pc. at i (Processing b) (wk_pool w) \<Longrightarrow> wk_calls w i = Some (clk, pc) \<Longrightarrow> has_value b \<Longrightarrow> before_applied pc"
    using i unfolding calls_inv_def by blast+
  have pool: "held_inv (set (seen submitted_of (tr @ pool_part e))) (wk_pool w') \<and> blocks (wk_pool w') \<noteq> None"
    using work_step_pool [OF st]
  proof
    assume "pool_part e = [] \<and> wk_pool w' = wk_pool w"
    with held bl show ?thesis by simp
  next
    assume "\<exists>x. pool_part e = [x] \<and> pool_step (wk_pool w) x (wk_pool w')"
    then obtain x where x: "pool_part e = [x]" "pool_step (wk_pool w) x (wk_pool w')" by blast
    from held_step [OF held x(2) bl] pool_step_blocks [OF x(2) bl] x(1) show ?thesis by simp
  qed
  from st show ?thesis
  proof cases
    case (wk_begin j b p' clk)
    have ps: "pool_step (wk_pool w) (Began j b) p'" using wk_begin by (simp add: pool_step.work)
    have "before_applied pc" if "at k (Processing c) p'" "((wk_calls w)(j := Some (clk, Detecting))) k = Some (clk', pc)"
      "has_value c" for k c clk' pc
    proof (cases "k = j")
      case True
      with that(2) show ?thesis by simp
    next
      case False
      have "at k (Processing c) (wk_pool w)"
        using that(1) False wk_begin(4) by (auto simp: at_def elim!: worker_stepE)
      with call [OF this] that False show ?thesis by simp
    qed
    with pool eng pr wk_begin(1,2) show ?thesis unfolding calls_inv_def by (auto simp del: not_None_eq)
  next
    case (wk_call j b clk pc re' pc')
    have "Processing b \<in> set (workers (wk_pool w))" using wk_call(4) nth_mem unfolding at_def by metis
    with held have "held_block (Processing b) \<subseteq> set (seen submitted_of tr)" unfolding held_inv_def by blast
    then have "b \<in> set (seen submitted_of tr)" by simp
    then have b: "wf_block b" using wf by (simp add: list_all_iff)
    have inv: "digest32 blake3 \<and> synced (re_ffi (wk_engine w)) \<and> unfunded (re_ffi (wk_engine w))"
      "no_nil (ringBuffer (wk_engine w))" "reorgCount (wk_engine w) = of_nat (length (reorgEvents (wk_engine w)))"
      using d eng by (simp_all add: engine_inv_def)
    from unfunded_client.call_step_contract [OF inv(1) b inv(2,3) wk_call(7)]
    have "engine_inv re'" by (simp add: engine_inv_def)
    moreover have "before_applied pc''" if "at k (Processing c) (wk_pool w)"
      "((wk_calls w)(j := Some (clk, pc'))) k = Some (clk', pc'')" "has_value c" for k c clk' pc''
    proof (cases "k = j")
      case True
      with that wk_call(4) have c: "c = b" "pc'' = pc'" by (auto simp: at_def)
      have "before_applied pc" using call [OF wk_call(4,5)] that(3) c by simp
      from unfunded_client.call_step_refused [OF inv(1) b _ this wk_call(7)] that(3) c show ?thesis by simp
    next
      case False
      with that call [OF that(1)] show ?thesis by simp
    qed
    ultimately show ?thesis using pool pr wk_call(1,2) unfolding calls_inv_def by (auto simp del: not_None_eq)
  next
    case (wk_return j clk r b p')
    have ps: "pool_step (wk_pool w) (return_event j b r) p'" using wk_return by (simp add: pool_step.work)
    have j: "at j (Processing b) (wk_pool w)" using wk_return(5) by (cases r; auto simp: at_def elim!: worker_stepE)+
    have ne: "return_event j b r \<noteq> Began k c" for k c by (cases r) simp_all
    have "before_applied pc" if "at k (Processing c) p'" "((wk_calls w)(j := None)) k = Some (clk', pc)" "has_value c"
      for k c clk' pc
      using processing_before [OF ps bl ne that(1)] call that(2,3) by (auto split: if_splits)
    moreover have "\<not> has_value c" if "c \<in> set (processed_of (return_event j b r))" for c
    proof
      assume v: "has_value c"
      from that obtain u where r: "r = Inr u" "c = b" by (cases r) auto
      with call [OF j wk_return(4)] v show False by simp
    qed
    ultimately show ?thesis using pool eng pr wk_return(1,2) unfolding calls_inv_def by (auto simp del: not_None_eq)
  next
    case (wk_other x p')
    have ne: "x \<noteq> Began k c" for k c using wk_other(4) by auto
    have "processed_of x = []" using wk_other(4) by (cases x) simp_all
    moreover have "before_applied pc" if "at k (Processing c) p'" "wk_calls w k = Some (clk', pc)" "has_value c" for k c clk' pc
      using processing_before [OF wk_other(3) bl ne that(1)] call that(2,3) by blast
    ultimately show ?thesis using pool eng pr wk_other(1,2) unfolding calls_inv_def by (auto simp del: not_None_eq)
  qed
qed

lemma calls_inv_run:
  "work_run (go_ffi blake3) sha256 w0 es w \<Longrightarrow> w0 = work_init n (NewReorgEngine fresh_ffi) \<Longrightarrow> 1 \<le> n \<Longrightarrow> n \<le> 256 \<Longrightarrow>
     digest32 blake3 \<Longrightarrow> list_all wf_block (seen submitted_of (pool_trace n es)) \<Longrightarrow> calls_inv (pool_trace n es) w"
proof (induction rule: work_run.induct)
  case (wk_Nil w)
  have "synced fresh_ffi" by (simp add: synced_fresh)
  with wk_Nil fresh_unfunded show ?case
    by (auto simp: calls_inv_def engine_inv_def held_inv_def work_init_def Start_def NewPool_def pool_queue_def
        NewReorgEngine_def at_def seen_def)
next
  case (wk_snoc w es w' e w'')
  then have wf: "list_all wf_block (seen submitted_of (pool_trace n es))"
    by (cases e) (simp_all add: seen_def list_all_iff)
  with wk_snoc calls_inv_step [OF _ wf _ wk_snoc(2)] show ?case by simp
qed

text \<open>C8: what no interleaving can break. However many workers call the engine at once, and wherever
  their calls are interrupted, the bridge stays in step with the Rust engine, the buffer counts no empty
  slot, the counter is the number of recorded events, no account ever holds anything, and no block that
  moves value is ever counted as processed.\<close>

theorem concurrent_calls_safe:
  assumes "work_run (go_ffi blake3) sha256 (work_init n (NewReorgEngine fresh_ffi)) es w" and "1 \<le> n" and "n \<le> 256"
    and "digest32 blake3" and "list_all wf_block (seen submitted_of (pool_trace n es))"
  shows "synced (re_ffi (wk_engine w)) \<and> unfunded (re_ffi (wk_engine w)) \<and> no_nil (ringBuffer (wk_engine w)) \<and>
    reorgCount (wk_engine w) = of_nat (length (reorgEvents (wk_engine w))) \<and>
    list_all (\<lambda>b. \<not> has_value b) (seen processed_of (pool_trace n es))"
  using calls_inv_run [OF assms(1) refl assms(2-5)] by (simp add: calls_inv_def engine_inv_def list_all_iff)

section \<open>A race\<close>

text \<open>The relation can be executed, here with all clocks at zero.\<close>

definition exec_call :: "('c, 'e) FFIClient \<Rightarrow> (byte list \<Rightarrow> hash) \<Rightarrow> ('c, 'e) work \<Rightarrow> nat \<Rightarrow> ('c, 'e) work option" where
  "exec_call cl sha256 w i =
     (case wk_calls w i of
        None \<Rightarrow> None
      | Some (clk, pc) \<Rightarrow>
          if i < length (workers (wk_pool w)) \<and> \<not> is_finished pc then
            (case workers (wk_pool w) ! i of
               Processing b \<Rightarrow>
                 (case call_step cl sha256 clk b (wk_engine w, pc) of
                    (re', pc') \<Rightarrow> Some (w\<lparr>wk_engine := re', wk_calls := (wk_calls w)(i := Some (clk, pc'))\<rparr>))
             | _ \<Rightarrow> None)
          else None)"

fun exec_work :: "('c, 'e) FFIClient \<Rightarrow> (byte list \<Rightarrow> hash) \<Rightarrow> ('c, 'e) work \<Rightarrow> work_event \<Rightarrow> ('c, 'e) work option" where
  "exec_work cl sha256 w (WkCall i) = exec_call cl sha256 w i"
| "exec_work cl sha256 w (WkPool e) =
     (case exec_event (wk_pool w) e of
        None \<Rightarrow> None
      | Some p' \<Rightarrow>
          (case e of
             Began i b \<Rightarrow> Some (w\<lparr>wk_pool := p', wk_calls := (wk_calls w)(i := Some ((0, 0, 0), Detecting))\<rparr>)
           | Processed i b \<Rightarrow>
               (case wk_calls w i of
                  Some (clk, Finished (Inr u)) \<Rightarrow> Some (w\<lparr>wk_pool := p', wk_calls := (wk_calls w)(i := None)\<rparr>)
                | _ \<Rightarrow> None)
           | Failed i b \<Rightarrow>
               (case wk_calls w i of
                  Some (clk, Finished (Inl x)) \<Rightarrow> Some (w\<lparr>wk_pool := p', wk_calls := (wk_calls w)(i := None)\<rparr>)
                | _ \<Rightarrow> None)
           | Panicked i b \<Rightarrow> None
           | _ \<Rightarrow> Some (w\<lparr>wk_pool := p'\<rparr>)))"

lemma worker_only: "pool_step p e p' \<Longrightarrow> call_event e \<Longrightarrow> worker_step p e p'"
  by (erule pool_stepE) (auto elim!: submit_stepE stop_stepE)

lemma exec_work_sound:
  assumes "exec_work cl sha256 w e = Some w'" and "\<not> crashed (wk_pool w)"
  shows "work_step cl sha256 w e w'"
proof (cases e)
  case (WkCall i)
  with assms(1) obtain clk pc b re' pc' where
    "wk_calls w i = Some (clk, pc)" "at i (Processing b) (wk_pool w)" "\<not> is_finished pc"
    "call_step cl sha256 clk b (wk_engine w, pc) = (re', pc')"
    "w' = w\<lparr>wk_engine := re', wk_calls := (wk_calls w)(i := Some (clk, pc'))\<rparr>"
    by (auto simp: exec_call_def at_def split: option.splits if_splits worker_pc.splits prod.splits)
  with assms(2) WkCall wk_call show ?thesis by fast
next
  case (WkPool x)
  with assms(1) obtain p' where p: "exec_event (wk_pool w) x = Some p'" by (auto split: option.splits)
  have st: "pool_step (wk_pool w) x p'" by (rule exec_event_sound [OF p assms(2)])
  show ?thesis
  proof (cases "call_event x")
    case False
    with assms(1) p WkPool have "w' = w\<lparr>wk_pool := p'\<rparr>" by (cases x) simp_all
    with wk_other [OF st False] WkPool show ?thesis by simp
  next
    case True
    note ws = worker_only [OF st True]
    show ?thesis
    proof (cases x)
      case (Began i b)
      with assms p ws WkPool show ?thesis by (auto intro: wk_begin)
    next
      case (Processed i b)
      with assms(1) p WkPool obtain clk u where "wk_calls w i = Some (clk, Finished (Inr u))"
        "w' = w\<lparr>wk_pool := p', wk_calls := (wk_calls w)(i := None)\<rparr>"
        by (auto split: option.splits call_pc.splits sum.splits prod.splits)
      with wk_return [OF assms(2), of i clk "Inr u" b p'] ws WkPool Processed show ?thesis by simp
    next
      case (Failed i b)
      with assms(1) p WkPool obtain clk y where "wk_calls w i = Some (clk, Finished (Inl y))"
        "w' = w\<lparr>wk_pool := p', wk_calls := (wk_calls w)(i := None)\<rparr>"
        by (auto split: option.splits call_pc.splits sum.splits prod.splits)
      with wk_return [OF assms(2), of i clk "Inl y" b p'] ws WkPool Failed show ?thesis by simp
    next
      case (Panicked i b)
      with assms(1) p WkPool show ?thesis by simp
    qed (use True in simp_all)
  qed
qed

fun exec_works :: "('c, 'e) FFIClient \<Rightarrow> (byte list \<Rightarrow> hash) \<Rightarrow> ('c, 'e) work \<Rightarrow> work_event list \<Rightarrow> ('c, 'e) work option" where
  "exec_works cl sha256 w [] = Some w"
| "exec_works cl sha256 w (e # es) =
     (if crashed (wk_pool w) then None
      else (case exec_work cl sha256 w e of None \<Rightarrow> None | Some w' \<Rightarrow> exec_works cl sha256 w' es))"

interpretation work_runs: labelled_runs "work_step cl sha256" "work_run cl sha256" for cl sha256
proof
  show "work_run cl sha256 s [] s" for s by (rule wk_Nil)
  show "work_run cl sha256 s (es @ [e]) u" if "work_run cl sha256 s es t" "work_step cl sha256 t e u" for s es t e u
    using that by (rule wk_snoc)
  show "P es t" if "work_run cl sha256 s es t" "P [] s"
    "\<And>ds u e v. work_run cl sha256 s ds u \<Longrightarrow> P ds u \<Longrightarrow> work_step cl sha256 u e v \<Longrightarrow> P (ds @ [e]) v" for s es t P
    using that by (induction rule: work_run.induct) blast+
qed

lemma exec_works_sound: "exec_works cl sha256 w es = Some w' \<Longrightarrow> work_run cl sha256 w es w'"
proof (induction es arbitrary: w)
  case Nil
  then show ?case by (simp add: wk_Nil)
next
  case (Cons e es)
  then obtain v where v: "\<not> crashed (wk_pool w)" "exec_work cl sha256 w e = Some v" "exec_works cl sha256 v es = Some w'"
    by (auto split: if_splits option.splits)
  have "work_run cl sha256 w ([] @ [e]) v" by (rule wk_snoc [OF wk_Nil exec_work_sound [OF v(2,1)]])
  with Cons.IH [OF v(3)] show ?case using work_runs.runs_append [of cl sha256 v es w' w "[e]"] by simp
qed

end
