(* ===== verification/Worker_Race.thy ===== *)
theory Worker_Race
  imports Reorg_Concurrent
begin

text \<open>
  What several workers do to a chain of three blocks that one worker processes without an error: two
  runs of the pool with its default of four workers over the reorg engine.
\<close>

section \<open>Two schedules\<close>

text \<open>Two workers take the first two blocks in order; the second block is detected after the first one was
  applied and before it was added to the buffer.\<close>

definition overtaking :: "block \<Rightarrow> block \<Rightarrow> block \<Rightarrow> work_event list" where
  "overtaking c1 c2 c3 =
     map WkPool [WorkerStarted 0, WorkerStarted 1, Submitted c1, Submitted c2, Submitted c3,
       Received 0 c1, Received 1 c2, Began 0 c1] @ [WkCall 0, WkCall 0, WkPool (Began 1 c2)] @
     [WkCall 1, WkCall 1, WkCall 1, WkPool (Processed 1 c2), WkCall 0, WkPool (Processed 0 c1)] @
     [WkPool (Received 0 c3), WkPool (Began 0 c3), WkCall 0, WkCall 0, WkCall 0, WkPool (Failed 0 c3)]"

text \<open>The second block is processed before the first.\<close>

definition swapped :: "block \<Rightarrow> block \<Rightarrow> block \<Rightarrow> work_event list" where
  "swapped c1 c2 c3 =
     map WkPool [WorkerStarted 0, WorkerStarted 1, Submitted c1, Submitted c2, Submitted c3,
       Received 0 c1, Received 1 c2, Began 1 c2] @ [WkCall 1, WkCall 1, WkPool (Failed 1 c2)] @
     [WkPool (Began 0 c1), WkCall 0, WkCall 0, WkCall 0, WkPool (Processed 0 c1)] @
     [WkPool (Received 0 c3), WkPool (Began 0 c3), WkCall 0, WkPool (Failed 0 c3)]"

lemma started4: "fst (Start 4 NewPool) = NewPool\<lparr>numWorkers := 4, blocks := Some [], wg := 4,
    workers := [Fresh, Fresh, Fresh, Fresh]\<rparr>"
  by (simp add: Start_def NewPool_def eval_nat_numeral)

lemma overtaking_run:
  fixes cl :: "('c, 'e) FFIClient"
  assumes "call_step cl H (0, 0, 0) c1 (re0, Detecting) = (re0, Applying)"
    and "call_step cl H (0, 0, 0) c1 (re0, Applying) = (re1, AddingTip)"
    and "call_step cl H (0, 0, 0) c2 (re1, Detecting) = (re1, Applying)"
    and "call_step cl H (0, 0, 0) c2 (re1, Applying) = (re2, AddingTip)"
    and "call_step cl H (0, 0, 0) c2 (re2, AddingTip) = (re3, Finished (Inr ()))"
    and "call_step cl H (0, 0, 0) c1 (re3, AddingTip) = (re4, Finished (Inr ()))"
    and "call_step cl H (0, 0, 0) c3 (re4, Detecting) = (re4, Handling 2)"
    and "call_step cl H (0, 0, 0) c3 (re4, Handling 2) = (re4, RollingBack 2 0)"
    and "call_step cl H (0, 0, 0) c3 (re4, RollingBack 2 0) = (re4, Finished (Inl x))"
  shows "\<exists>w. work_run cl H (work_init 4 re0) (overtaking c1 c2 c3) w \<and> wk_engine w = re4"
proof -
  have "\<exists>w. exec_works cl H (work_init 4 re0) (overtaking c1 c2 c3) = Some w \<and> wk_engine w = re4"
    unfolding work_init_def started4
    by (simp add: overtaking_def NewPool_def at_def exec_call_def assms del: call_step.simps)
  then show ?thesis using exec_works_sound by blast
qed

lemma swapped_run:
  fixes cl :: "('c, 'e) FFIClient"
  assumes "call_step cl H (0, 0, 0) c2 (re0, Detecting) = (re0, Applying)"
    and "call_step cl H (0, 0, 0) c2 (re0, Applying) = (re0, Finished (Inl x))"
    and "call_step cl H (0, 0, 0) c1 (re0, Detecting) = (re0, Applying)"
    and "call_step cl H (0, 0, 0) c1 (re0, Applying) = (re1, AddingTip)"
    and "call_step cl H (0, 0, 0) c1 (re1, AddingTip) = (re2, Finished (Inr ()))"
    and "call_step cl H (0, 0, 0) c3 (re2, Detecting) = (re2, Finished (Inl y))"
  shows "\<exists>w. work_run cl H (work_init 4 re0) (swapped c1 c2 c3) w \<and> wk_engine w = re2"
proof -
  have "\<exists>w. exec_works cl H (work_init 4 re0) (swapped c1 c2 c3) = Some w \<and> wk_engine w = re2"
    unfolding work_init_def started4
    by (simp add: swapped_def NewPool_def at_def exec_call_def assms del: call_step.simps)
  then show ?thesis using exec_works_sound by blast
qed

section \<open>Three blocks of a chain\<close>

text \<open>Consecutive blocks without transactions, as the streamer delivers when it cannot fetch a block.\<close>

definition three_blocks :: "(byte list \<Rightarrow> hash) \<Rightarrow> block \<Rightarrow> block \<Rightarrow> block \<Rightarrow> bool" where
  "three_blocks sha256 c1 c2 c3 \<longleftrightarrow>
     list_all (\<lambda>c. wf_block c \<and> Transactions c = []) [c1, c2, c3] \<and>
     Number c1 = 1 \<and> Number c2 = 2 \<and> Number c3 = 3 \<and>
     ParentHash c2 = block_Hash sha256 c1 \<and> ParentHash c3 = block_Hash sha256 c2 \<and>
     block_Hash sha256 c1 \<noteq> block_Hash sha256 c2"

definition next_state :: "(byte list \<Rightarrow> hash) \<Rightarrow> u64 \<Rightarrow> state_engine \<Rightarrow> state_engine" where
  "next_state blake3 n e =
     (push_snapshot e)\<lparr>block_number := n, state_root := calculate_state_root blake3 (state e)\<rparr>"

lemma next_state_number [simp]: "block_number (next_state blake3 n e) = n"
  by (simp add: next_state_def)

lemma next_state_history:
  "history (next_state blake3 n e) = last_n MAX_HISTORY_SIZE (history e @ [snapshot_of e])"
  by (simp add: next_state_def history_push_snapshot)

definition ffi_at :: "state_engine \<Rightarrow> ffi_state" where
  "ffi_at e = \<lparr>lastBlockNumber = block_number e, engine = Some e\<rparr>"

lemma fresh_at: "fresh_ffi = ffi_at engine_new"
  by (simp add: fresh_ffi ffi_at_def)

lemma apply_next:
  assumes "digest32 blake3" and "wf_block b" and "Transactions b = []" and "Number b = block_number e + 1"
  shows "ApplyBlock blake3 (Some b) (ffi_at e) =
    (ffi_at (next_state blake3 (Number b) e), Inr (calculate_state_root blake3 (state e)))"
  using ApplyBlock_empty [OF assms(1), of "ffi_at e" e b] assms(2-4) by (simp add: ffi_at_def next_state_def)

lemma apply_wrong:
  assumes "digest32 blake3" and "wf_block b" and "Number b \<noteq> block_number e + 1"
  shows "\<exists>x. ApplyBlock blake3 (Some b) (ffi_at e) = (ffi_at e, Inl x)"
proof (cases "ValidateBlock (Some b) (block_number e)")
  case (Inl x)
  then show ?thesis by (simp add: ApplyBlock_def ffi_at_def)
next
  case (Inr u)
  have "apply_block blake3 b e = (e, Inl (InvalidBlockNumber (block_number e + 1) (Number b)))"
    using assms(3) by (simp add: apply_block_def)
  with ApplyBlock_through [OF assms(1) _ assms(2), of "ffi_at e" e] Inr show ?thesis
    by (simp add: ffi_at_def)
qed

text \<open>There is no snapshot of a block that was only just applied.\<close>

lemma rollback_missing:
  assumes "n \<notin> snap_number ` set (history e)"
  shows "\<exists>x. RollbackTo n (ffi_at e) = (ffi_at e, Inl x)"
proof -
  have "position (\<lambda>s. snap_number s = n) h = None" if "n \<notin> snap_number ` set h" for h
    using that by (induction h) auto
  from this [OF assms] have "rollback_to n e = (e, Inl (NoSnapshot n))" unfolding rollback_to_def by simp
  then show ?thesis by (simp add: RollbackTo_def c_rollback_to_def ffi_at_def)
qed

definition reorg_at :: "state_engine \<Rightarrow> block list \<Rightarrow> ffi_state ReorgEngine" where
  "reorg_at e bs = \<lparr>re_ffi = ffi_at e, ringBuffer = fold Add (map Some bs) NewRingBuffer, reorgCount = 0, reorgEvents = []\<rparr>"

lemma reorg_at_New: "NewReorgEngine fresh_ffi = reorg_at engine_new []"
  by (simp add: NewReorgEngine_def reorg_at_def fresh_at)

lemma reorg_at_buffer:
  assumes "length bs \<le> 10"
  shows "rb_inv (ringBuffer (reorg_at e bs))" and "rb_list (ringBuffer (reorg_at e bs)) = map Some bs"
  using ring.inv_puts [of NewRingBuffer "map Some bs"] ring.contents_puts_empty [of NewRingBuffer "map Some bs"] assms
  by (simp_all add: reorg_at_def last_n_def)

lemma detect_at:
  assumes "length bs \<le> 10"
  shows "DetectReorg sha256 b (reorg_at e bs) =
    (if bs = [] \<or> block_Hash sha256 (last bs) = ParentHash b then Inr (False, 0)
     else (case newest_with sha256 (ParentHash b) bs of
         None \<Rightarrow> Inl ForkPointNotFound
       | Some c \<Rightarrow> if sint (Number (last bs) - Number c) > 10
                   then Inl (DepthExceeded (sint (Number (last bs) - Number c)))
                   else Inr (True, Number c)))"
  by (rule DetectReorg_list [OF reorg_at_buffer [OF assms]])

lemma latest_at: "length bs \<le> 10 \<Longrightarrow> Latest (ringBuffer (reorg_at e bs)) = (if bs = [] then None else Some (last bs))"
  using buffer_views [OF reorg_at_buffer] by blast

lemma process_next:
  assumes "digest32 blake3" and "wf_block b" and "Transactions b = []" and "Number b = block_number e + 1"
    and "bs = [] \<or> block_Hash sha256 (last bs) = ParentHash b" and "length bs \<le> 10"
  shows "ProcessBlock (go_ffi blake3) sha256 clk b (reorg_at e bs) =
    (reorg_at (next_state blake3 (Number b) e) (bs @ [b]), Inr ())"
  using detect_at [OF assms(6), of sha256 b e] apply_next [OF assms(1-4)] assms(5)
  by (simp add: ProcessBlock_def) (simp add: reorg_at_def)

text \<open>The state after the race, and that nothing but a sibling of the second block gets any further.\<close>

lemma stuck_engine:
  assumes "digest32 blake3" and "three_blocks sha256 c1 c2 c3" and "wf_block b"
    and "ParentHash b \<noteq> block_Hash sha256 c1"
    and e: "e = next_state blake3 2 (next_state blake3 1 engine_new)"
  shows "\<exists>x. ProcessBlock (go_ffi blake3) sha256 clk b (reorg_at e [c2, c1]) = (reorg_at e [c2, c1], Inl x)"
proof (cases "ParentHash b = block_Hash sha256 c2")
  case True
  with assms(2,4) have d: "DetectReorg sha256 b (reorg_at e [c2, c1]) = Inr (True, 2)"
    by (simp add: detect_at newest_with_def three_blocks_def)
  have "2 \<notin> snap_number ` set (history e)"
    by (auto simp: e next_state_history last_n_def MAX_HISTORY_SIZE_def snapshot_of_def engine_new_def)
  from rollback_missing [OF this] obtain x where "RollbackTo 2 (ffi_at e) = (ffi_at e, Inl x)" by blast
  with d show ?thesis by (cases clk) (simp add: ProcessBlock_def HandleReorg_def Rollback_def Let_def reorg_at_def)
next
  case False
  with assms(4) have "DetectReorg sha256 b (reorg_at e [c2, c1]) = Inl ForkPointNotFound"
    by (simp add: detect_at newest_with_def)
  then show ?thesis by (simp add: ProcessBlock_def)
qed

lemma overtaking_steps:
  fixes blake3 sha256 :: "byte list \<Rightarrow> hash"
  assumes d: "digest32 blake3" and c: "three_blocks sha256 c1 c2 c3"
  defines "e1 \<equiv> next_state blake3 1 engine_new" and "e2 \<equiv> next_state blake3 2 (next_state blake3 1 engine_new)"
    and "st \<equiv> call_step (go_ffi blake3) sha256 (0, 0, 0)"
  shows "st c1 (reorg_at engine_new [], Detecting) = (reorg_at engine_new [], Applying)"
    and "st c1 (reorg_at engine_new [], Applying) = (reorg_at e1 [], AddingTip)"
    and "st c2 (reorg_at e1 [], Detecting) = (reorg_at e1 [], Applying)"
    and "st c2 (reorg_at e1 [], Applying) = (reorg_at e2 [], AddingTip)"
    and "st c2 (reorg_at e2 [], AddingTip) = (reorg_at e2 [c2], Finished (Inr ()))"
    and "st c1 (reorg_at e2 [c2], AddingTip) = (reorg_at e2 [c2, c1], Finished (Inr ()))"
    and "st c3 (reorg_at e2 [c2, c1], Detecting) = (reorg_at e2 [c2, c1], Handling 2)"
    and "st c3 (reorg_at e2 [c2, c1], Handling 2) = (reorg_at e2 [c2, c1], RollingBack 2 0)"
    and "\<exists>x. st c3 (reorg_at e2 [c2, c1], RollingBack 2 0) = (reorg_at e2 [c2, c1], Finished (Inl x))"
proof -
  have n: "block_number engine_new = 0" by (simp add: engine_new_def)
  show "st c1 (reorg_at engine_new [], Detecting) = (reorg_at engine_new [], Applying)"
    "st c2 (reorg_at e1 [], Detecting) = (reorg_at e1 [], Applying)"
    by (simp_all add: st_def detect_at)
  show "st c1 (reorg_at engine_new [], Applying) = (reorg_at e1 [], AddingTip)"
    using apply_next [OF d, of c1 engine_new] c n by (simp add: st_def three_blocks_def e1_def reorg_at_def)
  show "st c2 (reorg_at e1 [], Applying) = (reorg_at e2 [], AddingTip)"
    using apply_next [OF d, of c2 e1] c by (simp add: st_def three_blocks_def e1_def e2_def reorg_at_def)
  show "st c2 (reorg_at e2 [], AddingTip) = (reorg_at e2 [c2], Finished (Inr ()))"
    "st c1 (reorg_at e2 [c2], AddingTip) = (reorg_at e2 [c2, c1], Finished (Inr ()))"
    by (simp_all add: st_def reorg_at_def)
  show "st c3 (reorg_at e2 [c2, c1], Detecting) = (reorg_at e2 [c2, c1], Handling 2)"
    using c by (simp add: st_def detect_at newest_with_def three_blocks_def)
  show "st c3 (reorg_at e2 [c2, c1], Handling 2) = (reorg_at e2 [c2, c1], RollingBack 2 0)"
    using c latest_at [of "[c2, c1]" e2] by (simp add: st_def three_blocks_def)
  have "2 \<notin> snap_number ` set (history e2)"
    by (auto simp: e2_def next_state_history last_n_def MAX_HISTORY_SIZE_def snapshot_of_def engine_new_def)
  from rollback_missing [OF this] obtain x where "RollbackTo 2 (ffi_at e2) = (ffi_at e2, Inl x)" by blast
  then show "\<exists>x. st c3 (reorg_at e2 [c2, c1], RollingBack 2 0) = (reorg_at e2 [c2, c1], Finished (Inl x))"
    by (simp add: st_def Rollback_def reorg_at_def)
qed

lemma swapped_steps:
  fixes blake3 sha256 :: "byte list \<Rightarrow> hash"
  assumes d: "digest32 blake3" and c: "three_blocks sha256 c1 c2 c3"
  defines "e1 \<equiv> next_state blake3 1 engine_new" and "st \<equiv> call_step (go_ffi blake3) sha256 (0, 0, 0)"
  shows "st c2 (reorg_at engine_new [], Detecting) = (reorg_at engine_new [], Applying)"
    and "\<exists>x. st c2 (reorg_at engine_new [], Applying) = (reorg_at engine_new [], Finished (Inl x))"
    and "st c1 (reorg_at engine_new [], Detecting) = (reorg_at engine_new [], Applying)"
    and "st c1 (reorg_at engine_new [], Applying) = (reorg_at e1 [], AddingTip)"
    and "st c1 (reorg_at e1 [], AddingTip) = (reorg_at e1 [c1], Finished (Inr ()))"
    and "\<exists>y. st c3 (reorg_at e1 [c1], Detecting) = (reorg_at e1 [c1], Finished (Inl y))"
proof -
  have n: "block_number engine_new = 0" by (simp add: engine_new_def)
  show "st c2 (reorg_at engine_new [], Detecting) = (reorg_at engine_new [], Applying)"
    "st c1 (reorg_at engine_new [], Detecting) = (reorg_at engine_new [], Applying)"
    by (simp_all add: st_def detect_at)
  obtain x where "ApplyBlock blake3 (Some c2) (ffi_at engine_new) = (ffi_at engine_new, Inl x)"
    using apply_wrong [OF d, of c2 engine_new] c n by (auto simp: three_blocks_def)
  then show "\<exists>x. st c2 (reorg_at engine_new [], Applying) = (reorg_at engine_new [], Finished (Inl x))"
    by (simp add: st_def reorg_at_def)
  show "st c1 (reorg_at engine_new [], Applying) = (reorg_at e1 [], AddingTip)"
    using apply_next [OF d, of c1 engine_new] c n by (simp add: st_def three_blocks_def e1_def reorg_at_def)
  show "st c1 (reorg_at e1 [], AddingTip) = (reorg_at e1 [c1], Finished (Inr ()))"
    by (simp add: st_def reorg_at_def)
  show "\<exists>y. st c3 (reorg_at e1 [c1], Detecting) = (reorg_at e1 [c1], Finished (Inl y))"
    using c by (auto simp: st_def detect_at newest_with_def three_blocks_def)
qed

text \<open>C7: the default of four workers can break a chain that one worker accepts. Three consecutive blocks
  that are processed without an error one after the other (first part) can be submitted in order to
  four workers such that (second part) the first two are processed, stand in the buffer in the wrong
  order, the third one is refused, and from then on every block except a sibling of the second one is
  refused and changes nothing; and such that (third part) only the first one is ever processed.\<close>

theorem workers_race:
  assumes "digest32 blake3" and "three_blocks sha256 c1 c2 c3"
  shows "accepted (go_ffi blake3) sha256 (map (Pair (0, 0, 0)) [c1, c2, c3]) (NewReorgEngine fresh_ffi) = [c1, c2, c3] \<and>
    (\<exists>es w. work_run (go_ffi blake3) sha256 (work_init 4 (NewReorgEngine fresh_ffi)) es w \<and>
       seen submitted_of (pool_trace 4 es) = [c1, c2, c3] \<and> seen began_of (pool_trace 4 es) = [c1, c2, c3] \<and>
       seen processed_of (pool_trace 4 es) = [c2, c1] \<and> seen failed_of (pool_trace 4 es) = [c3] \<and>
       rb_list (ringBuffer (wk_engine w)) = map Some [c2, c1] \<and>
       (\<forall>clk b. wf_block b \<longrightarrow> ParentHash b \<noteq> block_Hash sha256 c1 \<longrightarrow>
          (\<exists>x. ProcessBlock (go_ffi blake3) sha256 clk b (wk_engine w) = (wk_engine w, Inl x)))) \<and>
    (\<exists>es w. work_run (go_ffi blake3) sha256 (work_init 4 (NewReorgEngine fresh_ffi)) es w \<and>
       seen submitted_of (pool_trace 4 es) = [c1, c2, c3] \<and> seen began_of (pool_trace 4 es) = [c2, c1, c3] \<and>
       seen processed_of (pool_trace 4 es) = [c1] \<and> seen failed_of (pool_trace 4 es) = [c2, c3])"
proof (intro conjI)
  let ?e1 = "next_state blake3 1 engine_new"
  let ?e2 = "next_state blake3 2 ?e1"
  have c: "wf_block c1" "wf_block c2" "wf_block c3" "Transactions c1 = []" "Transactions c2 = []" "Transactions c3 = []"
    "Number c1 = 1" "Number c2 = 2" "Number c3 = 3" "ParentHash c2 = block_Hash sha256 c1" "ParentHash c3 = block_Hash sha256 c2"
    using assms(2) by (simp_all add: three_blocks_def)
  have n: "block_number engine_new = 0" by (simp add: engine_new_def)
  have "ProcessBlock (go_ffi blake3) sha256 (0, 0, 0) c1 (reorg_at engine_new []) = (reorg_at ?e1 [c1], Inr ())"
    using process_next [OF assms(1), of c1 engine_new "[]"] c n by simp
  moreover have "ProcessBlock (go_ffi blake3) sha256 (0, 0, 0) c2 (reorg_at ?e1 [c1]) = (reorg_at ?e2 [c1, c2], Inr ())"
    using process_next [OF assms(1), of c2 ?e1 "[c1]" sha256] c by simp
  moreover have "ProcessBlock (go_ffi blake3) sha256 (0, 0, 0) c3 (reorg_at ?e2 [c1, c2]) =
      (reorg_at (next_state blake3 3 ?e2) [c1, c2, c3], Inr ())"
    using process_next [OF assms(1), of c3 ?e2 "[c1, c2]" sha256] c by simp
  ultimately show "accepted (go_ffi blake3) sha256 (map (Pair (0, 0, 0)) [c1, c2, c3]) (NewReorgEngine fresh_ffi) = [c1, c2, c3]"
    by (simp add: reorg_at_New process_step_def)
  obtain x where x: "call_step (go_ffi blake3) sha256 (0, 0, 0) c3 (reorg_at ?e2 [c2, c1], RollingBack 2 0) =
      (reorg_at ?e2 [c2, c1], Finished (Inl x))"
    using overtaking_steps(9) [OF assms] by blast
  from overtaking_run [OF overtaking_steps(1-8) [OF assms] x] obtain w where
    w: "work_run (go_ffi blake3) sha256 (work_init 4 (NewReorgEngine fresh_ffi)) (overtaking c1 c2 c3) w"
      "wk_engine w = reorg_at ?e2 [c2, c1]" by (auto simp: reorg_at_New)
  have "\<exists>x. ProcessBlock (go_ffi blake3) sha256 clk b (wk_engine w) = (wk_engine w, Inl x)"
    if "wf_block b" "ParentHash b \<noteq> block_Hash sha256 c1" for clk b
    unfolding w(2) using stuck_engine [OF assms that refl] .
  moreover have "rb_list (ringBuffer (wk_engine w)) = map Some [c2, c1]"
    using reorg_at_buffer(2) [of "[c2, c1]"] w(2) by simp
  ultimately show "\<exists>es w. work_run (go_ffi blake3) sha256 (work_init 4 (NewReorgEngine fresh_ffi)) es w \<and>
       seen submitted_of (pool_trace 4 es) = [c1, c2, c3] \<and> seen began_of (pool_trace 4 es) = [c1, c2, c3] \<and>
       seen processed_of (pool_trace 4 es) = [c2, c1] \<and> seen failed_of (pool_trace 4 es) = [c3] \<and>
       rb_list (ringBuffer (wk_engine w)) = map Some [c2, c1] \<and>
       (\<forall>clk b. wf_block b \<longrightarrow> ParentHash b \<noteq> block_Hash sha256 c1 \<longrightarrow>
          (\<exists>x. ProcessBlock (go_ffi blake3) sha256 clk b (wk_engine w) = (wk_engine w, Inl x)))"
    using w(1)
    by (intro exI [of _ "overtaking c1 c2 c3"] exI [of _ w]) (simp add: overtaking_def pool_trace_def seen_def)
  obtain x y where xy: "call_step (go_ffi blake3) sha256 (0, 0, 0) c2 (reorg_at engine_new [], Applying) =
      (reorg_at engine_new [], Finished (Inl x))"
    "call_step (go_ffi blake3) sha256 (0, 0, 0) c3 (reorg_at ?e1 [c1], Detecting) = (reorg_at ?e1 [c1], Finished (Inl y))"
    using swapped_steps(2,6) [OF assms] by blast
  from swapped_run [OF swapped_steps(1) [OF assms] xy(1) swapped_steps(3-5) [OF assms] xy(2)] obtain v where
    "work_run (go_ffi blake3) sha256 (work_init 4 (NewReorgEngine fresh_ffi)) (swapped c1 c2 c3) v"
    by (auto simp: reorg_at_New)
  then show "\<exists>es w. work_run (go_ffi blake3) sha256 (work_init 4 (NewReorgEngine fresh_ffi)) es w \<and>
       seen submitted_of (pool_trace 4 es) = [c1, c2, c3] \<and> seen began_of (pool_trace 4 es) = [c2, c1, c3] \<and>
       seen processed_of (pool_trace 4 es) = [c1] \<and> seen failed_of (pool_trace 4 es) = [c2, c3]"
    by (intro exI [of _ "swapped c1 c2 c3"] exI [of _ v]) (simp add: swapped_def pool_trace_def seen_def)
qed

lemma three_chain_blocks:
  "three_blocks number_digest (chain_block 1 0) (chain_block 2 1) (chain_block 3 2)"
  by (simp add: three_blocks_def)

theorem workers_race_witness:
  "\<exists>es w. work_run (go_ffi zero_digest) number_digest (work_init 4 (NewReorgEngine fresh_ffi)) es w \<and>
     seen processed_of (pool_trace 4 es) = [chain_block 2 1, chain_block 1 0] \<and>
     rb_list (ringBuffer (wk_engine w)) = map Some [chain_block 2 1, chain_block 1 0]"
  using workers_race [OF digest32_zero three_chain_blocks] by blast

text \<open>The other theorems at these runs, and one block on one worker.\<close>

theorem concurrent_calls_safe_witness:
  "\<exists>w. work_run (go_ffi zero_digest) number_digest (work_init 4 (NewReorgEngine fresh_ffi))
       (overtaking (chain_block 1 0) (chain_block 2 1) (chain_block 3 2)) w \<and>
     synced (re_ffi (wk_engine w)) \<and> unfunded (re_ffi (wk_engine w))"
proof -
  let ?e2 = "next_state zero_digest 2 (next_state zero_digest 1 engine_new)"
  obtain x where x: "call_step (go_ffi zero_digest) number_digest (0, 0, 0) (chain_block 3 2)
      (reorg_at ?e2 [chain_block 2 1, chain_block 1 0], RollingBack 2 0) =
      (reorg_at ?e2 [chain_block 2 1, chain_block 1 0], Finished (Inl x))"
    using overtaking_steps(9) [OF digest32_zero three_chain_blocks] by blast
  from overtaking_run [OF overtaking_steps(1-8) [OF digest32_zero three_chain_blocks] x] obtain w where
    w: "work_run (go_ffi zero_digest) number_digest (work_init 4 (NewReorgEngine fresh_ffi))
       (overtaking (chain_block 1 0) (chain_block 2 1) (chain_block 3 2)) w"
    by (auto simp: reorg_at_New)
  have "list_all wf_block (seen submitted_of (pool_trace 4 (overtaking (chain_block 1 0) (chain_block 2 1) (chain_block 3 2))))"
    by (simp add: overtaking_def pool_trace_def seen_def)
  from concurrent_calls_safe [OF w _ _ digest32_zero this] w show ?thesis by auto
qed

definition solo :: "block \<Rightarrow> work_event list" where
  "solo c = map WkPool [WorkerStarted 0, Submitted c, Received 0 c, Began 0 c] @
     [WkCall 0, WkCall 0, WkCall 0, WkPool (Processed 0 c), WkPool StopSignalled, WkPool ChannelClosed,
      WkPool (WorkerExited 0)]"

lemma started1: "fst (Start 1 NewPool) = NewPool\<lparr>numWorkers := 1, blocks := Some [], wg := 1, workers := [Fresh]\<rparr>"
  by (simp add: Start_def NewPool_def)

lemma solo_run:
  fixes cl :: "('c, 'e) FFIClient"
  assumes "call_step cl H (0, 0, 0) c (re0, Detecting) = (re0, Applying)"
    and "call_step cl H (0, 0, 0) c (re0, Applying) = (re1, AddingTip)"
    and "call_step cl H (0, 0, 0) c (re1, AddingTip) = (re2, Finished (Inr ()))"
  shows "\<exists>w. work_run cl H (work_init 1 re0) (solo c) w \<and> wk_calls w 0 = None \<and> workers (wk_pool w) = [Exited] \<and>
    \<not> ctx_done (wk_pool w)"
proof -
  have "\<exists>w. exec_works cl H (work_init 1 re0) (solo c) = Some w \<and> wk_calls w 0 = None \<and>
      workers (wk_pool w) = [Exited] \<and> \<not> ctx_done (wk_pool w)"
    unfolding work_init_def started1
    by (simp add: solo_def NewPool_def at_def exec_call_def assms del: call_step.simps)
  then show ?thesis using exec_works_sound by blast
qed

theorem one_worker_serial_witness:
  "\<exists>w clk. work_run (go_ffi zero_digest) number_digest (work_init 1 (NewReorgEngine fresh_ffi)) (solo (chain_block 1 0)) w \<and>
     wk_engine w = process_step (go_ffi zero_digest) number_digest (clk, chain_block 1 0) (NewReorgEngine fresh_ffi)"
proof -
  let ?c = "chain_block 1 0"
  note st = swapped_steps [OF digest32_zero three_chain_blocks]
  obtain w where w: "work_run (go_ffi zero_digest) number_digest (work_init 1 (NewReorgEngine fresh_ffi)) (solo ?c) w"
    "wk_calls w 0 = None" "workers (wk_pool w) = [Exited]" "\<not> ctx_done (wk_pool w)"
    using solo_run [OF st(3-5)] by (auto simp: reorg_at_New)
  from one_worker_serial [OF w(1,2)] w(3,4) obtain cbs where
    "seen submitted_of (pool_trace 1 (solo ?c)) = map snd cbs"
    "wk_engine w = fold (process_step (go_ffi zero_digest) number_digest) cbs (NewReorgEngine fresh_ffi)" by auto
  moreover have "seen submitted_of (pool_trace 1 (solo ?c)) = [?c]"
    by (simp add: solo_def pool_trace_def seen_def)
  ultimately obtain clk where "cbs = [(clk, ?c)]" by (auto simp: map_eq_Cons_conv)
  with \<open>wk_engine w = _\<close> w(1) show ?thesis by (intro exI [of _ w] exI [of _ clk]) simp
qed

end
