(* ===== verification/System.thy ===== *)
theory System
  imports Server Pipeline Worker_Race
begin

text \<open>
  The running process: the flow of blocks (streamer, forwarder, pool, \<open>main\<close>) of theory
  \<^verbatim>\<open>Pipeline\<close> together with the calls its workers make to the reorg engine, of theory
  \<^verbatim>\<open>Reorg_Concurrent\<close>. The two share the pool; a run of the process is a run of both. The \<open>Submit\<close> of
  the load tester is not a step here: a run in load-test mode stands for an execution in which no load
  test is requested over MCP. The metrics collector and the other MCP handlers only read.
\<close>

section \<open>Steps\<close>

record ('c, 'e) system =
  sys_flow :: flow
  sys_engine :: "'c ReorgEngine"
  sys_calls :: "nat \<Rightarrow> ((int \<times> int \<times> int) \<times> 'e call_pc) option"

datatype sys_event = SysFlow flow_event | SysCall nat

definition sys_init :: "int \<Rightarrow> bool \<Rightarrow> 'c ReorgEngine \<Rightarrow> ('c, 'e) system" where
  "sys_init n lt re = \<lparr>sys_flow = flow_init n lt, sys_engine = re, sys_calls = (\<lambda>i. None)\<rparr>"

definition sys_work :: "('c, 'e) system \<Rightarrow> ('c, 'e) work" where
  "sys_work s = \<lparr>wk_pool = fl_pool (sys_flow s), wk_engine = sys_engine s, wk_calls = sys_calls s\<rparr>"

definition with_work :: "('c, 'e) work \<Rightarrow> ('c, 'e) system \<Rightarrow> ('c, 'e) system" where
  "with_work w s = s\<lparr>sys_flow := (sys_flow s)\<lparr>fl_pool := wk_pool w\<rparr>, sys_engine := wk_engine w, sys_calls := wk_calls w\<rparr>"

lemma sys_work_with [simp]: "sys_work (with_work w s) = w"
  by (simp add: sys_work_def with_work_def)

inductive sys_step ::
  "('c, 'e) FFIClient \<Rightarrow> (byte list \<Rightarrow> hash) \<Rightarrow> ('c, 'e) system \<Rightarrow> sys_event \<Rightarrow> ('c, 'e) system \<Rightarrow> bool"
  for cl :: "('c, 'e) FFIClient" and sha256 :: "byte list \<Rightarrow> hash" where
  sys_flows: "flow_step (sys_flow s) e f' \<Longrightarrow> list_all (\<lambda>x. \<not> call_event x) (pool_event_of e) \<Longrightarrow>
    sys_step cl sha256 s (SysFlow e) (s\<lparr>sys_flow := f'\<rparr>)"
| sys_call: "flow_alive (sys_flow s) \<Longrightarrow> work_step cl sha256 (sys_work s) (WkCall i) w \<Longrightarrow>
    sys_step cl sha256 s (SysCall i) (with_work w s)"
| sys_boundary: "flow_alive (sys_flow s) \<Longrightarrow> call_event x \<Longrightarrow> work_step cl sha256 (sys_work s) (WkPool x) w \<Longrightarrow>
    sys_step cl sha256 s (SysFlow (FlPool x)) (with_work w s)"

inductive sys_run ::
  "('c, 'e) FFIClient \<Rightarrow> (byte list \<Rightarrow> hash) \<Rightarrow> ('c, 'e) system \<Rightarrow> sys_event list \<Rightarrow> ('c, 'e) system \<Rightarrow> bool"
  for cl :: "('c, 'e) FFIClient" and sha256 :: "byte list \<Rightarrow> hash" where
  sys_Nil: "sys_run cl sha256 s [] s"
| sys_snoc: "sys_run cl sha256 s es s' \<Longrightarrow> sys_step cl sha256 s' e s'' \<Longrightarrow> sys_run cl sha256 s (es @ [e]) s''"

inductive_cases sys_stepE: "sys_step cl sha256 s e s'"

section \<open>The two views of a run\<close>

fun flow_part :: "sys_event \<Rightarrow> flow_event list" where
  "flow_part (SysFlow e) = [e]"
| "flow_part (SysCall i) = []"

fun work_part :: "sys_event \<Rightarrow> work_event list" where
  "work_part (SysFlow e) = map WkPool (pool_event_of e)"
| "work_part (SysCall i) = [WkCall i]"

definition flow_view :: "sys_event list \<Rightarrow> flow_event list" where
  "flow_view es = concat (map flow_part es)"

definition work_view :: "sys_event list \<Rightarrow> work_event list" where
  "work_view es = concat (map work_part es)"

lemma view_simps [simp]:
  "flow_view [] = []" "flow_view (es @ [e]) = flow_view es @ flow_part e"
  "work_view [] = []" "work_view (es @ [e]) = work_view es @ work_part e"
  by (simp_all add: flow_view_def work_view_def)

lemma same_pool: "concat (map pool_part (work_view es)) = pool_events (flow_view es)"
proof (induction es rule: rev_induct)
  case (snoc e es)
  then show ?case by (cases e) (simp_all add: comp_def)
qed simp

lemma sys_step_flow:
  assumes "sys_step cl sha256 s e s'"
  shows "(flow_part e = [] \<and> sys_flow s' = sys_flow s) \<or>
    (\<exists>x. flow_part e = [x] \<and> flow_step (sys_flow s) x (sys_flow s'))"
  using assms
proof cases
  case (sys_call i w)
  from sys_call(4) have "wk_pool w = fl_pool (sys_flow s)" by (auto elim!: work_stepE simp: sys_work_def)
  with sys_call(1,2) show ?thesis by (simp add: with_work_def)
next
  case (sys_boundary x w)
  from sys_boundary(5,4) have "worker_step (fl_pool (sys_flow s)) x (wk_pool w)"
    by (auto elim!: work_stepE simp: sys_work_def)
  with sys_boundary(1-3) show ?thesis by (auto simp: with_work_def intro: fl_work)
qed auto

lemma sys_step_work:
  assumes "sys_step cl sha256 s e s'"
  shows "(work_part e = [] \<and> sys_work s' = sys_work s) \<or>
    (\<exists>x. work_part e = [x] \<and> work_step cl sha256 (sys_work s) x (sys_work s'))"
  using assms
proof cases
  case (sys_flows x f')
  from flow_step_pool [OF sys_flows(3)] show ?thesis
  proof
    assume "pool_event_of x = [] \<and> fl_pool f' = fl_pool (sys_flow s)"
    with sys_flows(1,2) show ?thesis by (simp add: sys_work_def)
  next
    assume "\<exists>y. pool_event_of x = [y] \<and> pool_step (fl_pool (sys_flow s)) y (fl_pool f')"
    then obtain y where y: "pool_event_of x = [y]" "pool_step (fl_pool (sys_flow s)) y (fl_pool f')" by blast
    have "work_step cl sha256 (sys_work s) (WkPool y) ((sys_work s)\<lparr>wk_pool := fl_pool f'\<rparr>)"
      using y sys_flows(4) by (intro wk_other) (simp_all add: sys_work_def)
    with y sys_flows(1,2) show ?thesis by (simp add: sys_work_def)
  qed
next
  case (sys_call i w)
  then show ?thesis by simp
next
  case (sys_boundary x w)
  then show ?thesis by simp
qed

lemma sys_projects:
  "sys_run cl sha256 s0 es s \<Longrightarrow> flow_run (sys_flow s0) (flow_view es) (sys_flow s) \<and>
     work_run cl sha256 (sys_work s0) (work_view es) (sys_work s)"
proof (induction rule: sys_run.induct)
  case (sys_Nil s)
  then show ?case by (simp add: fl_Nil wk_Nil)
next
  case (sys_snoc s es s' e s'')
  have "flow_run (sys_flow s) (flow_view (es @ [e])) (sys_flow s'')"
    using sys_step_flow [OF sys_snoc(2)] sys_snoc.IH by (auto intro: fl_snoc)
  moreover have "work_run cl sha256 (sys_work s) (work_view (es @ [e])) (sys_work s'')"
    using sys_step_work [OF sys_snoc(2)] sys_snoc.IH by (auto intro: wk_snoc)
  ultimately show ?case by blast
qed

lemma sys_views:
  assumes "sys_run cl sha256 (sys_init n lt re) es s"
  shows "flow_run (flow_init n lt) (flow_view es) (sys_flow s)"
    and "work_run cl sha256 (work_init n re) (work_view es) (sys_work s)"
    and "pool_trace n (work_view es) = PoolStarted n # pool_events (flow_view es)"
proof -
  have flow: "sys_flow (sys_init n lt re) = flow_init n lt" by (simp add: sys_init_def)
  have work: "sys_work (sys_init n lt re) = work_init n re"
    by (simp add: sys_work_def work_init_def) (simp add: sys_init_def flow_init_def)
  show "flow_run (flow_init n lt) (flow_view es) (sys_flow s)"
    using sys_projects [OF assms, THEN conjunct1] unfolding flow .
  show "work_run cl sha256 (work_init n re) (work_view es) (sys_work s)"
    using sys_projects [OF assms, THEN conjunct2] unfolding work .
  show "pool_trace n (work_view es) = PoolStarted n # pool_events (flow_view es)"
    by (simp add: pool_trace_def same_pool)
qed

section \<open>What the two views share\<close>

text \<open>Nobody cancels the context of the pool, and \<open>main\<close> goes on to the streamer only when all workers have left.\<close>

lemma pool_keeps_ctx:
  "worker_step p e p' \<Longrightarrow> ctx_done p' = ctx_done p" "submit_step p e p' \<Longrightarrow> ctx_done p' = ctx_done p"
  "stop_step p e p' \<Longrightarrow> ctx_done p' = ctx_done p"
  by (auto elim!: worker_stepE submit_stepE stop_stepE)

lemma flow_not_cancelled: "flow_run f0 es f \<Longrightarrow> ctx_done (fl_pool f) = ctx_done (fl_pool f0)"
  by (erule flow_runs.runs_keep)
    (auto elim!: flow_stepE forward_stepE main_stepE dest: pool_keeps_ctx)

lemma all_exited: "pcs pc_live p = 0 \<Longrightarrow> v \<in> set (workers p) \<Longrightarrow> v = Exited"
proof -
  have pos: "0 \<le> pc_live u" for u :: "'b worker_pc" by (cases u) simp_all
  assume "pcs pc_live p = 0" and "v \<in> set (workers p)"
  then have "pc_live v = 0"
    using pos sum_list_nonneg_eq_0_iff [of "map pc_live (workers p)"] by (auto simp: pcs_def)
  then show "v = Exited" by (cases v) simp_all
qed

lemma exited_idle: "list_all (\<lambda>v. v = Exited) (workers p) \<Longrightarrow> \<not> worker_step p e p'"
  by (auto elim!: worker_stepE simp: list_all_iff dest!: nth_mem)

lemma stop_keeps_workers:
  "submit_step p e p' \<Longrightarrow> workers p' = workers p" "stop_step p e p' \<Longrightarrow> workers p' = workers p"
  by (auto elim!: submit_stepE stop_stepE)

lemma flow_drained:
  assumes "flow_run f0 es f" and "f0 = flow_init n lt" and "1 \<le> n" and "n \<le> 256"
  shows "fl_main f = MainStreamer \<longrightarrow> list_all (\<lambda>v. v = Exited) (workers (fl_pool f))"
  using assms
proof (induction rule: flow_run.induct)
  case (fl_Nil f)
  then show ?case by (simp add: flow_init_def)
next
  case (fl_snoc f es f' e f'')
  have "pool_run NewPool (PoolStarted n # pool_events es) (fl_pool f')"
    using flow_projects [OF fl_snoc(1)] fl_snoc.prems by simp
  then have "wg (fl_pool f') = 0 \<Longrightarrow> list_all (\<lambda>v. v = Exited) (workers (fl_pool f'))"
    using pool_inv_run all_exited unfolding pool_inv_def worker_inv_def list_all_iff by metis
  moreover have "fl_main f' = MainStreamer \<longrightarrow> list_all (\<lambda>v. v = Exited) (workers (fl_pool f'))"
    using fl_snoc by simp
  moreover have "wg (fl_pool f') = 0" if "stop_step (fl_pool f') StopReturned p'" for p'
    using that by (auto elim: stop_stepE)
  ultimately show ?case using fl_snoc(2)
    by (auto elim!: flow_stepE forward_stepE main_stepE simp: exited_idle stop_keeps_workers)
qed

text \<open>The streamer sends only blocks it has read.\<close>

lemma sent_were_read:
  "st_run s0 es s \<Longrightarrow> s0 = NewEthBlockStreamer \<Longrightarrow>
     (\<forall>b\<in>set (sent_blocks es). StBlock b \<in> set es) \<and> (\<forall>b. st_pc s = Sending b \<longrightarrow> StBlock b \<in> set es)"
proof (induction rule: st_run.induct)
  case (st_Nil s)
  then show ?case by (simp add: sent_blocks_def NewEthBlockStreamer_def)
next
  case (st_snoc s es s' e s'')
  then show ?case
    by (auto elim!: st_step.cases start_stepE dial_stepE stream_stepE outer_stepE simp: sent_blocks_def split: if_splits)
qed

lemma in_st_events: "e \<in> set (st_events es) \<longleftrightarrow> FlStreamer e \<in> set es"
proof -
  have "e \<in> set (st_event_of x) \<longleftrightarrow> x = FlStreamer e" for x by (cases x) auto
  then show ?thesis by (auto simp: st_events_def)
qed

lemma flow_submitted:
  assumes "flow_run (flow_init n lt) es f" and "1 \<le> n" and "n \<le> 256"
    and "b \<in> set (seen submitted_of (pool_events es))"
  shows "b \<in> set (sent_blocks (st_events es))" and "FlStreamer (StBlock b) \<in> set es"
proof -
  note pr = flow_projects [OF assms(1) refl assms(2,3), THEN conjunct1]
  have h: "hand_inv es f" using flow_inv [OF assms(1) refl] by simp
  then have "b \<in> set (seen handed_of (pool_events es))"
    using assms(4) list_emb_set [of "(=)"] unfolding hand_inv_def by metis
  with h have "b \<in> set (received_blocks (st_events es))" by (simp add: hand_inv_def)
  with streamer_inv [OF pr refl] show sent: "b \<in> set (sent_blocks (st_events es))" by (simp add: chan_inv_def)
  with sent_were_read [OF pr refl] show "FlStreamer (StBlock b) \<in> set es" by (simp add: in_st_events)
qed

section \<open>From the node to the state engine\<close>

lemma sys_pool [simp]: "wk_pool (sys_work s) = fl_pool (sys_flow s)" "wk_engine (sys_work s) = sys_engine s"
  "wk_calls (sys_work s) = sys_calls s"
  by (simp_all add: sys_work_def)

lemma seen_started [simp]:
  "seen submitted_of (PoolStarted n # es) = seen submitted_of es" "seen began_of (PoolStarted n # es) = seen began_of es"
  "seen processed_of (PoolStarted n # es) = seen processed_of es" "seen dropped_of (PoolStarted n # es) = seen dropped_of es"
  by (simp_all add: seen_def)

text \<open>C6: with one worker the whole process is a fold. Whatever its goroutines have done, and whenever the
  worker is between two calls, the reorg engine is what \<open>ProcessBlock\<close> makes, one after the other, of
  some of the blocks the streamer sent, in the order it sent them; until a shutdown begins these are
  its first ones, with none left out; once \<open>main\<close> has stopped the pool they are all the blocks the pool
  ever took.\<close>

theorem end_to_end:
  assumes "sys_run cl sha256 (sys_init 1 lt re0) es s" and "sys_calls s 0 = None"
  defines "snt \<equiv> sent_blocks (st_events (flow_view es))" and "tr \<equiv> pool_events (flow_view es)"
  shows "\<exists>cbs. sys_engine s = fold (process_step cl sha256) cbs re0 \<and>
    seen processed_of tr = accepted cl sha256 cbs re0 \<and> subseq (map snd cbs) snt \<and>
    (\<not> stop_closed (fl_pool (sys_flow s)) \<longrightarrow> prefix (map snd cbs) snt) \<and>
    (fl_main (sys_flow s) = MainStreamer \<longrightarrow> map snd cbs = seen submitted_of tr)"
proof -
  note v = sys_views [OF assms(1)]
  note fl = v(1)
  have none: "wk_calls (sys_work s) 0 = None" using assms(2) by simp
  obtain cbs u where o: "wk_engine (sys_work s) = fold (process_step cl sha256) cbs re0"
    "seen processed_of (pool_trace 1 (work_view es)) = accepted cl sha256 cbs re0"
    "workers (wk_pool (sys_work s)) = [u]"
    "seen submitted_of (pool_trace 1 (work_view es)) =
      map snd cbs @ held_of u @ seen dropped_of (pool_trace 1 (work_view es)) @ pool_queue (wk_pool (sys_work s))"
    "u = Exited \<Longrightarrow> \<not> ctx_done (wk_pool (sys_work s)) \<Longrightarrow> seen submitted_of (pool_trace 1 (work_view es)) = map snd cbs"
    using serial_outcome [OF v(2) none] by metis
  note cbs = o(1-3) [unfolded v(3) sys_pool seen_started, folded tr_def]
  note sub = o(4) [unfolded v(3) sys_pool seen_started, folded tr_def]
  note all = o(5) [unfolded v(3) sys_pool seen_started, folded tr_def]
  have h: "hand_inv (flow_view es) (sys_flow s)" using flow_inv [OF fl refl] by simp
  have st: "chan_inv (st_events (flow_view es)) (fl_streamer (sys_flow s))"
    using streamer_inv [OF flow_projects [OF fl refl, THEN conjunct1]] by simp
  have snt: "snt = seen handed_of tr @ in_hand (fl_forward (sys_flow s)) @ buffered (fl_streamer (sys_flow s))"
    using st h by (simp add: chan_inv_def hand_inv_def snt_def tr_def)
  have "subseq (map snd cbs) (seen submitted_of tr)" unfolding sub by (simp add: subseq_rev_drop_many)
  moreover have "subseq (seen submitted_of tr) (seen handed_of tr)" using h by (simp add: hand_inv_def tr_def)
  ultimately have "subseq (map snd cbs) (seen handed_of tr)" by (rule subseq_order.trans)
  then have "subseq (map snd cbs) snt" unfolding snt by (rule subseq_rev_drop_many)
  moreover have "prefix (map snd cbs) snt" if "\<not> stop_closed (fl_pool (sys_flow s))"
    using that h sub unfolding snt by (simp add: hand_inv_def tr_def)
  moreover have "map snd cbs = seen submitted_of tr" if "fl_main (sys_flow s) = MainStreamer"
  proof -
    have "u = Exited" using flow_drained [OF fl refl] that cbs(3) by simp
    moreover have "\<not> ctx_done (fl_pool (sys_flow s))"
      using flow_not_cancelled [OF fl] by (simp add: flow_init_def started_pool) (simp add: NewPool_def)
    ultimately show ?thesis using all by simp
  qed
  ultimately show ?thesis using cbs(1,2) by blast
qed

section \<open>A live chain\<close>

text \<open>A block the empty engine cannot apply: well-formed, with another number than 1.\<close>

definition not_first :: "block \<Rightarrow> bool" where
  "not_first b \<longleftrightarrow> wf_block b \<and> Number b \<noteq> 1"

text \<open>Program points of a call for such a block.\<close>

fun refused_pc :: "'e call_pc \<Rightarrow> bool" where
  "refused_pc Detecting \<longleftrightarrow> True"
| "refused_pc Applying \<longleftrightarrow> True"
| "refused_pc (Finished r) \<longleftrightarrow> isl r"
| "refused_pc pc \<longleftrightarrow> False"

lemma fresh_call_step:
  assumes "digest32 blake3" and "not_first b" and "refused_pc pc"
    and "call_step (go_ffi blake3) sha256 clk b (NewReorgEngine fresh_ffi, pc) = (re', pc')"
  shows "re' = NewReorgEngine fresh_ffi \<and> refused_pc pc'"
proof -
  obtain e where e: "ApplyBlock blake3 (Some b) fresh_ffi = (fresh_ffi, Inl e)"
    using ApplyBlock_wrong_number [OF assms(1)] assms(2) unfolding not_first_def by blast
  let ?re = "NewReorgEngine fresh_ffi"
  have "Size (ringBuffer ?re) = 0" by (simp add: NewReorgEngine_def) (simp add: NewRingBuffer_def Size_def)
  then have "DetectReorg sha256 b ?re = Inr (False, 0)" by (simp add: DetectReorg_def)
  moreover have "re_ffi ?re = fresh_ffi" "?re\<lparr>re_ffi := fresh_ffi\<rparr> = ?re" by (simp_all add: NewReorgEngine_def)
  ultimately show ?thesis using assms(3,4) e by (cases pc) auto
qed

definition fresh_inv :: "(ffi_state, 'e) work \<Rightarrow> bool" where
  "fresh_inv w \<longleftrightarrow> wk_engine w = NewReorgEngine fresh_ffi \<and>
     (\<forall>i clk pc. wk_calls w i = Some (clk, pc) \<longrightarrow> refused_pc pc)"

lemma fresh_step:
  assumes "fresh_inv w" and "digest32 blake3" and "\<And>i b. Worker_Pool.at i (Processing b) (wk_pool w) \<Longrightarrow> not_first b"
    and "work_step (go_ffi blake3) sha256 w e w'"
  shows "fresh_inv w' \<and> seen processed_of (pool_part e) = []"
  using assms(4)
proof cases
  case (wk_call i b clk pc re' pc')
  have "refused_pc pc" using assms(1) wk_call(5) unfolding fresh_inv_def by blast
  from fresh_call_step [OF assms(2) assms(3) [OF wk_call(4)] this] wk_call(7) assms(1)
  have "re' = NewReorgEngine fresh_ffi \<and> refused_pc pc'" by (simp add: fresh_inv_def)
  with assms(1) wk_call(1,2) show ?thesis by (auto simp: fresh_inv_def seen_def)
next
  case (wk_return i clk r b p')
  have "refused_pc (Finished r)" using assms(1) wk_return(4) unfolding fresh_inv_def by blast
  with assms(1) wk_return(1,2) show ?thesis by (cases r) (auto simp: fresh_inv_def seen_def)
next
  case (wk_other x p')
  then have "processed_of x = []" by (cases x) simp_all
  with assms(1) wk_other(1,2) show ?thesis by (auto simp: fresh_inv_def seen_def)
qed (use assms(1) in \<open>auto simp: fresh_inv_def seen_def\<close>)

lemma processing_submitted:
  assumes "held_inv bs p" and "Worker_Pool.at i (Processing b) p"
  shows "b \<in> bs"
proof -
  have "Processing b \<in> set (workers p)" using assms(2) nth_mem unfolding at_def by metis
  with assms(1) have "held_block (Processing b) \<subseteq> bs" unfolding held_inv_def by blast
  then show ?thesis by simp
qed

lemma fresh_run:
  "work_run (go_ffi blake3) sha256 w0 es w \<Longrightarrow> w0 = work_init n (NewReorgEngine fresh_ffi) \<Longrightarrow> 1 \<le> n \<Longrightarrow> n \<le> 256 \<Longrightarrow>
     digest32 blake3 \<Longrightarrow> list_all not_first (seen submitted_of (pool_trace n es)) \<Longrightarrow>
     fresh_inv w \<and> seen processed_of (pool_trace n es) = []"
proof (induction rule: work_run.induct)
  case (wk_Nil w)
  then show ?case by (simp add: fresh_inv_def work_init_def seen_def)
next
  case (wk_snoc w es w' e w'')
  have nf: "list_all not_first (seen submitted_of (pool_trace n es))"
    using wk_snoc.prems(5) by (simp add: seen_def)
  then have wf: "list_all wf_block (seen submitted_of (pool_trace n es))" by (auto simp: list_all_iff not_first_def)
  have "calls_inv (pool_trace n es) w'"
    using wk_snoc.hyps(1) wk_snoc.prems(1-4) wf by (rule calls_inv_run)
  then have "not_first b" if "Worker_Pool.at i (Processing b) (wk_pool w')" for i b
    using processing_submitted [OF _ that] nf unfolding calls_inv_def list_all_iff by blast
  with wk_snoc nf fresh_step [OF _ wk_snoc.prems(4) _ wk_snoc.hyps(2)] show ?case
    by (auto simp: seen_def)
qed

lemma flow_view_set: "FlStreamer e \<in> set (flow_view es) \<longleftrightarrow> SysFlow (FlStreamer e) \<in> set es"
proof -
  have "y \<in> set (flow_part x) \<longleftrightarrow> x = SysFlow y" for x y by (cases x) auto
  then show ?thesis by (auto simp: flow_view_def)
qed

text \<open>C16: a server attached to a running chain applies nothing. Load testing is off, so the streamer is the
  only source of blocks; and let the blocks it reads come from frames whose header notifications
  announce blocks other than number 1, as on every chain past its first block. Then, for every number
  of workers, and however the streamer, the forwarder, the workers, their calls to the engine, and a
  shutdown interleave, the reorg engine and the state engine below it are what they were at the start,
  no block counts as processed, and what \<open>main\<close> logs as the final state is an empty one at block 0.\<close>

theorem live_chain_system:
  assumes "sys_run (go_ffi blake3) sha256 (sys_init n False (NewReorgEngine fresh_ffi)) es s" and "1 \<le> n" and "n \<le> 256"
    and "digest32 blake3" and "list_all (\<lambda>fs. list_all (\<lambda>h. fst h \<noteq> 1) (headers_in fs)) sessions"
    and "\<And>b. SysFlow (FlStreamer (StBlock b)) \<in> set es \<Longrightarrow> \<exists>fs\<in>set sessions. b \<in> set (stream_loop fs)"
  shows "sys_engine s = NewReorgEngine fresh_ffi \<and> processedBlocks (fl_pool (sys_flow s)) = 0 \<and>
    seen processed_of (pool_events (flow_view es)) = [] \<and>
    final_state pf (re_ffi (sys_engine s)) = (Inr (replicate 32 0),
      Inr \<lparr>BlockNumber = 0, StateSize = 0, HistoryLength = 0, MemoryUsageBytes = 0\<rparr>)"
proof -
  note v = sys_views [OF assms(1)]
  have "not_first b" if "b \<in> set (seen submitted_of (pool_events (flow_view es)))" for b
    using flow_submitted(2) [OF v(1) assms(2,3) that] assms(6) streamed_not_first [OF assms(5)]
    unfolding flow_view_set not_first_def by blast
  then have "list_all not_first (seen submitted_of (pool_trace n (work_view es)))"
    unfolding v(3) seen_started list_all_iff by blast
  from fresh_run [OF v(2) refl assms(2-4) this]
  have f: "sys_engine s = NewReorgEngine fresh_ffi" "seen processed_of (pool_events (flow_view es)) = []"
    unfolding v(3) seen_started fresh_inv_def by simp_all
  have "pool_inv (PoolStarted n # pool_events (flow_view es)) (fl_pool (sys_flow s))"
    using pool_inv_run [OF flow_projects [OF v(1) refl assms(2,3), THEN conjunct2] refl] .
  moreover have "re_ffi (sys_engine s) = fresh_ffi" unfolding f(1) by (simp add: NewReorgEngine_def)
  ultimately show ?thesis using f final_state_fresh by (simp add: pool_inv_def event_inv_def)
qed

section \<open>Runs\<close>

interpretation sys_runs: labelled_runs "sys_step cl sha256" "sys_run cl sha256" for cl sha256
proof
  show "sys_run cl sha256 s [] s" for s by (rule sys_Nil)
  show "sys_run cl sha256 s (es @ [e]) u" if "sys_run cl sha256 s es t" "sys_step cl sha256 t e u" for s es t e u
    using that by (rule sys_run.sys_snoc)
  show "P es t" if "sys_run cl sha256 s es t" "P [] s"
    "\<And>ds u e v. sys_run cl sha256 s ds u \<Longrightarrow> P ds u \<Longrightarrow> sys_step cl sha256 u e v \<Longrightarrow> P (ds @ [e]) v" for s es t P
    using that by (induction rule: sys_run.induct) blast+
qed

text \<open>A run of the flow without calls, and a run of calls, are runs of the process.\<close>

lemma flow_only:
  "flow_run f es f' \<Longrightarrow> list_all (\<lambda>e. list_all (\<lambda>x. \<not> call_event x) (pool_event_of e)) es \<Longrightarrow> sys_flow s = f \<Longrightarrow>
     sys_run cl sha256 s (map SysFlow es) (s\<lparr>sys_flow := f'\<rparr>)"
proof (induction rule: flow_run.induct)
  case (fl_Nil f)
  then have "s\<lparr>sys_flow := f\<rparr> = s" by (cases s) simp
  with sys_Nil [of cl sha256 s] show ?case by simp
next
  case (fl_snoc f es f' e f'')
  then have r: "sys_run cl sha256 s (map SysFlow es) (s\<lparr>sys_flow := f'\<rparr>)" by simp
  have "sys_step cl sha256 (s\<lparr>sys_flow := f'\<rparr>) (SysFlow e) (s\<lparr>sys_flow := f'\<rparr>\<lparr>sys_flow := f''\<rparr>)"
    using fl_snoc by (intro sys_flows) simp_all
  with sys_run.sys_snoc [OF r this] show ?case by simp
qed

fun call_only :: "work_event \<Rightarrow> bool" where
  "call_only (WkPool x) \<longleftrightarrow> call_event x"
| "call_only (WkCall i) \<longleftrightarrow> True"

fun as_sys :: "work_event \<Rightarrow> sys_event" where
  "as_sys (WkPool x) = SysFlow (FlPool x)"
| "as_sys (WkCall i) = SysCall i"

lemma with_work_again [simp]: "with_work w (with_work v s) = with_work w s"
  by (simp add: with_work_def)

lemma calls_only:
  "work_run cl sha256 w es w' \<Longrightarrow> list_all call_only es \<Longrightarrow> sys_work s = w \<Longrightarrow> (\<And>c. fl_main (sys_flow s) \<noteq> MainExit c) \<Longrightarrow>
     sys_run cl sha256 s (map as_sys es) (with_work w' s)"
proof (induction rule: work_run.induct)
  case (wk_Nil w)
  then have "with_work w s = s" by (auto simp: with_work_def sys_work_def)
  with sys_Nil [of cl sha256 s] show ?case by simp
next
  case (wk_snoc w es w' e w'')
  then have r: "sys_run cl sha256 s (map as_sys es) (with_work w' s)" by simp
  have c: "\<not> crashed (wk_pool w')"
    using wk_snoc.hyps(2) wk_snoc.prems(1) by (auto elim!: work_stepE)
  then have alive: "flow_alive (sys_flow (with_work w' s))"
    using wk_snoc.prems(3) by (simp add: flow_alive_def with_work_def)
  have "sys_step cl sha256 (with_work w' s) (as_sys e) (with_work w'' (with_work w' s))"
  proof (cases e)
    case (WkPool x)
    with alive wk_snoc.hyps(2) wk_snoc.prems(1) show ?thesis using sys_boundary [of "with_work w' s" x cl sha256 w''] by simp
  next
    case (WkCall i)
    with alive wk_snoc.hyps(2) show ?thesis using sys_call [of "with_work w' s" cl sha256 i w''] by simp
  qed
  with sys_run.sys_snoc [OF r] show ?case by simp
qed

text \<open>One block on its way from the node to the state engine, with one worker.\<close>

definition journey_in :: "block \<Rightarrow> flow_event list" where
  "journey_in b = [FlStreamer StStart, FlStreamer StDialBegin, FlStreamer StDialOk, FlServe, FlStreamer StSubscribed,
     FlStreamer (StBlock b), FlStreamer (StSent b), FlStreamer (StReceived b), FlPool (WorkerStarted 0),
     FlPool (Submitted b), FlPool (Received 0 b)]"

definition journey_call :: "block \<Rightarrow> work_event list" where
  "journey_call b = [WkPool (Began 0 b), WkCall 0, WkCall 0, WkCall 0, WkPool (Processed 0 b)]"

definition journey_out :: "flow_event list" where
  "journey_out = [FlSignal, FlPool StopSignalled, FlPool ChannelClosed, FlPool (WorkerExited 0), FlPool StopReturned]"

definition journey :: "block \<Rightarrow> sys_event list" where
  "journey b = map SysFlow (journey_in b) @ map as_sys (journey_call b) @ map SysFlow journey_out"

definition journey_streamer :: streamer where
  "journey_streamer = \<lparr>conn = Some 0, isConnected = True, open_conns = [0], dialed = 1, stopCh_closed = False,
     st_ctx = Some False, buffered = [], blocks_closed = False, st_pc = Reading, stop_panicked = False\<rparr>"

definition journey_pool :: "block worker_pc \<Rightarrow> block pool" where
  "journey_pool v = NewPool\<lparr>numWorkers := 1, blocks := Some [], wg := 1, activeWorkers := 1, workers := [v]\<rparr>"

definition journey_flow :: "block pool \<Rightarrow> main_pc \<Rightarrow> flow" where
  "journey_flow p m = \<lparr>fl_streamer = journey_streamer, fl_pool = p, fl_forward = FwIdle, fl_main = m, fl_loadtest = False\<rparr>"

lemma work_now:
  "worker_step (fl_pool f) e p' \<Longrightarrow> flow_alive f \<Longrightarrow> flow_run (f\<lparr>fl_pool := p'\<rparr>) es h \<Longrightarrow> flow_run f (FlPool e # es) h"
  by (blast intro: flow_then flow_step.intros)

lemma journey_in_run:
  assumes "streamer_validateBlock b"
  shows "flow_run (flow_init 1 False) (journey_in b) (journey_flow (journey_pool (Holding b)) MainServing)"
  unfolding journey_in_def flow_init_def started1
  unfolding NewEthBlockStreamer_def NewPool_def
  apply (rule start_now [OF st_start], simp, simp add: flow_alive_def, simp, simp)
  apply (simp only: flow_norm)
  apply (rule dial_now [OF dial_begin], simp, simp, simp add: flow_alive_def, simp, simp)
  apply (simp only: flow_norm)
  apply (rule dial_now [OF dial_ok], simp, simp add: flow_alive_def, simp, simp)
  apply (simp only: flow_norm)
  apply (rule main_now [OF mn_serve], simp, simp, simp, simp add: flow_alive_def)
  apply (simp only: flow_norm)
  apply (rule stream_now [OF subscribed], simp, simp add: conn_open_def, simp add: flow_alive_def, simp, simp)
  apply (simp only: flow_norm)
  apply (rule stream_now [OF read_block], simp, simp add: halted_def, simp add: assms, simp add: flow_alive_def, simp, simp)
  apply (simp only: flow_norm)
  apply (rule stream_now [OF sent], simp, simp, simp add: flow_alive_def, simp, simp)
  apply (simp only: flow_norm)
  apply (rule forward_now [OF fw_receive], simp, rule st_step.outer, simp, rule received, simp, simp add: flow_alive_def)
  apply (simp only: flow_norm)
  apply (rule work_now [OF wstart], simp, simp, simp add: flow_alive_def)
  apply (simp only: flow_norm)
  apply (rule forward_now [OF fw_submit], simp, simp, rule send, simp, simp, simp, simp add: flow_alive_def)
  apply (simp only: flow_norm)
  apply (rule work_now [OF receive], simp, simp, simp, simp add: flow_alive_def)
  apply (simp add: fl_Nil journey_flow_def journey_streamer_def journey_pool_def NewPool_def)
  done

lemma journey_out_run:
  "\<exists>f. flow_run (journey_flow ((journey_pool Waiting)\<lparr>processedBlocks := 1\<rparr>) MainServing) journey_out f \<and>
     fl_main f = MainStreamer"
proof -
  let ?f = "journey_flow \<lparr>blocks = Some [], chan_closed = True, stop_closed = True, ctx_done = False, crashed = False,
    wg = 0, activeWorkers = 0, numWorkers = 1, panicCount = 0, processedBlocks = 1, workers = [Exited]\<rparr> MainStreamer"
  have "flow_run (journey_flow ((journey_pool Waiting)\<lparr>processedBlocks := 1\<rparr>) MainServing) journey_out ?f"
    unfolding journey_out_def journey_flow_def journey_pool_def NewPool_def
    apply (simp only: flow_norm)
    apply (rule main_now [OF mn_signal], simp, simp add: flow_alive_def)
    apply (simp only: flow_norm)
    apply (rule main_now [OF mn_close_stop], simp, rule close_stop, simp, simp add: flow_alive_def)
    apply (simp only: flow_norm)
    apply (rule main_now [OF mn_close_blocks], simp, rule close_blocks, simp, simp, simp, simp add: flow_alive_def)
    apply (simp only: flow_norm)
    apply (rule work_now [OF wexit], simp, simp, simp, simp, simp add: flow_alive_def)
    apply (simp only: flow_norm)
    apply (rule main_now [OF mn_drained], simp, rule wait_done, simp, simp, simp add: flow_alive_def)
    apply (simp add: fl_Nil)
    done
  then show ?thesis by (intro exI [of _ ?f]) (simp add: journey_flow_def)
qed

lemma journey_call_run:
  fixes cl :: "('c, 'e) FFIClient"
  assumes "call_step cl H (0, 0, 0) c (re0, Detecting) = (re0, Applying)"
    and "call_step cl H (0, 0, 0) c (re0, Applying) = (re1, AddingTip)"
    and "call_step cl H (0, 0, 0) c (re1, AddingTip) = (re2, Finished (Inr ()))"
  shows "\<exists>w. work_run cl H \<lparr>wk_pool = journey_pool (Holding c), wk_engine = re0, wk_calls = (\<lambda>i. None)\<rparr> (journey_call c) w \<and>
    wk_pool w = (journey_pool Waiting)\<lparr>processedBlocks := 1\<rparr> \<and> wk_engine w = re2 \<and> wk_calls w 0 = None"
proof -
  have "\<exists>w. exec_works cl H \<lparr>wk_pool = journey_pool (Holding c), wk_engine = re0, wk_calls = (\<lambda>i. None)\<rparr> (journey_call c) = Some w \<and>
    wk_pool w = (journey_pool Waiting)\<lparr>processedBlocks := 1\<rparr> \<and> wk_engine w = re2 \<and> wk_calls w 0 = None"
    by (simp add: journey_call_def journey_pool_def NewPool_def Worker_Pool.at_def exec_call_def assms del: call_step.simps)
  then show ?thesis using exec_works_sound by blast
qed

lemma journey_run:
  fixes cl :: "('c, 'e) FFIClient"
  assumes "streamer_validateBlock c"
    and "call_step cl H (0, 0, 0) c (re0, Detecting) = (re0, Applying)"
    and "call_step cl H (0, 0, 0) c (re0, Applying) = (re1, AddingTip)"
    and "call_step cl H (0, 0, 0) c (re1, AddingTip) = (re2, Finished (Inr ()))"
  shows "\<exists>s. sys_run cl H (sys_init 1 False re0) (journey c) s \<and> sys_engine s = re2 \<and> sys_calls s 0 = None \<and>
    fl_main (sys_flow s) = MainStreamer"
proof -
  let ?f = "journey_flow (journey_pool (Holding c)) MainServing"
  let ?s = "\<lparr>sys_flow = ?f, sys_engine = re0, sys_calls = (\<lambda>i. None)\<rparr> :: ('c, 'e) system"
  have "sys_run cl H (sys_init 1 False re0) (map SysFlow (journey_in c)) ((sys_init 1 False re0)\<lparr>sys_flow := ?f\<rparr>)"
    by (rule flow_only [OF journey_in_run [OF assms(1)]]) (simp_all add: journey_in_def sys_init_def)
  then have a: "sys_run cl H (sys_init 1 False re0) (map SysFlow (journey_in c)) ?s" by (simp add: sys_init_def)
  obtain w where w: "work_run cl H (sys_work ?s) (journey_call c) w"
    "wk_pool w = (journey_pool Waiting)\<lparr>processedBlocks := 1\<rparr>" "wk_engine w = re2" "wk_calls w 0 = None"
    using journey_call_run [OF assms(2-4)] by (auto simp: sys_work_def journey_flow_def)
  have b: "sys_run cl H ?s (map as_sys (journey_call c)) (with_work w ?s)"
    by (rule calls_only [OF w(1)]) (simp_all add: journey_call_def journey_flow_def)
  have mid: "sys_flow (with_work w ?s) = journey_flow ((journey_pool Waiting)\<lparr>processedBlocks := 1\<rparr>) MainServing"
    "sys_engine (with_work w ?s) = re2" "sys_calls (with_work w ?s) 0 = None"
    using w by (simp_all add: with_work_def journey_flow_def)
  obtain f where f: "flow_run (sys_flow (with_work w ?s)) journey_out f" "fl_main f = MainStreamer"
    using journey_out_run unfolding mid by blast
  have c: "sys_run cl H (with_work w ?s) (map SysFlow journey_out) ((with_work w ?s)\<lparr>sys_flow := f\<rparr>)"
    by (rule flow_only [OF f(1)]) (simp_all add: journey_out_def)
  have "sys_run cl H (sys_init 1 False re0) (journey c) ((with_work w ?s)\<lparr>sys_flow := f\<rparr>)"
    using sys_runs.runs_append [OF c sys_runs.runs_append [OF b a]] by (simp add: journey_def)
  with f(2) mid show ?thesis by (intro exI [of _ "(with_work w ?s)\<lparr>sys_flow := f\<rparr>"]) simp
qed

theorem end_to_end_witness:
  "\<exists>s clk. sys_run (go_ffi zero_digest) number_digest (sys_init 1 False (NewReorgEngine fresh_ffi)) (journey (chain_block 1 0)) s \<and>
     fl_main (sys_flow s) = MainStreamer \<and>
     sys_engine s = process_step (go_ffi zero_digest) number_digest (clk, chain_block 1 0) (NewReorgEngine fresh_ffi)"
proof -
  let ?c = "chain_block 1 0"
  note st = swapped_steps [OF digest32_zero three_chain_blocks]
  have ok: "streamer_validateBlock ?c" by (simp add: streamer_validateBlock_def chain_block_def empty_block_def)
  obtain s where s: "sys_run (go_ffi zero_digest) number_digest (sys_init 1 False (NewReorgEngine fresh_ffi)) (journey ?c) s"
    "sys_calls s 0 = None" "fl_main (sys_flow s) = MainStreamer"
    using journey_run [OF ok st(3-5)] by (auto simp: reorg_at_New)
  from end_to_end [OF s(1,2)] s(3) obtain cbs where
    "map snd cbs = seen submitted_of (pool_events (flow_view (journey ?c)))"
    "sys_engine s = fold (process_step (go_ffi zero_digest) number_digest) cbs (NewReorgEngine fresh_ffi)" by auto
  moreover have "seen submitted_of (pool_events (flow_view (journey ?c))) = [?c]"
    by (simp add: journey_def journey_in_def journey_call_def journey_out_def flow_view_def pool_events_def seen_def)
  ultimately obtain clk where "cbs = [(clk, ?c)]" by (auto simp: map_eq_Cons_conv)
  with \<open>sys_engine s = _\<close> s show ?thesis by (intro exI [of _ s] exI [of _ clk]) simp
qed

theorem live_chain_system_witness:
  "\<exists>s. sys_run (go_ffi zero_digest) number_digest (sys_init 4 False (NewReorgEngine fresh_ffi)) (map SysFlow crash_trace) s \<and>
     sys_engine s = NewReorgEngine fresh_ffi \<and> processedBlocks (fl_pool (sys_flow s)) = 0"
proof -
  let ?fs = "[head_frame ''0x10'', head_frame ''0x11'']"
  let ?s0 = "sys_init 4 False (NewReorgEngine fresh_ffi) :: (ffi_state, ffi_error) system"
  obtain f where f: "flow_run (flow_init 4 False) crash_trace f" using crash_run [of 4 False] by auto
  have s: "sys_run (go_ffi zero_digest) number_digest ?s0 (map SysFlow crash_trace) (?s0\<lparr>sys_flow := f\<rparr>)"
    by (rule flow_only [OF f]) (simp_all add: crash_trace_def hold_trace_def sys_init_def)
  have heads: "list_all (\<lambda>fs. list_all (\<lambda>h. fst h \<noteq> 1) (headers_in fs)) [?fs]"
    by (simp add: two_heads)
  have read: "\<exists>fs\<in>set [?fs]. b \<in> set (stream_loop fs)"
    if "SysFlow (FlStreamer (StBlock b)) \<in> set (map SysFlow crash_trace)" for b
    using that by (auto simp: crash_trace_def hold_trace_def crash_block_def two_heads simp del: stream_loop.simps)
  have "sys_engine (?s0\<lparr>sys_flow := f\<rparr>) = NewReorgEngine fresh_ffi \<and>
      processedBlocks (fl_pool (sys_flow (?s0\<lparr>sys_flow := f\<rparr>))) = 0"
    using live_chain_system [OF s _ _ digest32_zero heads read] by simp
  with s show ?thesis by (intro exI [of _ "?s0\<lparr>sys_flow := f\<rparr>"]) (rule conjI)
qed

end
