(* ===== verification/Http_Servers.thy ===== *)
theory Http_Servers
  imports Server
begin

text \<open>
  The two HTTP listeners, of \<^verbatim>\<open>mcp/server.go\<close> and \<^verbatim>\<open>metrics/collector.go\<close>: their routes, \<open>Start\<close> with
  the goroutines it starts, \<open>Stop\<close>, and the time limits. Of \<open>net/http\<close> the model has what its
  documentation says: the rules of \<open>ServeMux\<close>, that \<open>ListenAndServe\<close> fails when its address cannot be bound
  (when that is the case belongs to the operating system and is a parameter) and returns \<open>ErrServerClosed\<close> after \<open>Shutdown\<close>, that \<open>Shutdown\<close> waits for the requests in progress until its
  context ends, and that a reply must be written within \<open>WriteTimeout\<close> of the end of the request header.
\<close>

section \<open>Routes\<close>

text \<open>A pattern that ends in a slash matches all paths below it; the longest match wins. Paths are those
  the mux has cleaned.\<close>

definition pattern_matches :: "string \<Rightarrow> string \<Rightarrow> bool" where
  "pattern_matches pat path \<longleftrightarrow>
     (if pat \<noteq> [] \<and> last pat = CHR ''/'' then take (length pat) path = pat else path = pat)"

fun mux_handler :: "(string \<times> 'h) list \<Rightarrow> string \<Rightarrow> (string \<times> 'h) option" where
  "mux_handler [] path = None"
| "mux_handler ((pat, h) # rest) path =
     (case mux_handler rest path of
        Some (pat', h') \<Rightarrow>
          if pattern_matches pat path \<and> length pat' < length pat then Some (pat, h) else Some (pat', h')
      | None \<Rightarrow> if pattern_matches pat path then Some (pat, h) else None)"

text \<open>The Prometheus handler belongs to its library.\<close>

datatype endpoint = PromHandler | Health | Livez | Readyz | DebugGC | DebugState

definition collector_routes :: "(string \<times> endpoint) list" where
  "collector_routes = [(''/metrics'', PromHandler), (''/health'', Health), (''/livez'', Livez),
     (''/readyz'', Readyz), (''/debug/gc'', DebugGC), (''/debug/state'', DebugState)]"

datatype collector_reply =
    PromText
  | Probe "int \<times> probe_text"
  | GCReply "u32 \<times> u64 \<times> u64 list \<times> u64 option"
  | StateReply state_reply
  | NotFound

definition collector_serve :: "mem_stats \<Rightarrow> 's \<Rightarrow> 's collector \<Rightarrow> string \<Rightarrow> collector_reply" where
  "collector_serve mem s c path =
     (case map_option snd (mux_handler collector_routes path) of
        None \<Rightarrow> NotFound
      | Some PromHandler \<Rightarrow> PromText
      | Some Health \<Rightarrow> Probe (handleHealth s c)
      | Some Livez \<Rightarrow> Probe (handleLivez s c)
      | Some Readyz \<Rightarrow> Probe (handleReadyz s c)
      | Some DebugGC \<Rightarrow> GCReply (handleDebugGC mem)
      | Some DebugState \<Rightarrow> StateReply (handleDebugState s c))"

text \<open>The MCP server registers one handler, for the root.\<close>

definition mcp_routes :: "(string \<times> unit) list" where
  "mcp_routes = [(''/'', ())]"

lemma no_match: "mux_handler rs path = None \<longleftrightarrow> (\<forall>(pat, h)\<in>set rs. \<not> pattern_matches pat path)"
  by (induction rs) (auto split: option.splits if_splits)

text \<open>Each of the six paths reaches its handler, every other path is not found; and every path of a request
  reaches the MCP handler.\<close>

lemma collector_serves:
  "collector_serve mem s c path =
     (if path = ''/metrics'' then PromText
      else if path = ''/health'' then Probe (handleHealth s c)
      else if path = ''/livez'' then Probe (handleLivez s c)
      else if path = ''/readyz'' then Probe (handleReadyz s c)
      else if path = ''/debug/gc'' then GCReply (handleDebugGC mem)
      else if path = ''/debug/state'' then StateReply (handleDebugState s c)
      else NotFound)"
  by (simp add: collector_serve_def collector_routes_def pattern_matches_def)

lemma mcp_serves: "mux_handler mcp_routes path \<noteq> None \<longleftrightarrow> (\<exists>rest. path = CHR ''/'' # rest)"
  unfolding no_match by (cases path) (auto simp: mcp_routes_def pattern_matches_def)

section \<open>Starting and stopping\<close>

datatype listen_pc = NotSpawned | Spawned | Listening | ListenReturned bool

text \<open>The flag of \<open>ListenReturned\<close> says that an error was logged. Requests in progress are named; each
  carries the time its header was read. A time-out of 0 is none.\<close>

record http_server =
  hs_host :: string
  hs_port :: int
  hs_read_timeout :: int
  hs_write_timeout :: int
  hs_pc :: listen_pc
  hs_in_shutdown :: bool
  hs_active :: "(nat \<times> int) list"

definition mcp_http :: "int \<Rightarrow> http_server" where
  "mcp_http port = \<lparr>hs_host = ''127.0.0.1'', hs_port = port, hs_read_timeout = 10 * second,
     hs_write_timeout = 10 * second, hs_pc = NotSpawned, hs_in_shutdown = False, hs_active = []\<rparr>"

definition metrics_http :: "int \<Rightarrow> http_server" where
  "metrics_http port = \<lparr>hs_host = [], hs_port = port, hs_read_timeout = 0,
     hs_write_timeout = 0, hs_pc = NotSpawned, hs_in_shutdown = False, hs_active = []\<rparr>"

datatype which = MetricsSrv | McpSrv

text \<open>Both servers, the goroutine of \<open>collectPeriodically\<close>, the collector's stop channel and wait group.\<close>

record net =
  nt_metrics :: http_server
  nt_mcp :: http_server
  nt_collecting :: bool
  nt_stopCh :: bool
  nt_wg :: int

definition net_init :: "config \<Rightarrow> net" where
  "net_init cfg = \<lparr>nt_metrics = metrics_http (MetricsPort cfg), nt_mcp = mcp_http (MCPPort cfg),
     nt_collecting = False, nt_stopCh = False, nt_wg = 0\<rparr>"

fun server_of :: "which \<Rightarrow> net \<Rightarrow> http_server" where
  "server_of MetricsSrv n = nt_metrics n"
| "server_of McpSrv n = nt_mcp n"

fun with_server :: "which \<Rightarrow> http_server \<Rightarrow> net \<Rightarrow> net" where
  "with_server MetricsSrv s n = n\<lparr>nt_metrics := s\<rparr>"
| "with_server McpSrv s n = n\<lparr>nt_mcp := s\<rparr>"

text \<open>The goroutine of a server returns; only the collector's is counted.\<close>

definition serve_returns :: "which \<Rightarrow> bool \<Rightarrow> net \<Rightarrow> net" where
  "serve_returns w logged n =
     (let n1 = with_server w ((server_of w n)\<lparr>hs_pc := ListenReturned logged\<rparr>) n
      in if w = MetricsSrv then n1\<lparr>nt_wg := nt_wg n - 1\<rparr> else n1)"

definition collector_Start :: "net \<Rightarrow> net \<times> string option" where
  "collector_Start n =
     (n\<lparr>nt_metrics := (nt_metrics n)\<lparr>hs_pc := Spawned\<rparr>, nt_collecting := True, nt_wg := nt_wg n + 2\<rparr>, None)"

definition mcp_Start :: "net \<Rightarrow> net \<times> string option" where
  "mcp_Start n = (n\<lparr>nt_mcp := (nt_mcp n)\<lparr>hs_pc := Spawned\<rparr>\<rparr>, None)"

text \<open>What the sockets and goroutines do. The parameter \<open>refused\<close> says which server the operating system
  refuses to bind, in the current state of both: this depends on the other sockets of the machine and
  on the platform's rules for the wildcard address and a specific one on the same port. The begin of a \<open>Shutdown\<close> closes the listener; its end is a step of its own, as is that of the wait.\<close>

datatype net_event =
    NtStart which
  | NtListening which
  | NtBindFailed which
  | NtServerClosed which
  | NtRequest which nat int
  | NtReply which nat
  | NtStopCh
  | NtShutdown which
  | NtShutdownDone which
  | NtCollectReturns
  | NtWaitDone

inductive net_step :: "(which \<Rightarrow> net \<Rightarrow> bool) \<Rightarrow> net \<Rightarrow> net_event \<Rightarrow> net \<Rightarrow> bool"
  for refused :: "which \<Rightarrow> net \<Rightarrow> bool" where
  nt_start_metrics: "hs_pc (nt_metrics n) = NotSpawned \<Longrightarrow> net_step refused n (NtStart MetricsSrv) (fst (collector_Start n))"
| nt_start_mcp: "hs_pc (nt_mcp n) = NotSpawned \<Longrightarrow> net_step refused n (NtStart McpSrv) (fst (mcp_Start n))"
| nt_listening: "hs_pc (server_of w n) = Spawned \<Longrightarrow> \<not> hs_in_shutdown (server_of w n) \<Longrightarrow> \<not> refused w n \<Longrightarrow>
    net_step refused n (NtListening w) (with_server w ((server_of w n)\<lparr>hs_pc := Listening\<rparr>) n)"
| nt_bind_failed: "hs_pc (server_of w n) = Spawned \<Longrightarrow> \<not> hs_in_shutdown (server_of w n) \<Longrightarrow> refused w n \<Longrightarrow>
    net_step refused n (NtBindFailed w) (serve_returns w True n)"
| nt_server_closed: "hs_pc (server_of w n) = Spawned \<or> hs_pc (server_of w n) = Listening \<Longrightarrow> hs_in_shutdown (server_of w n) \<Longrightarrow>
    net_step refused n (NtServerClosed w) (serve_returns w False n)"
| nt_request: "hs_pc (server_of w n) = Listening \<Longrightarrow> \<not> hs_in_shutdown (server_of w n) \<Longrightarrow> i \<notin> fst ` set (hs_active (server_of w n)) \<Longrightarrow>
    net_step refused n (NtRequest w i t) (with_server w ((server_of w n)\<lparr>hs_active := (i, t) # hs_active (server_of w n)\<rparr>) n)"
| nt_reply: "(i, t) \<in> set (hs_active (server_of w n)) \<Longrightarrow>
    net_step refused n (NtReply w i)
      (with_server w ((server_of w n)\<lparr>hs_active := filter (\<lambda>r. fst r \<noteq> i) (hs_active (server_of w n))\<rparr>) n)"
| nt_stop_ch: "\<not> nt_stopCh n \<Longrightarrow> net_step refused n NtStopCh (n\<lparr>nt_stopCh := True\<rparr>)"
| nt_shutdown: "w = MetricsSrv \<longrightarrow> nt_stopCh n \<Longrightarrow>
    net_step refused n (NtShutdown w) (with_server w ((server_of w n)\<lparr>hs_in_shutdown := True\<rparr>) n)"
| nt_shutdown_done: "hs_in_shutdown (server_of w n) \<Longrightarrow> hs_active (server_of w n) = [] \<Longrightarrow>
    net_step refused n (NtShutdownDone w) n"
| nt_collect_returns: "nt_collecting n \<Longrightarrow> nt_stopCh n \<Longrightarrow>
    net_step refused n NtCollectReturns (n\<lparr>nt_collecting := False, nt_wg := nt_wg n - 1\<rparr>)"
| nt_wait_done: "hs_in_shutdown (nt_metrics n) \<Longrightarrow> nt_wg n = 0 \<Longrightarrow> net_step refused n NtWaitDone n"

inductive net_run :: "(which \<Rightarrow> net \<Rightarrow> bool) \<Rightarrow> net \<Rightarrow> net_event list \<Rightarrow> net \<Rightarrow> bool"
  for refused :: "which \<Rightarrow> net \<Rightarrow> bool" where
  nt_Nil: "net_run refused n [] n"
| nt_snoc: "net_run refused n es n' \<Longrightarrow> net_step refused n' e n'' \<Longrightarrow> net_run refused n (es @ [e]) n''"

inductive_cases net_stepE: "net_step refused n e n'"

interpretation net_runs: labelled_runs "net_step refused" "net_run refused" for refused
proof
  show "net_run refused s [] s" for s by (rule nt_Nil)
  show "net_run refused s (es @ [e]) u" if "net_run refused s es t" "net_step refused t e u" for s es t e u
    using that by (rule nt_snoc)
  show "P es t" if "net_run refused s es t" "P [] s"
    "\<And>ds u e v. net_run refused s ds u \<Longrightarrow> P ds u \<Longrightarrow> net_step refused u e v \<Longrightarrow> P (ds @ [e]) v" for s es t P
    using that by (induction rule: net_run.induct) blast+
qed

section \<open>Stopping the collector\<close>

text \<open>The wait group counts the goroutines of the collector that have not returned.\<close>

definition net_inv :: "net \<Rightarrow> bool" where
  "net_inv n \<longleftrightarrow>
     nt_wg n = (if nt_collecting n then 1 else 0) +
       (if hs_pc (nt_metrics n) = Spawned \<or> hs_pc (nt_metrics n) = Listening then 1 else 0) \<and>
     (hs_pc (nt_metrics n) = NotSpawned \<longrightarrow> \<not> nt_collecting n)"

lemma net_inv_init: "net_inv (net_init cfg)"
  by (simp add: net_inv_def net_init_def metrics_http_def)

lemma net_inv_step:
  assumes "net_inv n" and "net_step refused n e n'"
  shows "net_inv n'"
  using assms(2)
proof cases
  case (nt_listening w)
  with assms(1) show ?thesis by (cases w) (auto simp: net_inv_def)
next
  case (nt_bind_failed w)
  with assms(1) show ?thesis by (cases w) (auto simp: net_inv_def serve_returns_def Let_def)
next
  case (nt_server_closed w)
  with assms(1) show ?thesis by (cases w) (auto simp: net_inv_def serve_returns_def Let_def)
next
  case (nt_request w i t)
  with assms(1) show ?thesis by (cases w) (auto simp: net_inv_def)
next
  case (nt_reply i t w)
  with assms(1) show ?thesis by (cases w) (auto simp: net_inv_def)
next
  case (nt_shutdown w)
  with assms(1) show ?thesis by (cases w) (auto simp: net_inv_def)
qed (use assms(1) in \<open>auto simp: net_inv_def collector_Start_def mcp_Start_def\<close>)

lemma net_inv_run: "net_run refused (net_init cfg) es n \<Longrightarrow> net_inv n"
  by (erule net_runs.runs_keep) (auto intro: net_inv_init net_inv_step)

text \<open>The configuration does not compare the two ports. Where the system refuses the second bind, that
  server is missing, and both \<open>Start\<close> functions have returned before either binds.\<close>

definition one_port :: environ where
  "one_port = [''ETH_RPC_URL'' \<mapsto> ''ws://node'', ''METRICS_PORT'' \<mapsto> ''8080'']"

lemma Load_one_port:
  "Load one_port = Inr \<lparr>ETHRPCURL = ''ws://node'', WorkerCount = 4, MetricsPort = 8080, MCPPort = 8080,
     LoadTestEnabled = False\<rparr>"
proof -
  have "\<not> containsHardcodedSecret ''ws://node''"
    by (simp add: containsHardcodedSecret_def splitOnSlashes_def split_loop_scan key_like_def)
  then show ?thesis
    by (simp add: Load_def one_port_def Getenv_def int_setting_def bool_setting_def config_Validate_def Atoi_def
        is_digit_def Let_def)
qed

text \<open>The collector's \<open>Stop\<close> does not hang in \<open>Wait\<close>. After it closed its channel and began to shut the
  server down, the wait group counts the goroutines that run; no step adds to it; and while it is not
  zero one of them can return, whether or not the server ever listened.\<close>

theorem collector_stop_returns:
  assumes "net_run refused (net_init cfg) es n" and "nt_stopCh n" and "hs_in_shutdown (nt_metrics n)"
    and "hs_pc (nt_metrics n) \<noteq> NotSpawned"
  shows "0 \<le> nt_wg n \<and> nt_wg n \<le> 2 \<and> (\<forall>e n'. net_step refused n e n' \<longrightarrow> nt_wg n' \<le> nt_wg n) \<and>
    (nt_wg n = 0 \<and> net_step refused n NtWaitDone n \<or>
     (\<exists>e n'. e \<in> {NtServerClosed MetricsSrv, NtCollectReturns} \<and> net_step refused n e n' \<and> nt_wg n' = nt_wg n - 1))"
proof (intro conjI)
  note i = net_inv_run [OF assms(1)]
  show "0 \<le> nt_wg n" "nt_wg n \<le> 2" using i by (auto simp: net_inv_def)
  have keep: "nt_wg (with_server w s m) = nt_wg m" for w s m by (cases w) simp_all
  show "\<forall>e n'. net_step refused n e n' \<longrightarrow> nt_wg n' \<le> nt_wg n"
    using assms(4) by (auto elim!: net_stepE simp: keep serve_returns_def mcp_Start_def Let_def)
  show "nt_wg n = 0 \<and> net_step refused n NtWaitDone n \<or>
     (\<exists>e n'. e \<in> {NtServerClosed MetricsSrv, NtCollectReturns} \<and> net_step refused n e n' \<and> nt_wg n' = nt_wg n - 1)"
  proof (cases "nt_collecting n")
    case True
    from nt_collect_returns [OF True assms(2), of refused] show ?thesis
      by (intro disjI2 exI [of _ NtCollectReturns] exI [of _ "n\<lparr>nt_collecting := False, nt_wg := nt_wg n - 1\<rparr>"]) simp
  next
    case False
    show ?thesis
    proof (cases "hs_pc (nt_metrics n) = Spawned \<or> hs_pc (nt_metrics n) = Listening")
      case True
      then have "net_step refused n (NtServerClosed MetricsSrv) (serve_returns MetricsSrv False n)"
        using assms(3) by (intro nt_server_closed) simp_all
      then show ?thesis
        by (intro disjI2 exI [of _ "NtServerClosed MetricsSrv"] exI [of _ "serve_returns MetricsSrv False n"])
          (simp add: serve_returns_def Let_def)
    next
      case no: False
      with i False have "nt_wg n = 0" by (simp add: net_inv_def)
      with nt_wait_done [OF assms(3)] show ?thesis by blast
    qed
  qed
qed

section \<open>Time limits\<close>

definition reply_delivered :: "http_server \<Rightarrow> int \<Rightarrow> int \<Rightarrow> bool" where
  "reply_delivered srv t_read t_done \<longleftrightarrow> hs_write_timeout srv = 0 \<or> t_done \<le> t_read + hs_write_timeout srv"

text \<open>\<open>Shutdown\<close> as its caller sees it; \<open>finish\<close> says when the handler of a request returns, if it does.\<close>

definition unfinished :: "(nat \<Rightarrow> int option) \<Rightarrow> int \<Rightarrow> (nat \<times> int) list \<Rightarrow> (nat \<times> int) list" where
  "unfinished finish deadline rs = filter (\<lambda>r. case finish (fst r) of None \<Rightarrow> True | Some t \<Rightarrow> t > deadline) rs"

definition http_Shutdown :: "(nat \<Rightarrow> int option) \<Rightarrow> int \<Rightarrow> http_server \<Rightarrow> http_server \<times> string option" where
  "http_Shutdown finish deadline srv =
     (let late = unfinished finish deadline (hs_active srv)
      in (srv\<lparr>hs_in_shutdown := True, hs_active := late\<rparr>,
          if late = [] then None else Some ''context deadline exceeded''))"

definition mcp_Stop :: "(nat \<Rightarrow> int option) \<Rightarrow> int \<Rightarrow> http_server \<Rightarrow> http_server \<times> string option" where
  "mcp_Stop finish now srv = http_Shutdown finish (now + 5 * second) srv"

text \<open>The functions \<open>main\<close> registers for the two servers, on a state that contains them. The MCP server's
  ignores the common deadline; the collector's panics when its channel is closed already (\<open>None\<close>).\<close>

definition stop_mcp_fn :: "(nat \<Rightarrow> int option) \<Rightarrow> int \<Rightarrow> (http_server \<times> 'q, string) shutdown_fn" where
  "stop_mcp_fn finish now deadline s =
     (case mcp_Stop finish now (fst s) of (srv, e) \<Rightarrow> ((srv, snd s), e))"

definition stop_collector :: "(nat \<Rightarrow> int option) \<Rightarrow> int \<Rightarrow> http_server \<Rightarrow> 's collector \<Rightarrow>
    (http_server \<times> 's collector \<times> string option) option" where
  "stop_collector finish deadline srv c =
     (case http_Shutdown finish deadline srv of
        (srv', e) \<Rightarrow> map_option (\<lambda>(c', r). (srv', c', r)) (collector_Stop e c))"

lemma main_start_manager:
  "main_start st mc = Running sv \<Longrightarrow>
     sv_shutdown sv = fold RegisterShutdownFunc [stop_streamer st, stop_pool st, stop_metrics st, stop_mcp st] NewManager"
  by (auto simp: main_start_def Let_def split: sum.splits prod.splits option.splits if_splits)

lemma main_shutdown_mcp:
  assumes "main_start st mc = Running sv" and "stop_mcp st = stop_mcp_fn finish now"
  shows "main_shutdown now sv s =
    (case mcp_Stop finish now (fst s) of
       (srv, Some e) \<Rightarrow> ((srv, snd s), 1)
     | (srv, None) \<Rightarrow>
         (case run_fns (now + 30000000000) [stop_metrics st, stop_pool st, stop_streamer st] (srv, snd s) of
            (s', Some e) \<Rightarrow> (s', 1) | (s', None) \<Rightarrow> (s', 0)))"
proof -
  have "Shutdown now 30000000000 (sv_shutdown sv) s =
      run_fns (now + 30000000000) [stop_mcp st, stop_metrics st, stop_pool st, stop_streamer st] s"
    unfolding main_start_manager [OF assms(1)] Shutdown_def registered
    by (subst shutdown_loop_run) (simp_all add: NewManager_def)
  then show ?thesis
    unfolding main_shutdown_def
    by (simp add: assms(2) stop_mcp_fn_def split: prod.splits option.splits)
qed

text \<open>A run with a result lasted longer than was asked for.\<close>

lemma lt_loop_lasts: "lt_loop rnd gen submit endTime es st = LoopDone st' \<Longrightarrow> \<exists>now a b. Tick now a b \<in> set es \<and> endTime < now"
proof (induction rnd gen submit endTime es st rule: lt_loop.induct)
  case (4 rnd gen submit endTime now submitStart since es st)
  then show ?case by (cases "endTime < now") (auto split: option.splits)
qed auto

lemma load_test_lasts:
  assumes "ieee rnd" and "1 \<le> secs" and "secs \<le> 300"
    and "tester_Run rnd sha256 r submit rd es tps (secs * 1000000000) lt pl = RunResult lt' pl' res"
  shows "\<exists>now a b. Tick now a b \<in> set es \<and> rd_start rd + secs * 1000000000 < now"
proof -
  have "wrap64 (secs * 1000000000) = secs * 1000000000"
    using assms(2,3) by (intro wrap64_small) simp_all
  with assms(4) show ?thesis
    unfolding tester_Run_def run_config_ok [OF assms(1-3)]
    by (auto simp: RunLoadTest_def Let_def dest!: lt_loop_lasts split: option.splits lt_loop_result.splits)
qed

text \<open>C25: a load test outlasts the server it was requested from. Let a run of \<open>secs\<close> seconds that ends with a
  result be made inside a request whose header was read at \<open>t_read\<close> and whose handler returns at
  \<open>t_done\<close>, after the last tick. From ten seconds on its reply is never delivered, for the write
  time-out has passed. And when the shutdown begins with at least five seconds of it left, the MCP
  server's stop function fails, the exit code is 1, and the functions that stop the collector, the
  pool and the streamer are never called.\<close>

theorem load_test_outlasts_server:
  assumes "ieee rnd" and "1 \<le> secs" and "secs \<le> 300"
    and "tester_Run rnd sha256 r submit rd es tps (secs * 1000000000) lt pl = RunResult lt' pl' res"
    and "t_read \<le> rd_start rd" and "\<forall>now a b. Tick now a b \<in> set es \<longrightarrow> now \<le> t_done"
  shows "(10 \<le> secs \<longrightarrow> \<not> reply_delivered (mcp_http port) t_read t_done) \<and>
    (\<forall>st mc sv finish now srv q i. main_start st mc = Running sv \<and> stop_mcp st = stop_mcp_fn finish now \<and>
       (i, t_read) \<in> set (hs_active srv) \<and> finish i = Some t_done \<and> now + 5 * second \<le> rd_start rd + secs * second \<longrightarrow>
       (case main_shutdown now (sv :: ('w, http_server \<times> 'q, string) server) (srv, q) of
          ((srv', q'), ec) \<Rightarrow> ec = 1 \<and> q' = q \<and> (i, t_read) \<in> set (hs_active srv')))"
proof -
  obtain t a b where "Tick t a b \<in> set es" "rd_start rd + secs * 1000000000 < t"
    using load_test_lasts [OF assms(1-4)] by blast
  with assms(6) have late: "rd_start rd + secs * second < t_done" by (fastforce simp: second_def)
  show ?thesis
  proof (intro conjI allI impI)
    show "\<not> reply_delivered (mcp_http port) t_read t_done" if "10 \<le> secs"
      using that late assms(5) by (simp add: reply_delivered_def mcp_http_def second_def)
    fix st :: "(http_server \<times> 'q, string) stop_fns" and mc :: "'w machine"
      and sv :: "('w, http_server \<times> 'q, string) server" and srv :: http_server and q :: 'q and finish now i
    assume h: "main_start st mc = Running sv \<and> stop_mcp st = stop_mcp_fn finish now \<and> (i, t_read) \<in> set (hs_active srv) \<and>
      finish i = Some t_done \<and> now + 5 * second \<le> rd_start rd + secs * second"
    then have mem: "(i, t_read) \<in> set (unfinished finish (now + 5 * second) (hs_active srv))"
      using late by (simp add: unfinished_def)
    then have "unfinished finish (now + 5 * second) (hs_active srv) \<noteq> []" by auto
    moreover have "main_start st mc = Running sv" "stop_mcp st = stop_mcp_fn finish now" using h by simp_all
    note main_shutdown_mcp [OF this, of "(srv, q)"]
    ultimately show "case main_shutdown now sv (srv, q) of
        ((srv', q'), ec) \<Rightarrow> ec = 1 \<and> q' = q \<and> (i, t_read) \<in> set (hs_active srv')"
      using mem by (simp add: mcp_Stop_def http_Shutdown_def Let_def)
  qed
qed

section \<open>Witnesses\<close>

text \<open>Both servers start, and the collector's comes to listen first.\<close>

definition default_config :: config where
  "default_config = \<lparr>ETHRPCURL = ''ws://node'', WorkerCount = 4, MetricsPort = 9090, MCPPort = 8080, LoadTestEnabled = False\<rparr>"

definition two_started :: net where
  "two_started = \<lparr>nt_metrics = (metrics_http 9090)\<lparr>hs_pc := Listening\<rparr>, nt_mcp = (mcp_http 8080)\<lparr>hs_pc := Spawned\<rparr>,
     nt_collecting = True, nt_stopCh = False, nt_wg = 2\<rparr>"

lemma two_started_run:
  "net_run (\<lambda>w n. False) (net_init default_config) [NtStart MetricsSrv, NtStart McpSrv, NtListening MetricsSrv] two_started"
  unfolding net_init_def default_config_def
  apply (rule net_runs.runs_cons [OF nt_start_metrics], simp add: metrics_http_def)
  apply (simp add: collector_Start_def)
  apply (rule net_runs.runs_cons [OF nt_start_mcp], simp add: mcp_http_def)
  apply (simp add: mcp_Start_def)
  apply (rule net_runs.runs_cons [OF nt_listening], simp, simp add: metrics_http_def, simp)
  apply (simp add: two_started_def nt_Nil)
  done

theorem collector_stop_returns_witness:
  "\<exists>n. net_run (\<lambda>w n. False) (net_init default_config) [NtStart MetricsSrv, NtStart McpSrv, NtListening MetricsSrv, NtStopCh,
     NtShutdown MetricsSrv] n \<and> nt_wg n = 2 \<and> (\<exists>e n'. net_step (\<lambda>w n. False) n e n' \<and> nt_wg n' = 1)"
proof -
  let ?c = "two_started\<lparr>nt_stopCh := True\<rparr>"
  let ?n = "with_server MetricsSrv ((server_of MetricsSrv ?c)\<lparr>hs_in_shutdown := True\<rparr>) ?c"
  have "net_step (\<lambda>w n. False) two_started NtStopCh ?c" by (rule nt_stop_ch) (simp add: two_started_def)
  moreover have "net_step (\<lambda>w n. False) ?c (NtShutdown MetricsSrv) ?n" by (rule nt_shutdown) simp
  ultimately have run: "net_run (\<lambda>w n. False) (net_init default_config) [NtStart MetricsSrv, NtStart McpSrv, NtListening MetricsSrv,
      NtStopCh, NtShutdown MetricsSrv] ?n"
    using nt_snoc [OF nt_snoc [OF two_started_run]] by simp
  have "nt_wg ?n = 2" by (simp add: two_started_def)
  with collector_stop_returns [OF run] have "\<exists>e n'. net_step (\<lambda>w n. False) ?n e n' \<and> nt_wg n' = 1"
    by (auto simp: two_started_def)
  with run \<open>nt_wg ?n = 2\<close> show ?thesis by blast
qed

text \<open>A test of ten seconds, requested at time 0; and a server that is told to stop while it runs.\<close>

theorem load_test_outlasts_server_witness:
  "\<exists>lt' pl' res. tester_Run (\<lambda>x. x) (\<lambda>m. replicate 32 0) counting_rand half_pool sample_readings
     [Tick 10000000001 0 0] 25 (10 * 1000000000) (NewLoadTester 42) 0 = RunResult lt' pl' res \<and>
     \<not> reply_delivered (mcp_http 8080) 0 10000000001 \<and>
     (\<forall>(st :: (http_server \<times> unit, string) stop_fns) (mc :: unit machine). \<exists>sv.
        main_start (st\<lparr>stop_mcp := stop_mcp_fn (\<lambda>i. Some 10000000001) 1\<rparr>)
          (mc\<lparr>mc_environ := url_only, mc_logger_ok := True, mc_dial := \<lambda>n. True\<rparr>) = Running sv \<and>
        snd (main_shutdown 1 sv ((mcp_http 8080)\<lparr>hs_active := [(7, 0)]\<rparr>, ())) = 1)"
proof -
  let ?cfg = "\<lparr>TPS = 25, DurationSeconds = 10, TransactionsPerBlock = 10\<rparr>"
  let ?es = "[Tick 10000000001 0 0]"
  have w: "wrap64 10000000000 = 10000000000" by (rule wrap64_small) simp_all
  have i: "ticker_interval (\<lambda>x. x) ?cfg \<noteq> None" using ticker_interval_ok [OF ieee_id, of ?cfg] by auto
  have cfg: "run_config (\<lambda>x. x) 25 (10 * 1000000000) = ?cfg" using run_config_ok [OF ieee_id, of 10 25] by simp
  have "\<exists>e\<in>set ?es. stops (rd_start sample_readings + wrap64 (DurationSeconds ?cfg * 1000000000)) e"
    by (simp add: w sample_readings_def)
  from RunLoadTest_outcome [OF ieee_id rand_ok_counting digest32_const _ _ i this, of half_pool "NewLoadTester 42" 0]
  obtain lt' pl' res where run: "tester_Run (\<lambda>x. x) (\<lambda>m. replicate 32 0) counting_rand half_pool sample_readings ?es
     25 (10 * 1000000000) (NewLoadTester 42) 0 = RunResult lt' pl' res"
    unfolding tester_Run_def cfg by auto
  have "1 \<le> (10 :: int)" "(10 :: int) \<le> 300" "0 \<le> rd_start sample_readings"
    "\<forall>now a b. Tick now a b \<in> set ?es \<longrightarrow> now \<le> 10000000001"
    by (simp_all add: sample_readings_def)
  note out = load_test_outlasts_server [OF ieee_id this(1,2) run this(3,4)]
  have "\<not> reply_delivered (mcp_http 8080) 0 10000000001" using out [of 8080, THEN conjunct1] by simp
  moreover have "snd (main_shutdown 1 sv ((mcp_http 8080)\<lparr>hs_active := [(7, 0)]\<rparr>, ())) = 1"
    if "main_start (st\<lparr>stop_mcp := stop_mcp_fn (\<lambda>i. Some 10000000001) 1\<rparr>) mc = Running sv"
    for st :: "(http_server \<times> unit, string) stop_fns" and mc :: "unit machine" and sv
    using out [of 8080, THEN conjunct2, rule_format, of "st\<lparr>stop_mcp := stop_mcp_fn (\<lambda>i. Some 10000000001) 1\<rparr>" mc sv
        "\<lambda>i. Some 10000000001" 1 7 "(mcp_http 8080)\<lparr>hs_active := [(7, 0)]\<rparr>" "()"] that
    by (simp add: sample_readings_def second_def split: prod.splits)
  ultimately show ?thesis using run url_only_starts by blast
qed

end
