(* ===== verification/Spec2Isabelle.thy ===== *)
theory Spec2Isabelle
  imports System Http_Servers
begin

text \<open>
  \<^bold>\<open>Hybrid runtime blockchain engine\<close>: a verification library.

  \<^bold>\<open>The program.\<close> A Go process (\<^verbatim>\<open>cmd/server/main.go\<close>) subscribes to the block headers of an Ethereum
  node, fetches each block and hands it to a pool of workers. A worker gives it to the reorg engine,
  which decides whether it extends the chain or starts a fork, and applies it to a state engine written
  in Rust: over a binary format, a C interface and a second decoder. The state engine keeps accounts and
  ten snapshots to roll back to. Around this path stand an MCP server (JSON-RPC, a validator, a rate
  limiter and eleven tools), a load tester that generates blocks, a metrics collector and a shutdown
  manager. Paths below are relative to \<^verbatim>\<open>src/internal/\<close>, unless they begin with \<^verbatim>\<open>cmd\<close> or \<^verbatim>\<open>rust-core\<close>.

  \<^bold>\<open>The theories\<close>, each after those it uses. Definitions have the names of the source; a prefix is added
  where two components share a name.

  \<^item> Foundations. \<^verbatim>\<open>Prelude\<close>: machine types, big-endian codes, the locales of bounded logs and of labelled
    runs, and shared lemmas. \<^verbatim>\<open>Go_Strings\<close>: byte strings, UTF-8 decoding, \<^verbatim>\<open>strconv\<close>. \<^verbatim>\<open>Json\<close>: decoded JSON values.
    \<^verbatim>\<open>Go_Runtime\<close>: the memory statistics and their ring of pauses.
  \<^item> Data and codecs. \<^verbatim>\<open>Ffi_Types\<close> (\<^verbatim>\<open>ffi/types.go\<close>): blocks, transactions, 256-bit values, the block hash.
    \<^verbatim>\<open>Serialization\<close> (\<^verbatim>\<open>ffi/serialization.go\<close>): writer and reader, with the locale of stream codecs.
    \<^verbatim>\<open>Validation\<close> (\<^verbatim>\<open>ffi/validation.go\<close>).
  \<^item> State engine. \<^verbatim>\<open>U256_Arith\<close> (\<^verbatim>\<open>rust-core/src/types.rs\<close>): the carry loops and the order of values.
    \<^verbatim>\<open>State_Engine\<close> (\<^verbatim>\<open>rust-core/src/state.rs\<close>): applying blocks, snapshots, rollback, state root.
    \<^verbatim>\<open>Core_Ffi\<close> (\<^verbatim>\<open>rust-core/src/ffi.rs\<close>): the C functions with their return codes and the Rust decoder.
    \<^verbatim>\<open>Ffi\<close> (\<^verbatim>\<open>ffi/ffi.go\<close>): the Go methods over them.
  \<^item> Chain. \<^verbatim>\<open>Ring_Buffer\<close> and \<^verbatim>\<open>Reorg\<close> (\<^verbatim>\<open>reorg/engine.go\<close>): the last ten blocks; detection, recovery and
    processing, with the locale of clients that apply and roll back. \<^verbatim>\<open>Reorg_Concurrent\<close> (with
    \<^verbatim>\<open>worker/pool.go\<close>): the calls of the pool's workers to the engine, split into their accesses to what
    they share and interleaved. \<^verbatim>\<open>Worker_Race\<close>: what goes wrong when they overtake each other.
  \<^item> Flow. \<^verbatim>\<open>Worker_Pool\<close> (\<^verbatim>\<open>worker/pool.go\<close>): submitters, workers and \<open>Stop\<close> as interleaved steps.
    \<^verbatim>\<open>Streamer\<close> (\<^verbatim>\<open>streamer/streamer.go\<close>): decoding, the message loop, retries. \<^verbatim>\<open>Streamer_Life\<close> (same file):
    \<open>Start\<close>, dialing, streaming, reconnecting and \<open>Stop\<close> as interleaved steps. \<^verbatim>\<open>Shutdown\<close>
    (\<^verbatim>\<open>shutdown/shutdown.go\<close>) and \<^verbatim>\<open>Config\<close> (\<^verbatim>\<open>config/config.go\<close>).
  \<^item> MCP. \<^verbatim>\<open>Rate_Limiter\<close>, \<^verbatim>\<open>Input_Validator\<close>, \<^verbatim>\<open>Mcp_Server\<close>, and for \<^verbatim>\<open>mcp/tools.go\<close> \<^verbatim>\<open>Trackers\<close> (the
    latency buffers) and \<^verbatim>\<open>Mcp_Tools\<close> (the eleven tools and their registration).
  \<^item> Load test. \<^verbatim>\<open>Load_Generator\<close> (\<^verbatim>\<open>loadtest/generator.go\<close>) and \<^verbatim>\<open>Load_Tester\<close> (\<^verbatim>\<open>metrics.go\<close>,
    \<^verbatim>\<open>tester.go\<close>, \<^verbatim>\<open>report.go\<close>).
  \<^item> Observation. \<^verbatim>\<open>Metrics\<close> (\<^verbatim>\<open>metrics/collector.go\<close>, \<^verbatim>\<open>adapters_impl.go\<close>, \<^verbatim>\<open>interfaces.go\<close>).
  \<^item> Process. \<^verbatim>\<open>Logging\<close> (\<^verbatim>\<open>logging/logger.go\<close>): the loggers over the zap library. \<^verbatim>\<open>Server\<close>
    (\<^verbatim>\<open>cmd/server/main.go\<close>): start, wiring, forwarding and exit. \<^verbatim>\<open>Pipeline\<close> (same file): the streamer, the forwarding goroutine, the pool and the shutdown of \<open>main\<close> as one step relation, whose
    runs project to runs of its components. \<^verbatim>\<open>System\<close>: the flow together with the calls of its workers to the
    reorg engine; a run of it is a run of both. \<^verbatim>\<open>Http_Servers\<close> (\<^verbatim>\<open>mcp/server.go\<close>, \<^verbatim>\<open>metrics/collector.go\<close>):
    the two listeners, their routes, goroutines, time-outs and \<open>Stop\<close>.

  \<^bold>\<open>How the code is rendered.\<close> Structs are records, enumerations of errors datatypes, fixed-width integers
  words and Go's \<open>int\<close> a mathematical integer where it cannot overflow. A method is a function from the
  state and its arguments to the new state and its result; a possible error is a sum, a panic or a nil
  pointer an option. A method under a mutex is one step; \<open>ProcessBlock\<close>, which has none, is one step per access.
  Goroutines are step relations. Floating point numbers are rationals with a rounding function applied after each operation; what is assumed of
  the rounding stands in the theorems that need it. Clock readings, random numbers, hash functions (SHA-256,
  Blake3), the results of the network, JSON texts and the file system are arguments. Hash functions are only
  assumed to return 32 bytes, and injective where a theorem says so.

  \<^bold>\<open>What the lemmas show.\<close>

  \<^item> Encoding: decoding inverts encoding; what the Go decoder accepts is characterised; the Rust decoder
    accepts a subset with equal results; and the whole bridge is transparent: \<open>ApplyBlock\<close> in Go does
    exactly what \<open>apply_block\<close> does to the engine (\<^verbatim>\<open>Ffi.ApplyBlock_transparent\<close>).
  \<^item> State: carry loops are exact arithmetic; the supply is conserved, also by failing blocks; a rollback
    restores; a failing block leaves its first effects behind; no account can ever get a balance.
  \<^item> Chain: the engine, the bridge and the buffer follow the chain that fork choice selects for the
    first ten blocks (\<^verbatim>\<open>Reorg.reorg_follows_chain\<close>); each outcome of one call; where it goes wrong
    beyond them.
  \<^item> Flow: what is accepted is processed once, in order, also during \<open>Stop\<close>; when \<open>Submit\<close> panics; the
    streamer loses nothing it sent, takes at most seven steps after \<open>Stop\<close> and needs the node for none of
    them, unless a dial completed after the stop, when it can wait in \<open>ReadMessage\<close> for ever; it leaks
    connections; headers are lost during a fetch.
  \<^item> MCP: requests are gated; nothing but a load test changes the program; rates and percentiles are
    bounded.
  \<^item> Load test: a run is equal to submitting the generated blocks one by one and it ends; all its blocks
    with transactions are refused by the core.
  \<^item> Concurrency: with one worker the engine is used serially, as a fold of \<open>ProcessBlock\<close>
    (\<^verbatim>\<open>Reorg_Concurrent.one_worker_serial\<close>); with more, the bridge and the core stay consistent in every
    interleaving (\<^verbatim>\<open>concurrent_calls_safe\<close>), but three good blocks can leave the buffer swapped and the
    engine stuck (\<^verbatim>\<open>Worker_Race.workers_race\<close>).
  \<^item> Composition: no block is lost between the streamer and the workers until the shutdown begins, and the
    shutdown can crash as long as the process has not exited, also after the streamer was stopped (\<^verbatim>\<open>Pipeline.pipeline_blocks\<close>, \<^verbatim>\<open>Pipeline.shutdown_crash\<close>); from the node to the
    state engine, one worker makes the whole process a fold over the blocks sent (\<^verbatim>\<open>System.end_to_end\<close>); a
    server attached to a chain past its first block, with load testing off, applies nothing, however its
    goroutines interleave (\<^verbatim>\<open>System.live_chain_system\<close>); when the server comes up and how it stops (\<^verbatim>\<open>Server.main_start_spec\<close>).
  \<^item> Listeners: that the collector's \<open>Stop\<close> returns, and that a load test outlasts the time limits of the
    server that runs it; the health probes against the states of the pool.
  \<^item> Configuration: what \<open>Load\<close> accepts, against a description of the settings that is separate from the code
    (\<^verbatim>\<open>Config.Load_spec\<close>), and that its errors name what is wrong.

  \<^bold>\<open>Interfaces.\<close> \<^verbatim>\<open>bounded_log\<close> (the ring buffer and both trackers), \<^verbatim>\<open>stream_codec\<close> (the two transaction
  decoders), \<^verbatim>\<open>ffi_client\<close> (the bridge, for the reorg engine) and its extension \<^verbatim>\<open>refusing_client\<close> (the bridge of
  an unfunded engine, for the load test and the concurrent calls), \<^verbatim>\<open>labelled_runs\<close> (the runs of the pool, the
  streamer, the flow, the calls, the process and the listeners).

  \<^bold>\<open>Bounds and termination.\<close> No definition uses fuel. Loops over an index or a list are structural; the
  message loop of the streamer and the scan of frames terminate by the length of what is left, the
  hexadecimal printer by its number. Loops that may run for ever (workers, the streamer, waiting) are
  relations, for which a measure bounds the steps after \<open>Stop\<close> and a progress lemma says where they can
  get stuck: the workers of a stopped pool nowhere, the streamer only in \<open>ReadMessage\<close> on an open connection
  (the steps that only the node can cause are told apart from its own); a run of the load tester is a function of the events its channels deliver and yields
  \<open>RunWaiting\<close> when these end too early.

  \<^bold>\<open>Not modelled.\<close> What the components log. The contents of JSON text and of
  HTTP messages, the Prometheus handler and the printing of error messages: they belong to libraries; a
  request body over the size limit is one that does not decode. Of the races on the ring buffer, which has
  no lock, those inside one of its methods: calls interleave between its methods, and the reads of
  \<open>DetectReorg\<close> are one step. The blocks a load test submits take part in \<^verbatim>\<open>Reorg_Concurrent\<close>, where anyone
  may submit, but not in \<^verbatim>\<open>Pipeline\<close> and \<^verbatim>\<open>System\<close>, where only the forwarder does: with the load-test flag
  set, their runs are those in which no load test is requested. Which addresses the operating system lets
  two listeners share is a parameter of \<^verbatim>\<open>Http_Servers\<close>. Snapshots that the load
  tester's other goroutine takes after the test has ended. \<open>Stop\<close> of the streamer is one step, after which \<open>main\<close> still has to return before the process ends; a failed
  read inside a fetch ends the frames of its connection.
\<close>

end
